(* ===== verification/Prelude.thy ===== *)
theory Prelude
  imports Main "HOL-Library.Word" "HOL-Library.AList"
begin

section \<open>Shared vocabulary: machine integers, bytes and the little-endian codec\<close>

text \<open>
  The types every component uses (\<open>uint8_t\<close>, \<open>uint32_t\<close>, \<open>uint64_t\<close> as words, a byte vector as
  a list of bytes), and the byte codec behind each \<open>std::memcpy\<close> between an integer and a byte
  buffer. The server is built for little-endian x86-64 hosts (the comment on \<open>g_delta_magic\<close> in
  \<open>core/object.cpp\<close> says so too), so the codec is little-endian.
\<close>

type_synonym u8 = "8 word"
type_synonym u32 = "32 word"
type_synonym u64 = "64 word"
type_synonym bytes = "u8 list"

text \<open>Facts about the byte codec, collected for the components that frame and unframe bytes.\<close>

named_theorems codec_simps

lemma unat_lt: "unat (w :: 'a::len word) < 2 ^ LENGTH('a)"
  by (rule unsigned_less)

lemma of_nat_unat_self: "word_of_nat (unat w) = (w :: 'a::len word)"
  by simp

primrec le_encode :: "nat \<Rightarrow> nat \<Rightarrow> bytes" where
  "le_encode 0 n = []"
| "le_encode (Suc k) n = word_of_nat (n mod 256) # le_encode k (n div 256)"

primrec le_decode :: "bytes \<Rightarrow> nat" where
  "le_decode [] = 0"
| "le_decode (b # bs) = unat b + 256 * le_decode bs"

lemma length_le_encode [simp, codec_simps]: "length (le_encode k n) = k"
  by (induction k arbitrary: n) simp_all

lemma le_encode_four:
  "le_encode 4 n =
     [word_of_nat (n mod 256), word_of_nat (n div 256 mod 256), word_of_nat (n div 65536 mod 256),
      word_of_nat (n div 16777216 mod 256)]"
proof -
  have "(4 :: nat) = Suc (Suc (Suc (Suc 0)))" by simp
  then have "le_encode 4 n =
     [word_of_nat (n mod 256), word_of_nat (n div 256 mod 256), word_of_nat (n div 256 div 256 mod 256),
      word_of_nat (n div 256 div 256 div 256 mod 256)]"
    by (simp only: le_encode.simps)
  then show ?thesis by (simp add: div_mult2_eq [symmetric])
qed

lemma unat_byte_of_nat: "unat (word_of_nat (n mod 256) :: u8) = n mod 256"
  by (simp add: unat_of_nat)

lemma le_decode_encode: "le_decode (le_encode k n) = n mod 256 ^ k"
proof (induction k arbitrary: n)
  case 0
  then show ?case by simp
next
  case (Suc k)
  have "le_decode (le_encode (Suc k) n) = n mod 256 + 256 * ((n div 256) mod 256 ^ k)"
    by (simp add: Suc.IH unat_byte_of_nat)
  also have "\<dots> = n mod (256 * 256 ^ k)"
    by (metis add.commute mod_mult2_eq)
  finally show ?case by simp
qed

lemma le_encode_decode: "le_encode (length bs) (le_decode bs) = bs"
proof (induction bs)
  case Nil
  then show ?case by simp
next
  case (Cons b bs)
  have b: "unat b < 256" using unat_lt [of b] by simp
  then have "(unat b + 256 * le_decode bs) mod 256 = unat b"
    and "(unat b + 256 * le_decode bs) div 256 = le_decode bs"
    by simp_all
  then show ?case by (simp add: Cons.IH)
qed

lemma le_decode_bound: "le_decode bs < 256 ^ length bs"
proof (induction bs)
  case Nil
  then show ?case by simp
next
  case (Cons b bs)
  have "unat b < 256" using unat_lt [of b] by simp
  moreover have "le_decode bs + 1 \<le> 256 ^ length bs" using Cons.IH by simp
  then have "256 * le_decode bs + 256 \<le> 256 * 256 ^ length bs" by simp
  ultimately show ?case by simp
qed

subsection \<open>Loads and stores of fixed-width integers\<close>

text \<open>
  \<open>load_u32 bs\<close> is \<open>memcpy(&x, data, 4)\<close> and \<open>store_u32 x\<close> the four bytes \<open>memcpy(data, &x, 4)\<close>
  writes. A load past the end of the buffer is undefined in C++; every caller checks the size first.
\<close>

definition load_u32 :: "bytes \<Rightarrow> u32" where
  "load_u32 bs = word_of_nat (le_decode (take 4 bs))"

definition store_u32 :: "u32 \<Rightarrow> bytes" where
  "store_u32 w = le_encode 4 (unat w)"

definition load_u64 :: "bytes \<Rightarrow> u64" where
  "load_u64 bs = word_of_nat (le_decode (take 8 bs))"

definition store_u64 :: "u64 \<Rightarrow> bytes" where
  "store_u64 w = le_encode 8 (unat w)"

lemma length_store_u32 [simp, codec_simps]: "length (store_u32 w) = 4"
  by (simp add: store_u32_def)

lemma length_store_u64 [simp, codec_simps]: "length (store_u64 w) = 8"
  by (simp add: store_u64_def)

lemma load_store_u32 [simp, codec_simps]: "load_u32 (store_u32 w @ bs) = w"
proof -
  have "unat w mod 256 ^ 4 = unat w" using unat_lt [of w] by simp
  then show ?thesis by (simp add: load_u32_def store_u32_def le_decode_encode)
qed

lemma load_store_u64 [simp, codec_simps]: "load_u64 (store_u64 w @ bs) = w"
proof -
  have "unat w mod 256 ^ 8 = unat w" using unat_lt [of w] by simp
  then show ?thesis by (simp add: load_u64_def store_u64_def le_decode_encode)
qed

lemma store_load_u32 [codec_simps]: "4 \<le> length bs \<Longrightarrow> store_u32 (load_u32 bs) = take 4 bs"
proof -
  assume "4 \<le> length bs"
  then have len: "length (take 4 bs) = 4" by simp
  have "le_decode (take 4 bs) < 256 ^ 4"
    using le_decode_bound [of "take 4 bs"] len by simp
  then have "unat (load_u32 bs) = le_decode (take 4 bs)"
    by (simp add: load_u32_def unat_of_nat)
  then show ?thesis
    using le_encode_decode [of "take 4 bs"] len by (simp add: store_u32_def)
qed

lemma unat_load_u32: "4 \<le> length bs \<Longrightarrow> unat (load_u32 bs) = le_decode (take 4 bs)"
  using le_decode_bound [of "take 4 bs"] by (simp add: load_u32_def unat_of_nat)

subsection \<open>Signed readings\<close>

lemma sint_nonneg_u32: "0 \<le> sint (w :: u32) \<Longrightarrow> sint w = int (unat w)"
proof -
  assume nonneg: "0 \<le> sint w"
  have "sint w = take_bit 32 (uint w) - 2 ^ 32 * of_bool (bit (uint w) 31)"
    by (simp add: sint_uint signed_take_bit_eq_take_bit_minus)
  moreover have lt: "uint w < 2 ^ 32" using unsigned_less [of w] by simp
  moreover have "take_bit 32 (uint w) = uint w" using lt by (simp add: take_bit_int_eq_self)
  ultimately show ?thesis using nonneg by (cases "bit (uint w) 31") simp_all
qed

subsection \<open>Narrowing a container size to 32 bits\<close>

text \<open>\<open>static_cast<uint32_t>(v.size())\<close>: the size modulo \<open>2 ^ 32\<close>.\<close>

definition size_u32 :: "'a list \<Rightarrow> u32" where
  "size_u32 xs = word_of_nat (length xs)"

lemma unat_size_u32: "unat (size_u32 xs) = length xs mod 2 ^ 32"
  by (simp add: size_u32_def unat_of_nat)

lemma unat_size_u32_exact [codec_simps]:
  "length xs < 2 ^ 32 \<Longrightarrow> unat (size_u32 xs) = length xs"
  by (simp add: unat_size_u32)

end
