(* ===== verification/Unordered_Map.thy ===== *)
theory Unordered_Map
  imports Prelude
begin

section \<open>The hash tables of the program\<close>

text \<open>
  Every component keeps its state in a \<open>std::unordered_map\<close>. This theory states what the code uses
  of one (\<open>find\<close>, \<open>m[k] = v\<close>, \<open>erase\<close>, a range-for loop over all entries) as the locale
  \<open>unordered_map\<close>, proves the facts the components share inside it, and interprets it on an
  executable model, an association list with distinct keys. The order of the list stands for the
  iteration order of the hash table, which C++ leaves unspecified: a theorem that holds for every
  well-formed list holds for every order.
\<close>

locale unordered_map =
  fixes empty :: 'm
    and find :: "'m \<Rightarrow> 'k \<Rightarrow> 'v option"
    and assign :: "'k \<Rightarrow> 'v \<Rightarrow> 'm \<Rightarrow> 'm"
    and erase :: "'k \<Rightarrow> 'm \<Rightarrow> 'm"
    and entries :: "'m \<Rightarrow> ('k \<times> 'v) list"
    and wf :: "'m \<Rightarrow> bool"
  assumes find_empty: "find empty k = None"
    and find_assign: "find (assign k v m) k' = (if k' = k then Some v else find m k')"
    and find_erase: "wf m \<Longrightarrow> find (erase k m) k' = (if k' = k then None else find m k')"
    and wf_empty: "wf empty"
    and wf_assign: "wf m \<Longrightarrow> wf (assign k v m)"
    and wf_erase: "wf m \<Longrightarrow> wf (erase k m)"
    and entries_find: "wf m \<Longrightarrow> (k, v) \<in> set (entries m) \<longleftrightarrow> find m k = Some v"
    and entries_distinct: "wf m \<Longrightarrow> distinct (map fst (entries m))"
begin

definition every :: "('k \<Rightarrow> 'v \<Rightarrow> bool) \<Rightarrow> 'm \<Rightarrow> bool" where
  "every P m \<longleftrightarrow> (\<forall>k v. find m k = Some v \<longrightarrow> P k v)"

lemma every_empty: "every P empty"
  by (simp add: every_def find_empty)

lemma every_assign: "every P m \<Longrightarrow> P k v \<Longrightarrow> every P (assign k v m)"
  by (simp add: every_def find_assign)

lemma every_erase: "wf m \<Longrightarrow> every P m \<Longrightarrow> every P (erase k m)"
  by (simp add: every_def find_erase)

lemma every_find: "every P m \<Longrightarrow> find m k = Some v \<Longrightarrow> P k v"
  by (simp add: every_def)

lemma every_entries: "wf m \<Longrightarrow> every P m \<longleftrightarrow> (\<forall>(k, v) \<in> set (entries m). P k v)"
  by (auto simp: every_def entries_find)

lemma assign_swap: "k \<noteq> k' \<Longrightarrow> find (assign k v (assign k' v' m)) = find (assign k' v' (assign k v m))"
  by (rule ext) (simp add: find_assign)

lemma assign_overwrites: "find (assign k v (assign k v' m)) = find (assign k v m)"
  by (rule ext) (simp add: find_assign)

lemma erase_assign: "wf m \<Longrightarrow> find m k = None \<Longrightarrow> find (erase k (assign k v m)) = find m"
  by (rule ext) (simp add: find_erase find_assign wf_assign)

lemma keys_eq_dom:
  assumes "wf m"
  shows "set (map fst (entries m)) = dom (find m)"
proof -
  have "k \<in> fst ` set (entries m) \<longleftrightarrow> (\<exists>v. (k, v) \<in> set (entries m))" for k
    by force
  then show ?thesis
    by (auto simp: entries_find [OF assms] dom_def)
qed

lemma finite_dom: "wf m \<Longrightarrow> finite (dom (find m))"
  by (metis keys_eq_dom finite_set)

end

subsection \<open>The executable model\<close>

type_synonym ('k, 'v) umap = "('k \<times> 'v) list"

definition um_empty :: "('k, 'v) umap" where
  "um_empty = []"

definition um_find :: "('k, 'v) umap \<Rightarrow> 'k \<Rightarrow> 'v option" where
  "um_find m k = map_of m k"

definition um_assign :: "'k \<Rightarrow> 'v \<Rightarrow> ('k, 'v) umap \<Rightarrow> ('k, 'v) umap" where
  "um_assign k v m = AList.update k v m"

definition um_erase :: "'k \<Rightarrow> ('k, 'v) umap \<Rightarrow> ('k, 'v) umap" where
  "um_erase k m = AList.delete k m"

definition um_entries :: "('k, 'v) umap \<Rightarrow> ('k \<times> 'v) list" where
  "um_entries m = m"

definition um_wf :: "('k, 'v) umap \<Rightarrow> bool" where
  "um_wf m \<longleftrightarrow> distinct (map fst m)"

text \<open>\<open>um_at d m k\<close> is \<open>m[k]\<close> read: the value, or a default-constructed \<open>d\<close> when absent.\<close>

definition um_at :: "'v \<Rightarrow> ('k, 'v) umap \<Rightarrow> 'k \<Rightarrow> 'v" where
  "um_at d m k = (case um_find m k of None \<Rightarrow> d | Some v \<Rightarrow> v)"

lemmas um_defs = um_empty_def um_find_def um_assign_def um_erase_def um_entries_def um_wf_def um_at_def

interpretation um: unordered_map um_empty um_find um_assign um_erase um_entries um_wf
  by unfold_locales
    (auto simp: um_defs update_conv' delete_conv' distinct_update distinct_delete
      map_of_eq_Some_iff)

text \<open>The laws of the model as rewrite rules, for the components' proofs.\<close>

lemma um_find_empty [simp]: "um_find um_empty k = None"
  by (rule um.find_empty)

lemma um_find_assign [simp]: "um_find (um_assign k v m) k' = (if k' = k then Some v else um_find m k')"
  by (rule um.find_assign)

lemma um_find_erase [simp]:
  "um_find (um_erase k m) k' = (if k' = k then None else um_find m k')"
  by (simp add: um_defs delete_conv')

lemma um_wf_empty [simp]: "um_wf um_empty"
  by (rule um.wf_empty)

lemma um_wf_assign [simp]: "um_wf m \<Longrightarrow> um_wf (um_assign k v m)"
  by (rule um.wf_assign)

lemma um_wf_erase [simp]: "um_wf m \<Longrightarrow> um_wf (um_erase k m)"
  by (rule um.wf_erase)

lemma um_find_assign_fun: "um_find (um_assign k v m) = (um_find m)(k \<mapsto> v)"
  by (rule ext) simp

lemma um_find_erase_fun: "um_find (um_erase k m) = (um_find m)(k := None)"
  by (rule ext) simp

end
