(* ===== verification/Schema_Manager.thy ===== *)
theory Schema_Manager
  imports Unordered_Map
begin

section \<open>Schemas and the schema manager\<close>

text \<open>
  \<open>core/schema_manager.h\<close> and \<open>core/schema_manager.cpp\<close>: field types, field and schema records, and
  the manager that keeps every registered schema under its object type and version. The methods
  hold \<open>mutex_\<close> from their first to their last line, so each is one atomic operation here.
\<close>

subsection \<open>Data\<close>

datatype FieldType = Int32 | Int64 | Float | Double | Bool | String | Bytes | ObjectRef

text \<open>The underlying \<open>uint8_t\<close> of the enumeration.\<close>

fun FieldType_code :: "FieldType \<Rightarrow> u8" where
  "FieldType_code Int32 = 1"
| "FieldType_code Int64 = 2"
| "FieldType_code Float = 3"
| "FieldType_code Double = 4"
| "FieldType_code Bool = 5"
| "FieldType_code String = 6"
| "FieldType_code Bytes = 7"
| "FieldType_code ObjectRef = 8"

lemma FieldType_code_inject [simp]: "FieldType_code x = FieldType_code y \<longleftrightarrow> x = y"
  by (cases x; cases y) simp_all

text \<open>A scoped enumeration is ordered by its underlying value.\<close>

instantiation FieldType :: linorder
begin

definition less_eq_FieldType :: "FieldType \<Rightarrow> FieldType \<Rightarrow> bool" where
  "less_eq_FieldType x y \<longleftrightarrow> FieldType_code x \<le> FieldType_code y"

definition less_FieldType :: "FieldType \<Rightarrow> FieldType \<Rightarrow> bool" where
  "less_FieldType x y \<longleftrightarrow> FieldType_code x < FieldType_code y"

instance
  by intro_classes (auto simp: less_eq_FieldType_def less_FieldType_def less_le)

end

record FieldDef =
  fd_name :: string
  fd_type :: FieldType
  fd_offset :: u32
  fd_size :: u32

record Schema =
  sc_version :: u32
  sc_object_type :: u32
  sc_fields :: "FieldDef list"
  sc_total_size :: u32

text \<open>\<open>schemas_\<close>: object type to version to schema.\<close>

record SchemaManager =
  sm_schemas :: "(u32, (u32, Schema) umap) umap"

definition SchemaManager_new :: SchemaManager where
  "SchemaManager_new = \<lparr>sm_schemas = um_empty\<rparr>"

subsection \<open>Operations\<close>

definition SchemaManager_RegisterSchema :: "Schema \<Rightarrow> SchemaManager \<Rightarrow> SchemaManager" where
  "SchemaManager_RegisterSchema schema sm =
     sm\<lparr>sm_schemas :=
          um_assign (sc_object_type schema)
            (um_assign (sc_version schema) schema
               (um_at um_empty (sm_schemas sm) (sc_object_type schema)))
            (sm_schemas sm)\<rparr>"

text \<open>The returned pointer is null (\<open>None\<close>) when the type or the version is unknown.\<close>

definition SchemaManager_GetSchema :: "SchemaManager \<Rightarrow> u32 \<Rightarrow> u32 \<Rightarrow> Schema option" where
  "SchemaManager_GetSchema sm object_type version =
     (case um_find (sm_schemas sm) object_type of
        None \<Rightarrow> None
      | Some versions \<Rightarrow> um_find versions version)"

definition latest_version :: "(u32 \<times> Schema) list \<Rightarrow> u32" where
  "latest_version es = fold (\<lambda>(version, schema) latest. max version latest) es 0"

definition SchemaManager_GetLatestVersion :: "SchemaManager \<Rightarrow> u32 \<Rightarrow> u32 option" where
  "SchemaManager_GetLatestVersion sm object_type =
     (case um_find (sm_schemas sm) object_type of
        None \<Rightarrow> None
      | Some versions \<Rightarrow>
          (let latest = latest_version (um_entries versions)
           in if latest > 0 then Some latest else None))"

subsection \<open>Well-formedness: every schema is filed under its own type and version\<close>

definition SchemaManager_wf :: "SchemaManager \<Rightarrow> bool" where
  "SchemaManager_wf sm \<longleftrightarrow> um_wf (sm_schemas sm) \<and>
     um.every (\<lambda>t versions. um_wf versions \<and>
        um.every (\<lambda>v s. sc_version s = v \<and> sc_object_type s = t) versions) (sm_schemas sm)"

lemma SchemaManager_wf_new: "SchemaManager_wf SchemaManager_new"
  by (simp add: SchemaManager_wf_def SchemaManager_new_def um.every_empty)

lemma SchemaManager_wf_at:
  "SchemaManager_wf sm \<Longrightarrow> um_wf (um_at um_empty (sm_schemas sm) t) \<and>
     um.every (\<lambda>v s. sc_version s = v \<and> sc_object_type s = t) (um_at um_empty (sm_schemas sm) t)"
  by (auto simp: SchemaManager_wf_def um_at_def um.every_empty dest: um.every_find split: option.split)

lemma SchemaManager_wf_Register:
  assumes "SchemaManager_wf sm"
  shows "SchemaManager_wf (SchemaManager_RegisterSchema s sm)"
  using assms SchemaManager_wf_at [OF assms, of "sc_object_type s"]
  by (auto simp: SchemaManager_wf_def SchemaManager_RegisterSchema_def intro!: um.every_assign)

lemma GetSchema_Register:
  "SchemaManager_GetSchema (SchemaManager_RegisterSchema s sm) t v =
     (if t = sc_object_type s \<and> v = sc_version s then Some s else SchemaManager_GetSchema sm t v)"
  by (auto simp: SchemaManager_GetSchema_def SchemaManager_RegisterSchema_def um_at_def
      split: option.splits)

lemma GetSchema_filed:
  "SchemaManager_wf sm \<Longrightarrow> SchemaManager_GetSchema sm t v = Some s \<Longrightarrow>
     sc_object_type s = t \<and> sc_version s = v"
  by (auto simp: SchemaManager_wf_def SchemaManager_GetSchema_def split: option.splits
      dest!: um.every_find)

subsection \<open>The latest version is the greatest registered one\<close>

lemma latest_version_Max: "latest_version es = Max (insert 0 (fst ` set es))"
proof -
  have "fold (\<lambda>(version, schema) latest. max version latest) es acc = Max (insert acc (fst ` set es))"
    for acc :: u32
  proof (induction es arbitrary: acc)
    case (Cons e es)
    have "Max (insert (max (fst e) acc) (fst ` set es)) = Max (insert acc (fst ` set (e # es)))"
      by (cases "fst ` set es = {}") (auto simp: ac_simps)
    then show ?case by (cases e) (simp add: Cons.IH del: Max_insert)
  qed simp
  then show ?thesis by (simp add: latest_version_def)
qed

lemma GetLatestVersion_Some_iff:
  assumes "SchemaManager_wf sm"
  shows "SchemaManager_GetLatestVersion sm t = Some v \<longleftrightarrow>
     0 < v \<and> SchemaManager_GetSchema sm t v \<noteq> None \<and>
     (\<forall>v'. SchemaManager_GetSchema sm t v' \<noteq> None \<longrightarrow> v' \<le> v)"
proof (cases "um_find (sm_schemas sm) t")
  case None
  then show ?thesis by (simp add: SchemaManager_GetLatestVersion_def SchemaManager_GetSchema_def)
next
  case (Some vs)
  have wf: "um_wf vs"
    using assms Some by (auto simp: SchemaManager_wf_def dest: um.every_find)
  have get: "SchemaManager_GetSchema sm t v' \<noteq> None \<longleftrightarrow> v' \<in> fst ` set (um_entries vs)" for v'
    using um.keys_eq_dom [OF wf] Some by (auto simp: SchemaManager_GetSchema_def)
  have max: "latest_version (um_entries vs) = Max (insert 0 (fst ` set (um_entries vs)))"
    by (rule latest_version_Max)
  have "SchemaManager_GetLatestVersion sm t = Some v \<longleftrightarrow>
          0 < v \<and> Max (insert 0 (fst ` set (um_entries vs))) = v"
    using Some max by (auto simp: SchemaManager_GetLatestVersion_def)
  also have "\<dots> \<longleftrightarrow> 0 < v \<and> v \<in> fst ` set (um_entries vs) \<and> (\<forall>v' \<in> fst ` set (um_entries vs). v' \<le> v)"
    by (subst Max_eq_iff) auto
  finally show ?thesis using get by blast
qed

text \<open>So it does not depend on the order in which the hash table is walked.\<close>

lemma latest_version_order: "set es = set es' \<Longrightarrow> latest_version es = latest_version es'"
  by (simp add: latest_version_Max)

lemma GetLatestVersion_None_iff:
  assumes "SchemaManager_wf sm"
  shows "SchemaManager_GetLatestVersion sm t = None \<longleftrightarrow>
     (\<forall>v'. SchemaManager_GetSchema sm t v' \<noteq> None \<longrightarrow> v' = 0)"
proof (cases "um_find (sm_schemas sm) t")
  case None
  then show ?thesis by (simp add: SchemaManager_GetLatestVersion_def SchemaManager_GetSchema_def)
next
  case (Some vs)
  have wf: "um_wf vs"
    using assms Some by (auto simp: SchemaManager_wf_def dest: um.every_find)
  have get: "SchemaManager_GetSchema sm t v' \<noteq> None \<longleftrightarrow> v' \<in> fst ` set (um_entries vs)" for v'
    using um.keys_eq_dom [OF wf] Some by (auto simp: SchemaManager_GetSchema_def)
  have "SchemaManager_GetLatestVersion sm t = None \<longleftrightarrow> Max (insert 0 (fst ` set (um_entries vs))) = 0"
    using Some by (simp add: SchemaManager_GetLatestVersion_def latest_version_Max word_gt_0)
  also have "\<dots> \<longleftrightarrow> (\<forall>v' \<in> fst ` set (um_entries vs). v' = 0)"
    by (subst Max_eq_iff) auto
  finally show ?thesis using get by blast
qed

subsection \<open>Refinement: the manager against the history of registrations\<close>

definition register_all :: "Schema list \<Rightarrow> SchemaManager" where
  "register_all ss = fold SchemaManager_RegisterSchema ss SchemaManager_new"

lemma register_all_snoc: "register_all (ss @ [s]) = SchemaManager_RegisterSchema s (register_all ss)"
  by (simp add: register_all_def)

lemma register_all_wf: "SchemaManager_wf (register_all ss)"
  by (induction ss rule: rev_induct)
    (auto simp: register_all_snoc SchemaManager_wf_Register,
     simp add: register_all_def SchemaManager_wf_new)

lemma GetSchema_register_all:
  "SchemaManager_GetSchema (register_all ss) t v =
     List.find (\<lambda>s. sc_object_type s = t \<and> sc_version s = v) (rev ss)"
proof (induction ss rule: rev_induct)
  case Nil
  then show ?case
    by (simp add: register_all_def SchemaManager_new_def SchemaManager_GetSchema_def)
next
  case (snoc s ss)
  then show ?case by (auto simp: register_all_snoc GetSchema_Register)
qed

lemma GetSchema_register_all_known:
  "SchemaManager_GetSchema (register_all ss) t v \<noteq> None \<longleftrightarrow>
     v \<in> sc_version ` {s \<in> set ss. sc_object_type s = t}"
  unfolding GetSchema_register_all by (auto simp: find_None_iff image_iff)

lemma GetLatestVersion_register_all:
  "SchemaManager_GetLatestVersion (register_all ss) t =
     (let vs = sc_version ` {s \<in> set ss. sc_object_type s = t \<and> sc_version s \<noteq> 0}
      in if vs = {} then None else Some (Max vs))"
proof -
  define vs where "vs = sc_version ` {s \<in> set ss. sc_object_type s = t \<and> sc_version s \<noteq> 0}"
  have known: "SchemaManager_GetSchema (register_all ss) t v \<noteq> None \<longleftrightarrow> v \<in> vs \<or> v = 0 \<and> v \<in> sc_version ` {s \<in> set ss. sc_object_type s = t}" for v
    unfolding GetSchema_register_all_known vs_def by auto
  have fin: "finite vs" by (simp add: vs_def)
  show ?thesis
  proof (cases "vs = {}")
    case True
    then have "SchemaManager_GetLatestVersion (register_all ss) t = None"
      using GetLatestVersion_None_iff [OF register_all_wf, of ss t] known by blast
    then show ?thesis using True by (simp add: vs_def)
  next
    case False
    have "Max vs \<in> vs" using fin False by simp
    moreover have "0 \<notin> vs" by (auto simp: vs_def)
    ultimately have "0 < Max vs" by (metis word_gt_0)
    moreover have "\<forall>v'. SchemaManager_GetSchema (register_all ss) t v' \<noteq> None \<longrightarrow> v' \<le> Max vs"
      using known fin by auto
    ultimately have "SchemaManager_GetLatestVersion (register_all ss) t = Some (Max vs)"
      using GetLatestVersion_Some_iff [OF register_all_wf, of ss t "Max vs"] known \<open>Max vs \<in> vs\<close> by blast
    then show ?thesis using False by (simp add: vs_def Let_def)
  qed
qed

section \<open>Properties\<close>

text \<open>C28: Schema manager. After any sequence of registrations \<open>GetSchema\<close> finds the last schema that was
  registered with this object type and version, and nothing if there is none; \<open>GetLatestVersion\<close> is the
  greatest version other than zero registered for the object type: a schema of version zero can be
  looked up but is invisible to it.\<close>

theorem schema_lookup_history:
  "SchemaManager_GetSchema (register_all ss) t v =
     List.find (\<lambda>s. sc_object_type s = t \<and> sc_version s = v) (rev ss) \<and>
   SchemaManager_GetLatestVersion (register_all ss) t =
     (let vs = sc_version ` {s \<in> set ss. sc_object_type s = t \<and> sc_version s \<noteq> 0}
      in if vs = {} then None else Some (Max vs))"
  by (rule conjI [OF GetSchema_register_all GetLatestVersion_register_all])

end
