(* ===== verification/Component_Storage.thy ===== *)
theory Component_Storage
  imports Schema_Manager
begin

section \<open>The component storage\<close>

text \<open>
  \<open>core/component_storage.h\<close> and \<open>core/component_storage.cpp\<close>: the bytes of every component of
  every object. This theory models each method as one operation on the store, with the reading
  callback as a function of the pointer it receives (\<open>None\<close> for null). The locking inside the
  methods is the subject of the theory \<open>Storage_Locking\<close>.

  The locale \<open>component_store\<close> is the contract the clients (object views, plugins, the registry)
  rely on; its interpretation at the end shows that the storage meets it.
\<close>

type_synonym ComponentType = u32
type_synonym ComponentData = bytes

record ObjectComponents =
  oc_components :: "(ComponentType, ComponentData) umap"

record ComponentStorage =
  cs_store :: "(u64, ObjectComponents) umap"

definition ObjectComponents_new :: ObjectComponents where
  "ObjectComponents_new = \<lparr>oc_components = um_empty\<rparr>"

definition ComponentStorage_new :: ComponentStorage where
  "ComponentStorage_new = \<lparr>cs_store = um_empty\<rparr>"

subsection \<open>Operations\<close>

definition ComponentStorage_Read ::
  "ComponentStorage \<Rightarrow> u64 \<Rightarrow> ComponentType \<Rightarrow> (ComponentData option \<Rightarrow> 'r) \<Rightarrow> 'r" where
  "ComponentStorage_Read cs object_id type callback =
     (case um_find (cs_store cs) object_id of
        None \<Rightarrow> callback None
      | Some obj \<Rightarrow> callback (um_find (oc_components obj) type))"

text \<open>
  The first half of \<open>Write\<close> finds the object's entry or creates an empty one; the second half sets
  the component in it.
\<close>

definition ComponentStorage_ensure :: "u64 \<Rightarrow> ComponentStorage \<Rightarrow> ComponentStorage" where
  "ComponentStorage_ensure object_id cs =
     (case um_find (cs_store cs) object_id of
        None \<Rightarrow> cs\<lparr>cs_store := um_assign object_id ObjectComponents_new (cs_store cs)\<rparr>
      | Some _ \<Rightarrow> cs)"

definition ComponentStorage_Write ::
  "u64 \<Rightarrow> ComponentType \<Rightarrow> ComponentData \<Rightarrow> ComponentStorage \<Rightarrow> ComponentStorage" where
  "ComponentStorage_Write object_id type data cs =
     (let cs' = ComponentStorage_ensure object_id cs;
          obj = um_at ObjectComponents_new (cs_store cs') object_id
      in cs'\<lparr>cs_store := um_assign object_id
               (obj\<lparr>oc_components := um_assign type data (oc_components obj)\<rparr>) (cs_store cs')\<rparr>)"

definition ComponentStorage_WriteChecked ::
  "u64 \<Rightarrow> ComponentType \<Rightarrow> Schema \<Rightarrow> ComponentData \<Rightarrow> ComponentStorage \<Rightarrow> bool \<times> ComponentStorage" where
  "ComponentStorage_WriteChecked object_id type schema data cs =
     (if length data \<noteq> unat (sc_total_size schema) then (False, cs)
      else (True, ComponentStorage_Write object_id type data cs))"

definition ComponentStorage_Remove ::
  "u64 \<Rightarrow> ComponentType \<Rightarrow> ComponentStorage \<Rightarrow> bool \<times> ComponentStorage" where
  "ComponentStorage_Remove object_id type cs =
     (case um_find (cs_store cs) object_id of
        None \<Rightarrow> (False, cs)
      | Some obj \<Rightarrow>
          (um_find (oc_components obj) type \<noteq> None,
           cs\<lparr>cs_store := um_assign object_id
                (obj\<lparr>oc_components := um_erase type (oc_components obj)\<rparr>) (cs_store cs)\<rparr>))"

definition ComponentStorage_RemoveAll :: "u64 \<Rightarrow> ComponentStorage \<Rightarrow> ComponentStorage" where
  "ComponentStorage_RemoveAll object_id cs =
     (case um_find (cs_store cs) object_id of
        None \<Rightarrow> cs
      | Some _ \<Rightarrow> cs\<lparr>cs_store := um_erase object_id (cs_store cs)\<rparr>)"

subsection \<open>The contract of the storage\<close>

text \<open>What a reader sees of one component.\<close>

definition component :: "ComponentStorage \<Rightarrow> u64 \<Rightarrow> ComponentType \<Rightarrow> ComponentData option" where
  "component cs object_id type = ComponentStorage_Read cs object_id type (\<lambda>data. data)"

lemma Read_callback: "ComponentStorage_Read cs i t callback = callback (component cs i t)"
  by (simp add: component_def ComponentStorage_Read_def split: option.split)

locale component_store =
  fixes read :: "'s \<Rightarrow> u64 \<Rightarrow> ComponentType \<Rightarrow> ComponentData option"
    and put :: "u64 \<Rightarrow> ComponentType \<Rightarrow> ComponentData \<Rightarrow> 's \<Rightarrow> 's"
    and remove :: "u64 \<Rightarrow> ComponentType \<Rightarrow> 's \<Rightarrow> bool \<times> 's"
    and remove_all :: "u64 \<Rightarrow> 's \<Rightarrow> 's"
  assumes read_write: "read (put i t d s) i' t' = (if i' = i \<and> t' = t then Some d else read s i' t')"
    and read_remove: "read (snd (remove i t s)) i' t' = (if i' = i \<and> t' = t then None else read s i' t')"
    and remove_found: "fst (remove i t s) \<longleftrightarrow> read s i t \<noteq> None"
    and read_remove_all: "read (remove_all i s) i' t' = (if i' = i then None else read s i' t')"
begin

text \<open>Two states agree on all objects but \<open>i\<close>.\<close>

definition same_but :: "u64 \<Rightarrow> 's \<Rightarrow> 's \<Rightarrow> bool" where
  "same_but i s s' \<longleftrightarrow> (\<forall>i' t. i' \<noteq> i \<longrightarrow> read s' i' t = read s i' t)"

lemma same_but_refl: "same_but i s s"
  by (simp add: same_but_def)

lemma same_but_trans: "same_but i s s' \<Longrightarrow> same_but i s' s'' \<Longrightarrow> same_but i s s''"
  by (simp add: same_but_def)

lemma write_same_but: "same_but i s (put i t d s)"
  by (simp add: same_but_def read_write)

lemma remove_same_but: "same_but i s (snd (remove i t s))"
  by (simp add: same_but_def read_remove)

lemma remove_all_same_but: "same_but i s (remove_all i s)"
  by (simp add: same_but_def read_remove_all)

lemma last_write_wins: "read (put i t d' (put i t d s)) = read (put i t d' s)"
  by (intro ext) (simp add: read_write)

lemma writes_commute:
  "(i, t) \<noteq> (i', t') \<Longrightarrow> read (put i t d (put i' t' d' s)) = read (put i' t' d' (put i t d s))"
  by (intro ext) (auto simp: read_write)

lemma write_after_remove_all: "read (put i t d (remove_all i s)) i = [t \<mapsto> d]"
  by (rule ext) (simp add: read_write read_remove_all)

end

lemma component_ensure [simp]: "component (ComponentStorage_ensure i cs) = component cs"
  by (intro ext) (auto simp: component_def ComponentStorage_Read_def ComponentStorage_ensure_def
      ObjectComponents_new_def split: option.split)

lemma component_Write:
  "component (ComponentStorage_Write i t d cs) i' t' =
     (if i' = i \<and> t' = t then Some d else component cs i' t')"
proof (cases "um_find (cs_store cs) i")
  case None
  then show ?thesis
    by (auto simp: component_def ComponentStorage_Read_def ComponentStorage_Write_def
        ComponentStorage_ensure_def ObjectComponents_new_def um_at_def Let_def)
next
  case (Some obj)
  then show ?thesis
    by (auto simp: component_def ComponentStorage_Read_def ComponentStorage_Write_def
        ComponentStorage_ensure_def um_at_def Let_def)
qed

lemma component_Remove:
  "component (snd (ComponentStorage_Remove i t cs)) i' t' =
     (if i' = i \<and> t' = t then None else component cs i' t')"
  by (auto simp: component_def ComponentStorage_Read_def ComponentStorage_Remove_def
      split: option.split)

lemma Remove_found: "fst (ComponentStorage_Remove i t cs) \<longleftrightarrow> component cs i t \<noteq> None"
  by (auto simp: component_def ComponentStorage_Read_def ComponentStorage_Remove_def
      split: option.split)

lemma component_RemoveAll:
  "component (ComponentStorage_RemoveAll i cs) i' t' = (if i' = i then None else component cs i' t')"
  by (auto simp: component_def ComponentStorage_Read_def ComponentStorage_RemoveAll_def
      split: option.split)

interpretation cs: component_store component ComponentStorage_Write ComponentStorage_Remove
    ComponentStorage_RemoveAll
  by unfold_locales (auto simp: component_Write component_Remove Remove_found component_RemoveAll)

lemma component_new [simp]: "component ComponentStorage_new i t = None"
  by (simp add: component_def ComponentStorage_Read_def ComponentStorage_new_def)

subsection \<open>Refinement: a run of operations against a flat map\<close>

text \<open>
  The specification of the storage is a finite map from (object, component type) to bytes. One
  operation of a run is one of the four mutators, with what it returns (\<open>True\<close> for the two void
  methods).
\<close>

datatype storage_op =
    OpWrite u64 ComponentType ComponentData
  | OpWriteChecked u64 ComponentType Schema ComponentData
  | OpRemove u64 ComponentType
  | OpRemoveAll u64

fun storage_exec :: "storage_op \<Rightarrow> ComponentStorage \<Rightarrow> bool \<times> ComponentStorage" where
  "storage_exec (OpWrite i t d) cs = (True, ComponentStorage_Write i t d cs)"
| "storage_exec (OpWriteChecked i t sc d) cs = ComponentStorage_WriteChecked i t sc d cs"
| "storage_exec (OpRemove i t) cs = ComponentStorage_Remove i t cs"
| "storage_exec (OpRemoveAll i) cs = (True, ComponentStorage_RemoveAll i cs)"

fun storage_run :: "storage_op list \<Rightarrow> ComponentStorage \<Rightarrow> bool list \<times> ComponentStorage" where
  "storage_run [] cs = ([], cs)"
| "storage_run (x # xs) cs =
     (let (r, cs') = storage_exec x cs; (rs, cs'') = storage_run xs cs' in (r # rs, cs''))"

type_synonym flat_store = "u64 \<times> ComponentType \<Rightarrow> ComponentData option"

fun flat_op :: "storage_op \<Rightarrow> flat_store \<Rightarrow> bool \<times> flat_store" where
  "flat_op (OpWrite i t d) m = (True, m((i, t) \<mapsto> d))"
| "flat_op (OpWriteChecked i t sc d) m =
     (if length d = unat (sc_total_size sc) then (True, m((i, t) \<mapsto> d)) else (False, m))"
| "flat_op (OpRemove i t) m = (m (i, t) \<noteq> None, m((i, t) := None))"
| "flat_op (OpRemoveAll i) m = (True, \<lambda>(i', t). if i' = i then None else m (i', t))"

fun flat_run :: "storage_op list \<Rightarrow> flat_store \<Rightarrow> bool list \<times> flat_store" where
  "flat_run [] m = ([], m)"
| "flat_run (x # xs) m = (let (r, m') = flat_op x m; (rs, m'') = flat_run xs m' in (r # rs, m''))"

definition flat :: "ComponentStorage \<Rightarrow> flat_store" where
  "flat cs = (\<lambda>(i, t). component cs i t)"

lemma storage_exec_flat: "flat_op x (flat cs) = map_prod id flat (storage_exec x cs)"
proof (cases x)
  case (OpRemove i t)
  then show ?thesis
    by (cases "ComponentStorage_Remove i t cs")
      (use Remove_found [of i t cs] component_Remove [of i t cs] in \<open>auto simp: flat_def fun_eq_iff\<close>)
qed (auto simp: flat_def fun_eq_iff component_Write component_RemoveAll ComponentStorage_WriteChecked_def)

lemma storage_run_flat: "flat_run xs (flat cs) = map_prod id flat (storage_run xs cs)"
proof (induction xs arbitrary: cs)
  case (Cons x xs)
  obtain r cs' where op: "storage_exec x cs = (r, cs')" by fastforce
  obtain rs cs'' where run: "storage_run xs cs' = (rs, cs'')" by fastforce
  show ?case
    using storage_exec_flat [of x cs] Cons.IH [of cs'] op run by simp
qed simp

lemma flat_new: "flat ComponentStorage_new = (\<lambda>_. None)"
  by (auto simp: flat_def fun_eq_iff)

section \<open>Properties\<close>

text \<open>C26: Component storage, sequentially. Every run of \<open>Write\<close>, checked \<open>Write\<close>, \<open>Remove\<close> and \<open>RemoveAll\<close>
  from the empty storage returns what the same operations return on one flat map from (object,
  component type) to bytes, and ends with the same contents.\<close>

theorem storage_refines_flat_map:
  "flat_run xs (\<lambda>_. None) = map_prod (\<lambda>r. r) flat (storage_run xs ComponentStorage_new)"
  using storage_run_flat [of xs ComponentStorage_new] by (simp add: flat_new id_def)

end
