(* ===== verification/Game_Object.thy ===== *)
theory Game_Object
  imports Component_Storage
begin

section \<open>Object views\<close>

text \<open>
  \<open>core/object.h\<close> and \<open>core/object.cpp\<close>: the header that identifies an object, and the view that
  pairs a header with a pointer to the component storage. The storage is a singleton, so the
  pointer is either null or the address of that one storage, which every method here takes as an
  argument and returns updated.
\<close>

record ObjectHeader =
  oh_schema_version :: u32
  oh_object_type :: u32
  oh_object_id :: u64

datatype storage_ptr = nullptr | the_storage

record GameObject =
  go_header :: ObjectHeader
  go_storage :: storage_ptr

definition GameObject_ReadComponent ::
  "GameObject \<Rightarrow> ComponentStorage \<Rightarrow> ComponentType \<Rightarrow> (ComponentData option \<Rightarrow> 'r) \<Rightarrow> 'r" where
  "GameObject_ReadComponent obj cs type callback =
     (if go_storage obj = nullptr then callback None
      else ComponentStorage_Read cs (oh_object_id (go_header obj)) type callback)"

definition GameObject_WriteComponent ::
  "GameObject \<Rightarrow> ComponentType \<Rightarrow> ComponentData \<Rightarrow> ComponentStorage \<Rightarrow> ComponentStorage" where
  "GameObject_WriteComponent obj type data cs =
     (if go_storage obj \<noteq> nullptr
      then ComponentStorage_Write (oh_object_id (go_header obj)) type data cs else cs)"

definition GameObject_WriteComponentChecked ::
  "GameObject \<Rightarrow> ComponentType \<Rightarrow> Schema \<Rightarrow> ComponentData \<Rightarrow> ComponentStorage \<Rightarrow> bool \<times> ComponentStorage" where
  "GameObject_WriteComponentChecked obj type schema data cs =
     (if go_storage obj = nullptr then (False, cs)
      else ComponentStorage_WriteChecked (oh_object_id (go_header obj)) type schema data cs)"

definition GameObject_RemoveComponent ::
  "GameObject \<Rightarrow> ComponentType \<Rightarrow> ComponentStorage \<Rightarrow> bool \<times> ComponentStorage" where
  "GameObject_RemoveComponent obj type cs =
     (if go_storage obj \<noteq> nullptr
      then ComponentStorage_Remove (oh_object_id (go_header obj)) type cs else (False, cs))"

definition g_delta_magic :: u32 where
  "g_delta_magic = 0x4D534157"

definition GameObject_ApplyOutputDelta ::
  "GameObject \<Rightarrow> bytes \<Rightarrow> ComponentStorage \<Rightarrow> bool \<times> ComponentStorage" where
  "GameObject_ApplyOutputDelta obj output cs =
     (if length output < 4 * 2 then (False, cs)
      else let magic = load_u32 output;
               type = load_u32 (drop 4 output)
           in if magic \<noteq> g_delta_magic then (False, cs)
              else let data = drop (4 * 2) output
                   in (True, GameObject_WriteComponent obj type data cs))"

subsection \<open>A view touches its own object only\<close>

lemma GameObject_Write_same_but:
  "cs.same_but (oh_object_id (go_header obj)) cs (GameObject_WriteComponent obj t d cs)"
  by (simp add: GameObject_WriteComponent_def cs.same_but_refl cs.write_same_but)

lemma GameObject_WriteChecked_same_but:
  "cs.same_but (oh_object_id (go_header obj)) cs (snd (GameObject_WriteComponentChecked obj t sc d cs))"
  by (simp add: GameObject_WriteComponentChecked_def ComponentStorage_WriteChecked_def
      cs.same_but_refl cs.write_same_but)

lemma GameObject_Remove_same_but:
  "cs.same_but (oh_object_id (go_header obj)) cs (snd (GameObject_RemoveComponent obj t cs))"
  by (simp add: GameObject_RemoveComponent_def cs.same_but_refl cs.remove_same_but)

lemma GameObject_Apply_same_but:
  "cs.same_but (oh_object_id (go_header obj)) cs (snd (GameObject_ApplyOutputDelta obj out cs))"
  by (simp add: GameObject_ApplyOutputDelta_def Let_def cs.same_but_refl GameObject_Write_same_but)

lemma GameObject_Write_read:
  "go_storage obj = the_storage \<Longrightarrow>
     GameObject_ReadComponent obj (GameObject_WriteComponent obj t d cs) t' cb =
       cb (if t' = t then Some d else component cs (oh_object_id (go_header obj)) t')"
  by (simp add: GameObject_ReadComponent_def GameObject_WriteComponent_def Read_callback component_Write)

subsection \<open>The output-delta format\<close>

text \<open>The encoder a plugin has to implement: magic, component type, component bytes.\<close>

definition encode_delta :: "ComponentType \<Rightarrow> ComponentData \<Rightarrow> bytes" where
  "encode_delta type data = store_u32 g_delta_magic @ store_u32 type @ data"

lemma g_delta_magic_bytes: "store_u32 g_delta_magic = map (of_char :: char \<Rightarrow> u8) ''WASM''"
  by (simp add: store_u32_def g_delta_magic_def le_encode_four of_char_of)

lemma Apply_encoded:
  "GameObject_ApplyOutputDelta obj (encode_delta t d) cs = (True, GameObject_WriteComponent obj t d cs)"
  by (simp add: GameObject_ApplyOutputDelta_def encode_delta_def Let_def)

lemma encode_delta_iff:
  "out = encode_delta t d \<longleftrightarrow>
     8 \<le> length out \<and> load_u32 out = g_delta_magic \<and> load_u32 (drop 4 out) = t \<and> drop 8 out = d"
proof
  assume r: "8 \<le> length out \<and> load_u32 out = g_delta_magic \<and> load_u32 (drop 4 out) = t \<and> drop 8 out = d"
  then have m: "store_u32 g_delta_magic = take 4 out"
    using store_load_u32 [of out] by simp
  have t: "store_u32 t = take 4 (drop 4 out)"
    using r store_load_u32 [of "drop 4 out"] by fastforce
  have "take 4 out @ take 4 (drop 4 out) @ drop 8 out = out"
    using append_take_drop_id [of 4 "drop 4 out"] by (simp add: drop_drop)
  then show "out = encode_delta t d"
    using r m t by (simp add: encode_delta_def)
qed (simp add: encode_delta_def)

lemma Apply_accepts_iff:
  "fst (GameObject_ApplyOutputDelta obj out cs) \<longleftrightarrow> (\<exists>t d. out = encode_delta t d)"
  by (auto simp: encode_delta_iff GameObject_ApplyOutputDelta_def Let_def)

lemma Apply_rejects:
  "\<not> fst (GameObject_ApplyOutputDelta obj out cs) \<Longrightarrow> snd (GameObject_ApplyOutputDelta obj out cs) = cs"
  by (simp add: GameObject_ApplyOutputDelta_def Let_def split: if_splits)

lemma Apply_cases:
  "GameObject_ApplyOutputDelta obj out cs =
     (if \<exists>t d. out = encode_delta t d
      then (True, GameObject_WriteComponent obj (load_u32 (drop 4 out)) (drop 8 out) cs) else (False, cs))"
proof (cases "\<exists>t d. out = encode_delta t d")
  case True
  then obtain t d where out: "out = encode_delta t d" by blast
  then have "load_u32 (drop 4 out) = t" "drop 8 out = d" using encode_delta_iff by blast+
  then show ?thesis using True Apply_encoded [of obj t d cs] out by simp
next
  case False
  then have "\<not> fst (GameObject_ApplyOutputDelta obj out cs)" using Apply_accepts_iff by blast
  then show ?thesis using False Apply_rejects [of obj out cs] by (cases "GameObject_ApplyOutputDelta obj out cs") auto
qed

section \<open>Properties\<close>

text \<open>C27: Output deltas. \<open>ApplyOutputDelta\<close> accepts exactly the byte strings that encode a component write
  (magic, type, bytes), performs that write through the view, and rejects everything else without
  an effect; encoding and applying is writing.\<close>

theorem output_delta_format:
  "GameObject_ApplyOutputDelta obj out cs =
     (if \<exists>t d. out = encode_delta t d
      then (True, GameObject_WriteComponent obj (load_u32 (drop 4 out)) (drop 8 out) cs) else (False, cs)) \<and>
   GameObject_ApplyOutputDelta obj (encode_delta t d) cs = (True, GameObject_WriteComponent obj t d cs)"
  using Apply_cases Apply_encoded by blast

end
