(* ===== verification/Migration_Engine.thy ===== *)
theory Migration_Engine
  imports Game_Object
begin

section \<open>The migration engine\<close>

text \<open>
  \<open>core/migration_engine.h\<close> and \<open>core/migration_engine.cpp\<close>. A migration function receives the
  view by reference and may change it, and it changes components through the view, so it is a
  function from the view and the storage to its result, the view and the storage afterwards. The
  functions themselves are registered by code outside the repository: they are values of the
  engine's table.
\<close>

type_synonym MigrationFunc =
  "GameObject \<Rightarrow> u32 \<Rightarrow> u32 \<Rightarrow> ComponentStorage \<Rightarrow> bool \<times> GameObject \<times> ComponentStorage"

record MigrationEngine =
  me_migrations :: "(u64, MigrationFunc) umap"

definition MigrationEngine_new :: MigrationEngine where
  "MigrationEngine_new = \<lparr>me_migrations = um_empty\<rparr>"

definition MigrationEngine_MakeKey :: "u32 \<Rightarrow> u32 \<Rightarrow> u64" where
  "MigrationEngine_MakeKey from to = or (push_bit 32 (ucast from)) (ucast to)"

definition MigrationEngine_Register ::
  "u32 \<Rightarrow> u32 \<Rightarrow> MigrationFunc \<Rightarrow> MigrationEngine \<Rightarrow> MigrationEngine" where
  "MigrationEngine_Register from to func me =
     me\<lparr>me_migrations := um_assign (MigrationEngine_MakeKey from to) func (me_migrations me)\<rparr>"

definition MigrationEngine_MigrateStep ::
  "MigrationEngine \<Rightarrow> GameObject \<Rightarrow> u32 \<Rightarrow> u32 \<Rightarrow> ComponentStorage \<Rightarrow>
     bool \<times> GameObject \<times> ComponentStorage" where
  "MigrationEngine_MigrateStep me obj from to cs =
     (case um_find (me_migrations me) (MigrationEngine_MakeKey from to) of
        None \<Rightarrow> (False, obj, cs)
      | Some func \<Rightarrow> func obj from to cs)"

text \<open>\<open>obj.header.schema_version = v\<close>.\<close>

definition set_version :: "u32 \<Rightarrow> GameObject \<Rightarrow> GameObject" where
  "set_version v obj = obj\<lparr>go_header := (go_header obj)\<lparr>oh_schema_version := v\<rparr>\<rparr>"

definition next_version :: "u32 \<Rightarrow> u32 \<Rightarrow> u32" where
  "next_version current target = (if current < target then current + 1 else current - 1)"

subsection \<open>The loop of Migrate, one version at a time\<close>

text \<open>How far two versions are apart: the bound of the loop.\<close>

definition version_distance :: "u32 \<Rightarrow> u32 \<Rightarrow> nat" where
  "version_distance a b = (unat a - unat b) + (unat b - unat a)"

lemma unat_next_up: "(v :: u32) < w \<Longrightarrow> unat (v + 1) = Suc (unat v)"
  using unat_lt [of w] by (simp add: word_less_nat_alt unat_word_ariths(1))

lemma unat_next_down: "(v :: u32) > w \<Longrightarrow> unat (v - 1) = unat v - 1"
  by (metis word_gt_0 word_not_simps(1) unat_minus_one)

lemma unat_next_version:
  "current \<noteq> target \<Longrightarrow> unat (next_version current target) =
     (if unat current < unat target then Suc (unat current) else unat current - 1)"
  by (auto simp: next_version_def unat_next_up unat_next_down word_less_nat_alt linorder_neq_iff)

lemma version_distance_next:
  assumes "current \<noteq> target"
  shows "version_distance current target = Suc (version_distance (next_version current target) target)"
proof -
  have "unat current \<noteq> unat target" using assms by (simp add: word_unat_eq_iff)
  then show ?thesis
    by (auto simp: version_distance_def unat_next_version [OF assms] split: if_splits)
qed

function Migrate_loop ::
  "MigrationEngine \<Rightarrow> GameObject \<Rightarrow> u32 \<Rightarrow> u32 \<Rightarrow> ComponentStorage \<Rightarrow>
     bool \<times> GameObject \<times> ComponentStorage" where
  "Migrate_loop me obj current target cs =
     (if current \<noteq> target then
        let next = next_version current target in
        (case MigrationEngine_MigrateStep me obj current next cs of
           (ok, obj', cs') \<Rightarrow>
             if \<not> ok then (False, obj', cs')
             else Migrate_loop me (set_version next obj') next target cs')
      else (True, obj, cs))"
  by pat_completeness auto
termination
  by (relation "measure (\<lambda>(me, obj, current, target, cs). version_distance current target)")
    (auto simp: version_distance_next)

declare Migrate_loop.simps [simp del]

definition MigrationEngine_Migrate ::
  "MigrationEngine \<Rightarrow> GameObject \<Rightarrow> u32 \<Rightarrow> ComponentStorage \<Rightarrow>
     bool \<times> GameObject \<times> ComponentStorage" where
  "MigrationEngine_Migrate me obj target_version cs =
     Migrate_loop me obj (oh_schema_version (go_header obj)) target_version cs"

subsection \<open>Keys identify version pairs\<close>

lemma MakeKey_unat: "unat (MigrationEngine_MakeKey from to) = unat from * 2 ^ 32 + unat to"
proof -
  have f: "unat (ucast from :: u64) = unat from" and t: "unat (ucast to :: u64) = unat to"
    using unat_lt [of "from"] unat_lt [of to]
    by (auto simp: unsigned_ucast_eq intro!: take_bit_nat_eq_self)
  have "MigrationEngine_MakeKey from to = push_bit 32 (ucast from) + ucast to"
    unfolding MigrationEngine_MakeKey_def
    by (rule disjunctive_add [symmetric]) (auto simp: bit_simps dest: bit_imp_le_length)
  also have "unat \<dots> = unat from * 2 ^ 32 + unat to"
    using unat_lt [of "from"] unat_lt [of to]
    by (simp add: unat_word_ariths push_bit_eq_mult f t)
  finally show ?thesis .
qed

lemma MakeKey_inject: "MigrationEngine_MakeKey a b = MigrationEngine_MakeKey c d \<longleftrightarrow> a = c \<and> b = d"
proof
  assume "MigrationEngine_MakeKey a b = MigrationEngine_MakeKey c d"
  then have eq: "unat b + unat a * 2 ^ 32 = unat d + unat c * 2 ^ 32"
    using MakeKey_unat by (metis add.commute)
  have "(unat b + unat a * 2 ^ 32) mod 2 ^ 32 = unat b" "(unat d + unat c * 2 ^ 32) mod 2 ^ 32 = unat d"
    using unat_lt [of b] unat_lt [of d] by simp_all
  then have "unat b = unat d" using eq by metis
  then show "a = c \<and> b = d" using eq by (simp add: word_unat_eq_iff)
qed simp

lemma MigrateStep_Register:
  "MigrationEngine_MigrateStep (MigrationEngine_Register from to func me) obj a b cs =
     (if a = from \<and> b = to then func obj a b cs else MigrationEngine_MigrateStep me obj a b cs)"
  by (simp add: MigrationEngine_MigrateStep_def MigrationEngine_Register_def MakeKey_inject)

lemma MigrateStep_new [simp]: "MigrationEngine_MigrateStep MigrationEngine_new obj a b cs = (False, obj, cs)"
  by (simp add: MigrationEngine_MigrateStep_def MigrationEngine_new_def)


subsection \<open>Reference: a migration is a walk along the version path\<close>

text \<open>The version pairs between two versions, upwards or downwards.\<close>

definition version_path :: "u32 \<Rightarrow> u32 \<Rightarrow> (u32 \<times> u32) list" where
  "version_path a b =
     (if unat a \<le> unat b
      then map (\<lambda>n. (word_of_nat n, word_of_nat (Suc n))) [unat a ..< unat b]
      else map (\<lambda>n. (word_of_nat (Suc n), word_of_nat n)) (rev [unat b ..< unat a]))"

fun run_path ::
  "MigrationEngine \<Rightarrow> (u32 \<times> u32) list \<Rightarrow> GameObject \<Rightarrow> ComponentStorage \<Rightarrow>
     bool \<times> GameObject \<times> ComponentStorage" where
  "run_path me [] obj cs = (True, obj, cs)"
| "run_path me ((from, to) # ps) obj cs =
     (case MigrationEngine_MigrateStep me obj from to cs of
        (ok, obj', cs') \<Rightarrow>
          if ok then run_path me ps (set_version to obj') cs' else (False, obj', cs'))"

lemma length_version_path: "length (version_path a b) = version_distance a b"
  by (auto simp: version_path_def version_distance_def)

lemma version_path_refl [simp]: "version_path a a = []"
  by (simp add: version_path_def)

lemma version_path_step:
  assumes "a \<noteq> b"
  shows "version_path a b = (a, next_version a b) # version_path (next_version a b) b"
proof (cases "unat a < unat b")
  case True
  have "unat (next_version a b) = Suc (unat a)"
    using unat_next_version [OF assms] True by simp
  then have n: "next_version a b = word_of_nat (Suc (unat a))"
    by (metis of_nat_unat_self)
  have "[unat a ..< unat b] = unat a # [Suc (unat a) ..< unat b]"
    using True by (rule upt_conv_Cons)
  then show ?thesis
    using True unat_next_version [OF assms] n by (auto simp: version_path_def)
next
  case False
  then have gt: "unat b < unat a" using assms by (metis linorder_neqE_nat word_unat_eq_iff)
  have u: "unat (next_version a b) = unat a - 1"
    using unat_next_version [OF assms] gt by simp
  then have n: "next_version a b = word_of_nat (unat a - 1)"
    by (metis of_nat_unat_self)
  have "rev [unat b ..< unat a] = (unat a - 1) # rev [unat b ..< unat a - 1]"
    using gt by (cases "unat a") auto
  then show ?thesis
    using gt u n by (auto simp: version_path_def)
qed

lemma Migrate_loop_path: "Migrate_loop me obj a b cs = run_path me (version_path a b) obj cs"
proof (induction me obj a b cs rule: Migrate_loop.induct)
  case (1 me obj a b cs)
  show ?case
  proof (cases "a = b")
    case True
    then show ?thesis by (simp add: Migrate_loop.simps)
  next
    case False
    then show ?thesis
      using 1 by (subst Migrate_loop.simps)
        (auto simp: version_path_step [OF False] Let_def split: prod.split)
  qed
qed

lemma Migrate_path:
  "MigrationEngine_Migrate me obj target cs =
     run_path me (version_path (oh_schema_version (go_header obj)) target) obj cs"
  by (simp add: MigrationEngine_Migrate_def Migrate_loop_path)

lemma run_path_append:
  "run_path me (ps @ qs) obj cs =
     (case run_path me ps obj cs of
        (ok, obj', cs') \<Rightarrow> if ok then run_path me qs obj' cs' else (False, obj', cs'))"
  by (induction me ps obj cs rule: run_path.induct) (auto split: prod.split)

lemma set_version_version [simp]: "oh_schema_version (go_header (set_version v obj)) = v"
  by (simp add: set_version_def)

lemma set_version_id [simp]:
  "oh_object_id (go_header (set_version v obj)) = oh_object_id (go_header obj)"
  "oh_object_type (go_header (set_version v obj)) = oh_object_type (go_header obj)"
  "go_storage (set_version v obj) = go_storage obj"
  by (simp_all add: set_version_def)

lemma set_version_twice [simp]: "set_version v (set_version w obj) = set_version v obj"
  by (simp add: set_version_def)

lemma set_version_same [simp]: "set_version (oh_schema_version (go_header obj)) obj = obj"
  by (simp add: set_version_def)

lemma run_path_version:
  "ps \<noteq> [] \<Longrightarrow> run_path me ps obj cs = (True, obj', cs') \<Longrightarrow>
     oh_schema_version (go_header obj') = snd (last ps)"
proof (induction me ps obj cs rule: run_path.induct)
  case (2 me a b ps obj cs)
  then show ?case by (cases ps) (auto split: prod.splits if_splits)
qed simp

lemma last_version_path: "a \<noteq> b \<Longrightarrow> snd (last (version_path a b)) = b"
proof (induction "version_distance a b" arbitrary: a)
  case 0
  then show ?case by (simp add: version_distance_next)
next
  case (Suc n)
  show ?case
  proof (cases "next_version a b = b")
    case True
    then show ?thesis using Suc.prems by (simp add: version_path_step)
  next
    case False
    have "version_path (next_version a b) b \<noteq> []"
      using version_path_step [OF False] by simp
    moreover have "n = version_distance (next_version a b) b"
      using Suc.hyps(2) version_distance_next [OF Suc.prems] by simp
    ultimately show ?thesis
      using Suc.hyps(1) [OF _ False] version_path_step [OF Suc.prems] by simp
  qed
qed

lemma Migrate_version:
  assumes "MigrationEngine_Migrate me obj target cs = (True, obj', cs')"
  shows "oh_schema_version (go_header obj') = target"
proof (cases "oh_schema_version (go_header obj) = target")
  case True
  then show ?thesis using assms by (simp add: Migrate_path)
next
  case False
  then have "version_path (oh_schema_version (go_header obj)) target \<noteq> []"
    by (simp add: version_path_step)
  then show ?thesis
    using assms run_path_version last_version_path [OF False] by (metis Migrate_path)
qed

subsection \<open>Up and down again\<close>

text \<open>
  \<open>up_step\<close> and \<open>down_step\<close>: the registered functions take the view between versions \<open>n\<close> and
  \<open>n + 1\<close> back and forth between the storages \<open>sq n\<close> and \<open>sq (n + 1)\<close>, and leave the view alone.
\<close>

definition up_step :: "MigrationEngine \<Rightarrow> GameObject \<Rightarrow> (nat \<Rightarrow> ComponentStorage) \<Rightarrow> nat \<Rightarrow> bool" where
  "up_step me obj sq n \<longleftrightarrow>
     (let o1 = set_version (word_of_nat n) obj in
      MigrationEngine_MigrateStep me o1 (word_of_nat n) (word_of_nat (Suc n)) (sq n) = (True, o1, sq (Suc n)))"

definition down_step :: "MigrationEngine \<Rightarrow> GameObject \<Rightarrow> (nat \<Rightarrow> ComponentStorage) \<Rightarrow> nat \<Rightarrow> bool" where
  "down_step me obj sq n \<longleftrightarrow>
     (let o1 = set_version (word_of_nat (Suc n)) obj in
      MigrationEngine_MigrateStep me o1 (word_of_nat (Suc n)) (word_of_nat n) (sq (Suc n)) = (True, o1, sq n))"

lemma run_path_up:
  assumes "i \<le> j" and "\<And>n. i \<le> n \<Longrightarrow> n < j \<Longrightarrow> up_step me obj sq n"
  shows "run_path me (map (\<lambda>n. (word_of_nat n, word_of_nat (Suc n))) [i ..< j])
           (set_version (word_of_nat i) obj) (sq i) = (True, set_version (word_of_nat j) obj, sq j)"
  using assms
proof (induction j rule: dec_induct)
  case base
  then show ?case by simp
next
  case (step j)
  then have "run_path me (map (\<lambda>n. (word_of_nat n, word_of_nat (Suc n))) [i ..< j])
     (set_version (word_of_nat i) obj) (sq i) = (True, set_version (word_of_nat j) obj, sq j)"
    by simp
  moreover have "up_step me obj sq j" using step by simp
  ultimately show ?case
    using step.hyps by (simp add: run_path_append up_step_def Let_def)
qed

lemma run_path_down:
  assumes "i \<le> j" and "\<And>n. i \<le> n \<Longrightarrow> n < j \<Longrightarrow> down_step me obj sq n"
  shows "run_path me (map (\<lambda>n. (word_of_nat (Suc n), word_of_nat n)) (rev [i ..< j]))
           (set_version (word_of_nat j) obj) (sq j) = (True, set_version (word_of_nat i) obj, sq i)"
  using assms
proof (induction j rule: dec_induct)
  case base
  then show ?case by simp
next
  case (step j)
  then have "run_path me (map (\<lambda>n. (word_of_nat (Suc n), word_of_nat n)) (rev [i ..< j]))
     (set_version (word_of_nat j) obj) (sq j) = (True, set_version (word_of_nat i) obj, sq i)"
    by simp
  moreover have "down_step me obj sq j" using step by simp
  ultimately show ?case
    using step.hyps by (simp add: down_step_def Let_def)
qed

lemma Migrate_up_down:
  assumes "a \<le> b"
    and "\<And>n. unat a \<le> n \<Longrightarrow> n < unat b \<Longrightarrow> up_step me obj sq n \<and> down_step me obj sq n"
  shows "MigrationEngine_Migrate me (set_version a obj) b (sq (unat a)) = (True, set_version b obj, sq (unat b))"
    and "MigrationEngine_Migrate me (set_version b obj) a (sq (unat b)) = (True, set_version a obj, sq (unat a))"
proof -
  have le: "unat a \<le> unat b" using assms(1) by (simp add: word_le_nat_alt)
  show "MigrationEngine_Migrate me (set_version a obj) b (sq (unat a)) = (True, set_version b obj, sq (unat b))"
    using run_path_up [OF le, of me obj sq] assms(2) le
    by (simp add: Migrate_path version_path_def of_nat_unat_self)
  show "MigrationEngine_Migrate me (set_version b obj) a (sq (unat b)) = (True, set_version a obj, sq (unat a))"
  proof (cases "a = b")
    case True
    then show ?thesis by (simp add: Migrate_path)
  next
    case False
    then have "\<not> unat b \<le> unat a" using le by (simp add: word_unat_eq_iff)
    then show ?thesis
      using run_path_down [OF le, of me obj sq] assms(2)
      by (simp add: Migrate_path version_path_def of_nat_unat_self)
  qed
qed

subsection \<open>What a migration keeps\<close>

text \<open>
  \<open>well_behaved me\<close>: the registered functions keep the identity of the view they are given and
  change components of that object only, the contract stated in the comment on \<open>MigrationFunc\<close>.
\<close>

definition well_behaved :: "MigrationEngine \<Rightarrow> bool" where
  "well_behaved me \<longleftrightarrow>
     um.every (\<lambda>k func. \<forall>obj from to cs ok obj' cs'. func obj from to cs = (ok, obj', cs') \<longrightarrow>
        oh_object_id (go_header obj') = oh_object_id (go_header obj) \<and>
        cs.same_but (oh_object_id (go_header obj)) cs cs') (me_migrations me)"

lemma well_behaved_new: "well_behaved MigrationEngine_new"
  by (simp add: well_behaved_def MigrationEngine_new_def um.every_empty)

lemma well_behaved_step:
  assumes "well_behaved me" and "MigrationEngine_MigrateStep me obj a b cs = (ok, obj', cs')"
  shows "oh_object_id (go_header obj') = oh_object_id (go_header obj) \<and>
     cs.same_but (oh_object_id (go_header obj)) cs cs'"
proof (cases "um_find (me_migrations me) (MigrationEngine_MakeKey a b)")
  case None
  then show ?thesis using assms(2) by (auto simp: MigrationEngine_MigrateStep_def cs.same_but_refl)
next
  case (Some func)
  then show ?thesis
    using assms(2) um.every_find [OF assms(1) [unfolded well_behaved_def] Some]
    by (auto simp: MigrationEngine_MigrateStep_def)
qed

lemma run_path_keeps:
  "well_behaved me \<Longrightarrow> run_path me ps obj cs = (ok, obj', cs') \<Longrightarrow>
     oh_object_id (go_header obj') = oh_object_id (go_header obj) \<and>
     cs.same_but (oh_object_id (go_header obj)) cs cs'"
proof (induction me ps obj cs rule: run_path.induct)
  case (2 me a b ps obj cs)
  obtain ok1 obj1 cs1 where step: "MigrationEngine_MigrateStep me obj a b cs = (ok1, obj1, cs1)"
    by (cases "MigrationEngine_MigrateStep me obj a b cs") auto
  note kept = well_behaved_step [OF "2.prems"(1) step]
  show ?case
  proof (cases ok1)
    case True
    then have "run_path me ps (set_version b obj1) cs1 = (ok, obj', cs')"
      using "2.prems"(2) step by simp
    then show ?thesis
      using "2.IH" [OF step [symmetric] refl _ "2.prems"(1)] True kept
      by (auto intro: cs.same_but_trans)
  next
    case False
    then show ?thesis using "2.prems"(2) step kept by simp
  qed
qed (auto simp: cs.same_but_refl)

lemma Migrate_keeps:
  assumes "well_behaved me" and "MigrationEngine_Migrate me obj target cs = (ok, obj', cs')"
  shows "oh_object_id (go_header obj') = oh_object_id (go_header obj)"
    and "cs.same_but (oh_object_id (go_header obj)) cs cs'"
  using run_path_keeps [OF assms(1) assms(2) [unfolded Migrate_path]] by simp_all

subsection \<open>An engine with two steps\<close>

text \<open>The step from version 1 to 2 sets component 7 to 1, the step back sets it to 0; the step from 2 to 3 fails.\<close>

definition toggle_engine :: MigrationEngine where
  "toggle_engine =
     MigrationEngine_Register 1 2 (\<lambda>obj from to cs. (True, obj, GameObject_WriteComponent obj 7 [1] cs))
       (MigrationEngine_Register 2 1 (\<lambda>obj from to cs. (True, obj, GameObject_WriteComponent obj 7 [0] cs))
         MigrationEngine_new)"

definition toggle_object :: GameObject where
  "toggle_object = \<lparr>go_header = \<lparr>oh_schema_version = 1, oh_object_type = 2, oh_object_id = 5\<rparr>, go_storage = the_storage\<rparr>"

definition toggle_storage :: "nat \<Rightarrow> ComponentStorage" where
  "toggle_storage n = ComponentStorage_Write 5 7 [if n = 1 then 0 else 1] ComponentStorage_new"

lemma toggle_write: "ComponentStorage_Write 5 7 d (toggle_storage n) = ComponentStorage_Write 5 7 d ComponentStorage_new"
  by (simp add: toggle_storage_def ComponentStorage_Write_def ComponentStorage_ensure_def ComponentStorage_new_def
      ObjectComponents_new_def Let_def um_defs)

lemma toggle_up: "go_storage obj = the_storage \<Longrightarrow> oh_object_id (go_header obj) = 5 \<Longrightarrow>
    MigrationEngine_MigrateStep toggle_engine obj 1 2 (toggle_storage 1) = (True, obj, toggle_storage 2)"
  by (simp add: toggle_engine_def MigrateStep_Register GameObject_WriteComponent_def toggle_write, simp add: toggle_storage_def)

lemma toggle_down: "go_storage obj = the_storage \<Longrightarrow> oh_object_id (go_header obj) = 5 \<Longrightarrow>
    MigrationEngine_MigrateStep toggle_engine obj 2 1 (toggle_storage 2) = (True, obj, toggle_storage 1)"
  by (simp add: toggle_engine_def MigrateStep_Register GameObject_WriteComponent_def toggle_write, simp add: toggle_storage_def)

lemma toggle_steps:
  assumes "unat (1 :: u32) \<le> n" and "n < unat (2 :: u32)"
  shows "up_step toggle_engine toggle_object toggle_storage n \<and> down_step toggle_engine toggle_object toggle_storage n"
proof -
  have n: "n = 1" using assms by simp
  show ?thesis
    unfolding n up_step_def down_step_def Let_def
    using toggle_up [of "set_version 1 toggle_object"] toggle_down [of "set_version 2 toggle_object"]
    by (simp add: toggle_object_def numeral_2_eq_2)
qed

lemma toggle_well_behaved: "well_behaved toggle_engine"
  unfolding well_behaved_def toggle_engine_def MigrationEngine_Register_def MigrationEngine_new_def
  by (auto intro!: um.every_assign um.every_empty GameObject_Write_same_but)

lemma toggle_storage_changes: "toggle_storage 2 \<noteq> toggle_storage 1"
proof -
  have "component (toggle_storage 2) 5 7 \<noteq> component (toggle_storage 1) 5 7"
    by (simp add: toggle_storage_def component_Write)
  then show ?thesis by metis
qed

section \<open>Properties\<close>

text \<open>C15: Migration. \<open>Migrate\<close> equals the walk along the path of adjacent version pairs between the
  version of the view and the target, upwards or downwards, stopping at the first step that is
  missing or fails; the path has as many steps as the versions are apart, so the loop ends.\<close>

theorem migrate_is_version_walk:
  "MigrationEngine_Migrate me obj target cs =
      run_path me (version_path (oh_schema_version (go_header obj)) target) obj cs \<and>
    length (version_path (oh_schema_version (go_header obj)) target) =
      version_distance (oh_schema_version (go_header obj)) target"
  by (simp add: Migrate_path length_version_path)

text \<open>C16: Migration. When the registered steps between \<open>a\<close> and \<open>b\<close> take the storage back and forth
  between \<open>sq n\<close> and \<open>sq (n + 1)\<close>, migrating up from \<open>a\<close> to \<open>b\<close> succeeds, and migrating the result
  back down restores the view and the storage.\<close>

theorem migrate_round_trip:
  assumes "a \<le> b"
    and "\<And>n. unat a \<le> n \<Longrightarrow> n < unat b \<Longrightarrow> up_step me obj sq n \<and> down_step me obj sq n"
  shows "MigrationEngine_Migrate me (set_version a obj) b (sq (unat a)) = (True, set_version b obj, sq (unat b)) \<and>
      MigrationEngine_Migrate me (set_version b obj) a (sq (unat b)) = (True, set_version a obj, sq (unat a))"
  using Migrate_up_down [OF assms] by blast

theorem migrate_round_trip_witness:
  "MigrationEngine_Migrate toggle_engine (set_version 1 toggle_object) 2 (toggle_storage 1) =
      (True, set_version 2 toggle_object, toggle_storage 2) \<and>
    MigrationEngine_Migrate toggle_engine (set_version 2 toggle_object) 1 (toggle_storage 2) =
      (True, set_version 1 toggle_object, toggle_storage 1)"
  using migrate_round_trip [of 1 2 toggle_engine toggle_object toggle_storage, OF _ toggle_steps] by simp

end
