(* ===== verification/Object_Registry.thy ===== *)
theory Object_Registry
  imports Migration_Engine
begin

section \<open>The object registry\<close>

text \<open>
  \<open>core/object_registry.h\<close> and \<open>core/object_registry.cpp\<close>: the headers of the live objects, and
  the bridge from an object id to a view. \<open>Create\<close>, \<open>Migrate\<close> and the header copy in \<open>Get\<close> happen
  under the locks and are atomic here. The callback of \<open>Get\<close> runs after the locks are released, so
  it is applied to the view outside the operation: other operations may run between the two.
\<close>

record ObjectRegistry =
  or_storage :: storage_ptr
  or_objects :: "(u64, ObjectHeader) umap"

definition ObjectRegistry_new :: ObjectRegistry where
  "ObjectRegistry_new = \<lparr>or_storage = the_storage, or_objects = um_empty\<rparr>"

definition ObjectRegistry_Create :: "ObjectHeader \<Rightarrow> ObjectRegistry \<Rightarrow> u64 \<times> ObjectRegistry" where
  "ObjectRegistry_Create header reg =
     (oh_object_id header, reg\<lparr>or_objects := um_assign (oh_object_id header) header (or_objects reg)\<rparr>)"

definition ObjectRegistry_Get :: "ObjectRegistry \<Rightarrow> u64 \<Rightarrow> (GameObject option \<Rightarrow> 'r) \<Rightarrow> 'r" where
  "ObjectRegistry_Get reg object_id callback =
     (case um_find (or_objects reg) object_id of
        None \<Rightarrow> callback None
      | Some header \<Rightarrow> callback (Some \<lparr>go_header = header, go_storage = or_storage reg\<rparr>))"

definition ObjectRegistry_Destroy ::
  "u64 \<Rightarrow> ObjectRegistry \<Rightarrow> ComponentStorage \<Rightarrow> ObjectRegistry \<times> ComponentStorage" where
  "ObjectRegistry_Destroy object_id reg cs =
     (case um_find (or_objects reg) object_id of
        None \<Rightarrow> (reg, cs)
      | Some _ \<Rightarrow>
          (reg\<lparr>or_objects := um_erase object_id (or_objects reg)\<rparr>,
           if or_storage reg \<noteq> nullptr then ComponentStorage_RemoveAll object_id cs else cs))"

definition ObjectRegistry_Migrate ::
  "MigrationEngine \<Rightarrow> u64 \<Rightarrow> u32 \<Rightarrow> ObjectRegistry \<Rightarrow> ComponentStorage \<Rightarrow>
     bool \<times> ObjectRegistry \<times> ComponentStorage" where
  "ObjectRegistry_Migrate me object_id target_version reg cs =
     (case um_find (or_objects reg) object_id of
        None \<Rightarrow> (False, reg, cs)
      | Some header \<Rightarrow>
          (let view = \<lparr>go_header = header, go_storage = or_storage reg\<rparr> in
           case MigrationEngine_Migrate me view target_version cs of
             (ok, view', cs') \<Rightarrow>
               (ok,
                if ok then reg\<lparr>or_objects := um_assign object_id (go_header view') (or_objects reg)\<rparr>
                else reg,
                cs')))"

subsection \<open>Lookups\<close>

text \<open>The view a caller of \<open>Get\<close> receives.\<close>

definition view_of :: "ObjectRegistry \<Rightarrow> u64 \<Rightarrow> GameObject option" where
  "view_of reg object_id = ObjectRegistry_Get reg object_id (\<lambda>v. v)"

lemma Get_callback: "ObjectRegistry_Get reg i callback = callback (view_of reg i)"
  by (simp add: view_of_def ObjectRegistry_Get_def split: option.split)

lemma view_of_new [simp]: "view_of ObjectRegistry_new i = None"
  by (simp add: view_of_def ObjectRegistry_Get_def ObjectRegistry_new_def)

lemma view_of_Create:
  "view_of (snd (ObjectRegistry_Create h reg)) i =
     (if i = oh_object_id h then Some \<lparr>go_header = h, go_storage = or_storage reg\<rparr> else view_of reg i)"
  by (auto simp: view_of_def ObjectRegistry_Get_def ObjectRegistry_Create_def split: option.split)

lemma view_of_Destroy:
  "view_of (fst (ObjectRegistry_Destroy i reg cs)) i' = (if i' = i then None else view_of reg i')"
  by (auto simp: view_of_def ObjectRegistry_Get_def ObjectRegistry_Destroy_def split: option.split)

lemma view_of_storage: "view_of reg i = Some v \<Longrightarrow> go_storage v = or_storage reg"
  by (auto simp: view_of_def ObjectRegistry_Get_def split: option.splits)

lemma Destroy_storage:
  "or_storage reg = the_storage \<Longrightarrow>
     component (snd (ObjectRegistry_Destroy i reg cs)) i' t =
       (if i' = i \<and> view_of reg i \<noteq> None then None else component cs i' t)"
  by (auto simp: view_of_def ObjectRegistry_Get_def ObjectRegistry_Destroy_def component_RemoveAll
      split: option.split)

lemma Migrate_view:
  "ObjectRegistry_Migrate me i target reg cs =
     (case view_of reg i of
        None \<Rightarrow> (False, reg, cs)
      | Some v \<Rightarrow>
          (case MigrationEngine_Migrate me v target cs of
             (ok, v', cs') \<Rightarrow>
               (ok, if ok then reg\<lparr>or_objects := um_assign i (go_header v') (or_objects reg)\<rparr> else reg, cs')))"
  by (auto simp: ObjectRegistry_Migrate_def view_of_def ObjectRegistry_Get_def Let_def split: option.split)

subsection \<open>Invariant: an object is filed under its own id\<close>

definition ObjectRegistry_wf :: "ObjectRegistry \<Rightarrow> bool" where
  "ObjectRegistry_wf reg \<longleftrightarrow> or_storage reg = the_storage \<and> um_wf (or_objects reg) \<and>
     um.every (\<lambda>i h. oh_object_id h = i) (or_objects reg)"

lemma ObjectRegistry_wf_new: "ObjectRegistry_wf ObjectRegistry_new"
  by (simp add: ObjectRegistry_wf_def ObjectRegistry_new_def um.every_empty)

lemma ObjectRegistry_wf_Create:
  "ObjectRegistry_wf reg \<Longrightarrow> ObjectRegistry_wf (snd (ObjectRegistry_Create h reg))"
  by (simp add: ObjectRegistry_wf_def ObjectRegistry_Create_def um.every_assign)

lemma ObjectRegistry_wf_Destroy:
  "ObjectRegistry_wf reg \<Longrightarrow> ObjectRegistry_wf (fst (ObjectRegistry_Destroy i reg cs))"
  by (auto simp: ObjectRegistry_wf_def ObjectRegistry_Destroy_def intro: um.every_erase split: option.split)

lemma ObjectRegistry_wf_view:
  "ObjectRegistry_wf reg \<Longrightarrow> view_of reg i = Some v \<Longrightarrow>
     oh_object_id (go_header v) = i \<and> go_storage v = the_storage"
  by (auto simp: ObjectRegistry_wf_def view_of_def ObjectRegistry_Get_def split: option.splits
      dest: um.every_find)

lemma ObjectRegistry_wf_Migrate:
  assumes "ObjectRegistry_wf reg" and "well_behaved me"
  shows "ObjectRegistry_wf (fst (snd (ObjectRegistry_Migrate me i target reg cs)))"
proof (cases "view_of reg i")
  case None
  then show ?thesis using assms(1) by (simp add: Migrate_view)
next
  case (Some v)
  obtain ok v' cs' where m: "MigrationEngine_Migrate me v target cs = (ok, v', cs')"
    by (cases "MigrationEngine_Migrate me v target cs") auto
  have "oh_object_id (go_header v') = i"
    using Migrate_keeps(1) [OF assms(2) m] ObjectRegistry_wf_view [OF assms(1) Some] by simp
  then show ?thesis
    using assms(1) Some m
    by (auto simp: Migrate_view ObjectRegistry_wf_def intro: um.every_assign)
qed

subsection \<open>Migration through the registry\<close>

lemma Registry_Migrate_success:
  assumes "ObjectRegistry_Migrate me i target reg cs = (True, reg', cs')"
  shows "\<exists>v. view_of reg' i = Some v \<and> oh_schema_version (go_header v) = target"
proof -
  obtain v where v: "view_of reg i = Some v"
    using assms by (auto simp: Migrate_view split: option.splits)
  obtain ok v' cs'' where m: "MigrationEngine_Migrate me v target cs = (ok, v', cs'')"
    by (cases "MigrationEngine_Migrate me v target cs") auto
  have ok: ok and r: "reg' = reg\<lparr>or_objects := um_assign i (go_header v') (or_objects reg)\<rparr>"
    using assms v m by (auto simp: Migrate_view split: if_splits)
  then show ?thesis
    using Migrate_version m by (auto simp: view_of_def ObjectRegistry_Get_def)
qed

text \<open>
  A step that fails after others have succeeded: the registry keeps the old header, the storage
  keeps what the earlier steps and the failing one wrote.
\<close>

lemma Registry_Migrate_partial:
  assumes "view_of reg i = Some v"
    and "version_path (oh_schema_version (go_header v)) target = done @ (a, b) # rest"
    and "run_path me done v cs = (True, v1, cs1)"
    and "MigrationEngine_MigrateStep me v1 a b cs1 = (False, v2, cs2)"
  shows "ObjectRegistry_Migrate me i target reg cs = (False, reg, cs2)"
  using assms by (simp add: Migrate_view Migrate_path run_path_append)

subsection \<open>Stale views\<close>

text \<open>
  A view outlives the locks of \<open>Get\<close>. A write through a view obtained before \<open>Destroy\<close> gives the
  destroyed object components again, which no later \<open>Destroy\<close> removes.
\<close>

lemma stale_view_write:
  assumes "ObjectRegistry_wf reg" and "view_of reg i = Some v"
    and "ObjectRegistry_Destroy i reg cs = (reg', cs')"
  shows "view_of reg' i = None"
    and "component (GameObject_WriteComponent v t d cs') i = [t \<mapsto> d]"
    and "ObjectRegistry_Destroy i reg' (GameObject_WriteComponent v t d cs') =
           (reg', GameObject_WriteComponent v t d cs')"
proof -
  have v: "oh_object_id (go_header v) = i" "go_storage v = the_storage"
    using ObjectRegistry_wf_view [OF assms(1,2)] by auto
  show none: "view_of reg' i = None"
    using view_of_Destroy [of i reg cs i] assms(3) by simp
  have gone: "component cs' i t' = None" for t'
    using Destroy_storage [of reg i cs i t'] assms by (simp add: ObjectRegistry_wf_def)
  then show "component (GameObject_WriteComponent v t d cs') i = [t \<mapsto> d]"
    using v by (auto simp: GameObject_WriteComponent_def component_Write)
  show "ObjectRegistry_Destroy i reg' (GameObject_WriteComponent v t d cs') =
           (reg', GameObject_WriteComponent v t d cs')"
    using none by (auto simp: ObjectRegistry_Destroy_def view_of_def ObjectRegistry_Get_def
        split: option.splits)
qed

subsection \<open>A registry with one object\<close>

lemma Registry_Migrate_others:
  assumes "ObjectRegistry_wf reg" and "well_behaved me"
    and "ObjectRegistry_Migrate me i target reg cs = (ok, reg', cs')"
  shows "j \<noteq> i \<Longrightarrow> view_of reg' j = view_of reg j \<and> component cs' j t = component cs j t"
proof (cases "view_of reg i")
  case None
  then show ?thesis using assms(3) by (simp add: Migrate_view)
next
  case (Some v)
  assume j: "j \<noteq> i"
  obtain ok1 v' cs1 where m: "MigrationEngine_Migrate me v target cs = (ok1, v', cs1)"
    by (cases "MigrationEngine_Migrate me v target cs") auto
  have "cs.same_but i cs cs1"
    using Migrate_keeps(2) [OF assms(2) m] ObjectRegistry_wf_view [OF assms(1) Some] by simp
  then show ?thesis
    using assms(3) Some m j
    by (auto simp: Migrate_view cs.same_but_def view_of_def ObjectRegistry_Get_def split: if_splits option.split)
qed

definition toggle_registry :: ObjectRegistry where
  "toggle_registry = snd (ObjectRegistry_Create (go_header toggle_object) ObjectRegistry_new)"

lemma toggle_registry_wf: "ObjectRegistry_wf toggle_registry"
  by (simp add: toggle_registry_def ObjectRegistry_wf_Create ObjectRegistry_wf_new)

lemma toggle_view: "view_of toggle_registry 5 = Some toggle_object"
  by (simp add: toggle_registry_def view_of_Create toggle_object_def ObjectRegistry_new_def)

lemma toggle_path: "version_path (oh_schema_version (go_header toggle_object)) 3 = [(1, 2)] @ (2, 3) # []"
  by (simp add: toggle_object_def version_path_step next_version_def)

lemma toggle_first:
  "run_path toggle_engine [(1, 2)] toggle_object (toggle_storage 1) = (True, set_version 2 toggle_object, toggle_storage 2)"
  using toggle_up [of toggle_object] by (simp add: toggle_object_def)

lemma toggle_second:
  "MigrationEngine_MigrateStep toggle_engine (set_version 2 toggle_object) 2 3 (toggle_storage 2) =
     (False, set_version 2 toggle_object, toggle_storage 2)"
  by (simp add: toggle_engine_def MigrateStep_Register)

lemma toggle_path_one: "version_path (oh_schema_version (go_header toggle_object)) 2 = [(1, 2)]"
  by (simp add: toggle_object_def version_path_step next_version_def)

lemma toggle_registry_migrate:
  "ObjectRegistry_Migrate toggle_engine 5 2 toggle_registry (toggle_storage 1) =
     (True, toggle_registry\<lparr>or_objects := um_assign 5 (go_header (set_version 2 toggle_object)) (or_objects toggle_registry)\<rparr>,
      toggle_storage 2)"
  by (simp only: Migrate_view toggle_view option.case Migrate_path toggle_path_one toggle_first prod.case if_True)

subsection \<open>Runs of the registry\<close>

text \<open>The operations that change the registry, one after the other.\<close>

datatype registry_call = C_Create ObjectHeader | C_Destroy u64 | C_Migrate u64 u32

fun registry_call_step ::
  "MigrationEngine \<Rightarrow> ObjectRegistry \<times> ComponentStorage \<Rightarrow> registry_call \<Rightarrow> ObjectRegistry \<times> ComponentStorage" where
  "registry_call_step me (reg, cs) (C_Create h) = (snd (ObjectRegistry_Create h reg), cs)"
| "registry_call_step me (reg, cs) (C_Destroy i) = ObjectRegistry_Destroy i reg cs"
| "registry_call_step me (reg, cs) (C_Migrate i target) = snd (ObjectRegistry_Migrate me i target reg cs)"

text \<open>An object exists when the last call that creates or destroys its id created it.\<close>

fun created_last :: "u64 \<Rightarrow> registry_call list \<Rightarrow> bool" where
  "created_last i [] = False"
| "created_last i (C_Create h # earlier) = (oh_object_id h = i \<or> created_last i earlier)"
| "created_last i (C_Destroy j # earlier) = (j \<noteq> i \<and> created_last i earlier)"
| "created_last i (C_Migrate j target # earlier) = created_last i earlier"

text \<open>One call keeps the invariant of the registry.\<close>

lemma registry_invariant:
  assumes "ObjectRegistry_wf reg" and "well_behaved me"
  shows "ObjectRegistry_wf (snd (ObjectRegistry_Create h reg)) \<and>
      ObjectRegistry_wf (fst (ObjectRegistry_Destroy i reg cs)) \<and>
      ObjectRegistry_wf (fst (snd (ObjectRegistry_Migrate me i target reg cs)))"
  using assms by (simp add: ObjectRegistry_wf_Create ObjectRegistry_wf_Destroy ObjectRegistry_wf_Migrate)

lemma Migrate_exists: "view_of (fst (snd (ObjectRegistry_Migrate me i target reg cs))) j = None \<longleftrightarrow> view_of reg j = None"
  by (auto simp: ObjectRegistry_Migrate_def view_of_def ObjectRegistry_Get_def Let_def split: option.splits prod.split)

lemma registry_runs:
  assumes "well_behaved me"
  shows "ObjectRegistry_wf (fst (foldl (registry_call_step me) (ObjectRegistry_new, cs) xs)) \<and>
     (view_of (fst (foldl (registry_call_step me) (ObjectRegistry_new, cs) xs)) i \<noteq> None \<longleftrightarrow> created_last i (rev xs))"
proof (induction xs rule: rev_induct)
  case Nil
  then show ?case by (simp add: ObjectRegistry_wf_new)
next
  case (snoc x xs)
  obtain reg cs' where st: "foldl (registry_call_step me) (ObjectRegistry_new, cs) xs = (reg, cs')" by fastforce
  show ?case
  proof (cases x)
    case (C_Create h)
    then show ?thesis using snoc.IH st ObjectRegistry_wf_Create by (simp add: view_of_Create)
  next
    case (C_Destroy j)
    then show ?thesis using snoc.IH st ObjectRegistry_wf_Destroy by (simp add: view_of_Destroy)
  next
    case (C_Migrate j target)
    then show ?thesis using snoc.IH st ObjectRegistry_wf_Migrate [OF _ assms] by (simp add: Migrate_exists)
  qed
qed

section \<open>Properties\<close>

text \<open>C17: Object registry. After a successful \<open>Migrate\<close> the object is filed at the target version, every
  other object has the header and the components it had before.\<close>

theorem registry_migrate_success:
  assumes "ObjectRegistry_wf reg" and "well_behaved me"
    and "ObjectRegistry_Migrate me i target reg cs = (True, reg', cs')"
  shows "(\<exists>v. view_of reg' i = Some v \<and> oh_schema_version (go_header v) = target \<and> oh_object_id (go_header v) = i) \<and>
      (\<forall>j t. j \<noteq> i \<longrightarrow> view_of reg' j = view_of reg j \<and> component cs' j t = component cs j t)"
  using Registry_Migrate_success [OF assms(3)] Registry_Migrate_others [OF assms]
    ObjectRegistry_wf_view [OF ObjectRegistry_wf_Migrate [OF assms(1,2)], of i target cs i] assms(3) by fastforce

theorem registry_migrate_success_witness:
  "\<exists>reg' cs'. ObjectRegistry_Migrate toggle_engine 5 2 toggle_registry (toggle_storage 1) = (True, reg', cs') \<and>
      (\<exists>v. view_of reg' 5 = Some v \<and> oh_schema_version (go_header v) = 2 \<and> oh_object_id (go_header v) = 5) \<and>
      (\<forall>j t. j \<noteq> 5 \<longrightarrow> view_of reg' j = view_of toggle_registry j \<and> component cs' j t = component (toggle_storage 1) j t)"
  using registry_migrate_success [OF toggle_registry_wf toggle_well_behaved toggle_registry_migrate]
    toggle_registry_migrate by blast

text \<open>C18: Object registry, the failure of a later step. When the first steps of the version path succeed
  and the next one fails, \<open>Migrate\<close> reports failure and keeps the old header, but the storage keeps
  everything the steps have done: header and components disagree, and a retry applies them again.\<close>

theorem registry_migrate_partial:
  assumes "view_of reg i = Some v"
    and "version_path (oh_schema_version (go_header v)) target = finished @ (a, b) # rest"
    and "run_path me finished v cs = (True, v1, cs1)"
    and "MigrationEngine_MigrateStep me v1 a b cs1 = (False, v2, cs2)"
  shows "ObjectRegistry_Migrate me i target reg cs = (False, reg, cs2)"
  using assms by (rule Registry_Migrate_partial)

theorem registry_migrate_partial_witness:
  "ObjectRegistry_Migrate toggle_engine 5 3 toggle_registry (toggle_storage 1) =
      (False, toggle_registry, toggle_storage 2) \<and> toggle_storage 2 \<noteq> toggle_storage 1"
proof -
  have "ObjectRegistry_Migrate toggle_engine 5 3 toggle_registry (toggle_storage 1) = (False, toggle_registry, toggle_storage 2)"
    by (rule registry_migrate_partial [OF toggle_view toggle_path toggle_first toggle_second])
  then show ?thesis using toggle_storage_changes by simp
qed

text \<open>C19: Object registry, its data. After any sequence of \<open>Create\<close>, \<open>Destroy\<close> and \<open>Migrate\<close> calls on a new registry,
  whatever the migrations do as long as they keep the id as their contract says, an id has a view exactly
  when the last of its creations and destructions was a creation; the header of the view carries that
  id and the view refers to the component storage.\<close>

theorem registry_objects_typed:
  assumes "well_behaved me" and "foldl (registry_call_step me) (ObjectRegistry_new, cs) xs = (reg, cs')"
  shows "(view_of reg i \<noteq> None \<longleftrightarrow> created_last i (rev xs)) \<and>
      (\<forall>v. view_of reg i = Some v \<longrightarrow> oh_object_id (go_header v) = i \<and> go_storage v = the_storage)"
proof -
  have wf: "ObjectRegistry_wf reg" and "view_of reg i \<noteq> None \<longleftrightarrow> created_last i (rev xs)"
    using registry_runs [OF assms(1), of cs xs i] assms(2) by simp_all
  moreover have "go_storage v = the_storage" if "view_of reg i = Some v" for v
    using wf view_of_storage [OF that] by (simp add: ObjectRegistry_wf_def)
  ultimately show ?thesis using ObjectRegistry_wf_view [OF wf] by blast
qed

theorem registry_objects_typed_witness:
  "\<exists>reg cs'. foldl (registry_call_step toggle_engine) (ObjectRegistry_new, toggle_storage 1)
        [C_Create (go_header toggle_object), C_Migrate 5 2, C_Create (go_header toggle_object\<lparr>oh_object_id := 6\<rparr>), C_Destroy 6] = (reg, cs') \<and>
      view_of reg 5 \<noteq> None \<and> view_of reg 6 = None"
proof -
  obtain reg cs' where run: "foldl (registry_call_step toggle_engine) (ObjectRegistry_new, toggle_storage 1)
        [C_Create (go_header toggle_object), C_Migrate 5 2, C_Create (go_header toggle_object\<lparr>oh_object_id := 6\<rparr>), C_Destroy 6] = (reg, cs')"
    by fastforce
  have "oh_object_id (go_header toggle_object) = 5" by (simp add: toggle_object_def)
  then show ?thesis
    using run registry_objects_typed [OF toggle_well_behaved run, of 5] registry_objects_typed [OF toggle_well_behaved run, of 6] by simp
qed

text \<open>C20: Object registry, the life of a view. \<open>Get\<close> calls back after it released its locks, so a view can
  outlive its object: a write through a view obtained before \<open>Destroy\<close> gives the destroyed object a
  component again although the registry no longer knows it, and destroying it again removes nothing.\<close>

theorem registry_stale_view:
  assumes "ObjectRegistry_wf reg" and "view_of reg i = Some v"
    and "ObjectRegistry_Destroy i reg cs = (reg', cs')"
  shows "view_of reg' i = None \<and>
      component (GameObject_WriteComponent v t d cs') i = [t \<mapsto> d] \<and>
      ObjectRegistry_Destroy i reg' (GameObject_WriteComponent v t d cs') =
        (reg', GameObject_WriteComponent v t d cs')"
  using stale_view_write [OF assms] by blast

theorem registry_stale_view_witness:
  "let (reg', cs') = ObjectRegistry_Destroy 5 toggle_registry (toggle_storage 1) in
      view_of reg' 5 = None \<and>
      component (GameObject_WriteComponent toggle_object 8 [1] cs') 5 = [8 \<mapsto> [1]] \<and>
      ObjectRegistry_Destroy 5 reg' (GameObject_WriteComponent toggle_object 8 [1] cs') =
        (reg', GameObject_WriteComponent toggle_object 8 [1] cs')"
  unfolding case_prod_unfold Let_def
  by (rule registry_stale_view [OF toggle_registry_wf toggle_view]) simp

end
