(* ===== verification/Plugin_Interface.thy ===== *)
theory Plugin_Interface
  imports Object_Registry
begin

section \<open>The plugin interface\<close>

text \<open>
  \<open>core/plugin_interface.h\<close>: \<open>IPlugin\<close> is an abstract class, so a plugin is a value of some type
  \<open>'p\<close> together with a table of its virtual methods, over some backend state \<open>'x\<close> (the runtime
  that executes the plugin). A method that may change the object returns it updated; \<open>Execute\<close>
  receives the view and the output vector by reference and reaches the component storage through
  the view. The virtual destructor is the last entry of the table. \<open>PluginFactory\<close> is the function
  \<open>Create\<close>.
\<close>

record ('p, 'x) IPlugin =
  ip_Initialize :: "'p \<Rightarrow> 'x \<Rightarrow> bool \<times> 'p \<times> 'x"
  ip_Shutdown :: "'p \<Rightarrow> 'x \<Rightarrow> 'p \<times> 'x"
  ip_Execute :: "GameObject \<Rightarrow> string \<Rightarrow> bytes \<Rightarrow> bytes \<Rightarrow> ComponentStorage \<Rightarrow> 'p \<Rightarrow> 'x \<Rightarrow>
    bool \<times> GameObject \<times> bytes \<times> ComponentStorage \<times> 'p \<times> 'x"
  ip_Clone :: "'p \<Rightarrow> 'x \<Rightarrow> 'p option \<times> 'x"
  ip_destructor :: "'p \<Rightarrow> 'x \<Rightarrow> 'x"

type_synonym ('p, 'x) PluginFactory = "string \<Rightarrow> u32 \<Rightarrow> 'x \<Rightarrow> 'p option \<times> 'x"

text \<open>
  The contract of a backend, in terms of the runtime resources (virtual machines, module instances)
  that plugins own: \<open>live x\<close> are the resources allocated in the backend, \<open>owns p\<close> those that belong
  to the plugin, \<open>good x\<close> says that nothing was used after its deletion or deleted twice so far,
  \<open>valid p\<close> is the class invariant and \<open>ready p\<close> says that the plugin is initialized.
\<close>

locale plugin_backend =
  fixes ops :: "('p, 'x) IPlugin"
    and create :: "('p, 'x) PluginFactory"
    and owns :: "'p \<Rightarrow> nat set"
    and live :: "'x \<Rightarrow> nat set"
    and good :: "'x \<Rightarrow> bool"
    and valid :: "'p \<Rightarrow> bool"
    and ready :: "'p \<Rightarrow> bool"
  assumes create_none: "create path v x = (None, x') \<Longrightarrow> good x \<Longrightarrow> live x' = live x \<and> good x'"
    and create_some: "create path v x = (Some p, x') \<Longrightarrow> good x \<Longrightarrow>
          live x' = live x \<and> good x' \<and> valid p \<and> owns p = {}"
    and initialize: "ip_Initialize ops p x = (ok, p', x') \<Longrightarrow> good x \<Longrightarrow> valid p \<Longrightarrow> owns p \<subseteq> live x \<Longrightarrow>
          good x' \<and> valid p' \<and> (ok \<longleftrightarrow> ready p') \<and> (\<not> ok \<longrightarrow> owns p' = {}) \<and>
          (owns p' - owns p) \<inter> live x = {} \<and> live x' = (live x - owns p) \<union> owns p'"
    and shutdown: "ip_Shutdown ops p x = (p', x') \<Longrightarrow> good x \<Longrightarrow> valid p \<Longrightarrow> owns p \<subseteq> live x \<Longrightarrow>
          good x' \<and> valid p' \<and> \<not> ready p' \<and> owns p' = {} \<and> live x' = live x - owns p"
    and execute: "ip_Execute ops obj action input out cs p x = (ok, obj', out', cs', p', x') \<Longrightarrow>
          good x \<Longrightarrow> valid p \<Longrightarrow> owns p \<subseteq> live x \<Longrightarrow>
          good x' \<and> valid p' \<and> (ready p' \<longleftrightarrow> ready p) \<and> owns p' = owns p \<and> live x' = live x"
    and clone_none: "ip_Clone ops p x = (None, x') \<Longrightarrow> good x \<Longrightarrow> good x' \<and> live x' = live x"
    and clone_some: "ip_Clone ops p x = (Some q, x') \<Longrightarrow> good x \<Longrightarrow>
          good x' \<and> valid q \<and> ready q \<and> owns q \<inter> live x = {} \<and> live x' = live x \<union> owns q"
    and destructor: "good x \<Longrightarrow> valid p \<Longrightarrow> owns p \<subseteq> live x \<Longrightarrow>
          good (ip_destructor ops p x) \<and> live (ip_destructor ops p x) = live x - owns p"
    and unready_owns: "valid p \<Longrightarrow> \<not> ready p \<Longrightarrow> owns p = {}"
begin

text \<open>Create a plugin and initialize it, and destroy it again when the initialization fails.\<close>

lemma create_initialize:
  assumes "good x" and "create path v x = (Some p, x1)" and "ip_Initialize ops p x1 = (ok, p', x2)"
  shows "good x2" and "valid p'" and "ok \<longleftrightarrow> ready p'" and "owns p' \<inter> live x = {}"
    and "live x2 = live x \<union> owns p'" and "\<not> ok \<Longrightarrow> owns p' = {}"
  using create_some [OF assms(2,1)] initialize [OF assms(3)] by auto

lemma create_initialize_fail:
  assumes "good x" and "create path v x = (Some p, x1)" and "ip_Initialize ops p x1 = (False, p', x2)"
  shows "good (ip_destructor ops p' x2)" and "live (ip_destructor ops p' x2) = live x"
  using create_initialize [OF assms] destructor [of x2 p'] by auto

lemma disjoint_after_clone:
  assumes "good x" and "ip_Clone ops p x = (Some q, x')" and "owns r \<subseteq> live x"
  shows "owns q \<inter> owns r = {}" and "owns r \<subseteq> live x'"
  using clone_some [OF assms(2,1)] assms(3) by auto

end

end
