(* ===== verification/Wasmedge_Plugin.thy ===== *)
theory Wasmedge_Plugin
  imports Plugin_Interface
begin

section \<open>The WasmEdge plugin\<close>

text \<open>
  \<open>plugin/wasmedge_plugin.h\<close> and \<open>plugin/wasmedge_plugin.cpp\<close>. The WasmEdge C API, CityHash and the
  guest program are not part of the repository: they are a parameter of the model, the record
  \<open>wasm_env\<close>. What the code does to the API is explicit: every call is an event of a trace, and the
  answers of the API are functions of the trace so far, so the model covers every behaviour of the
  runtime, including answers that change over time.

  A handle (a virtual machine or a module instance) is identified by the position in the trace of
  the call that created it. A memory instance belongs to its virtual machine and has its handle.
\<close>

subsection \<open>API calls, traces and the environment\<close>

datatype valtype = I32 | I64
datatype wvalue = ValI32 u32 | ValI64 u64
datatype host_fn = fn_GetCurrentObjectId | fn_GetComponent | fn_SetComponent

datatype wcall =
    StringCreateByCString string
  | StringDelete string
  | FunctionTypeCreate "valtype list" "valtype list"
  | FunctionTypeDelete "valtype list" "valtype list"
  | FunctionInstanceCreate host_fn
  | ModuleInstanceCreate "nat option"
  | ModuleInstanceAddFunction nat string "valtype list" "valtype list" host_fn
  | ModuleInstanceDelete nat
  | VMCreate "nat option"
  | VMDelete nat
  | VMLoadWasmFromFile nat string bool
  | VMValidate nat bool
  | VMRegisterModuleFromImport nat nat bool
  | VMInstantiate nat bool
  | VMGetActiveModule nat bool
  | ModuleInstanceFindMemory nat "nat option"
  | MemoryInstanceSetData nat bytes u32 u32 bool
  | MemoryInstanceGetData nat u32 u32 bool
  | CallingFrameGetMemoryInstance nat bool
  | VMExecute nat string "wvalue list"
  | VMExecuteReturn nat bool

text \<open>The latest call is the head of the trace.\<close>

type_synonym wtrace = "wcall list"

text \<open>
  The guest program as the host sees it: it returns an \<open>i32\<close>, it traps, or it calls one of the
  three host functions and goes on with the value that call returned.
\<close>

datatype guest =
    GReturn u32
  | GTrap
  | GGetCurrentObjectId "u64 \<Rightarrow> guest"
  | GGetComponent u64 u32 u32 u32 "u32 \<Rightarrow> guest"
  | GSetComponent u64 u32 u32 u32 "u32 \<Rightarrow> guest"

record wasm_env =
  we_VMCreate :: "wtrace \<Rightarrow> bool"
  we_ModuleInstanceCreate :: "wtrace \<Rightarrow> bool"
  we_VMLoadWasmFromFile :: "wtrace \<Rightarrow> nat \<Rightarrow> string \<Rightarrow> bool"
  we_VMValidate :: "wtrace \<Rightarrow> nat \<Rightarrow> bool"
  we_VMRegisterModuleFromImport :: "wtrace \<Rightarrow> nat \<Rightarrow> nat \<Rightarrow> bool"
  we_VMInstantiate :: "wtrace \<Rightarrow> nat \<Rightarrow> bool"
  we_VMGetActiveModule :: "wtrace \<Rightarrow> nat \<Rightarrow> bool"
  we_FindMemory :: "wtrace \<Rightarrow> nat \<Rightarrow> bool"
  we_FrameMemory :: "wtrace \<Rightarrow> nat \<Rightarrow> bool"
  we_SetData :: "wtrace \<Rightarrow> nat \<Rightarrow> bytes \<Rightarrow> u32 \<Rightarrow> u32 \<Rightarrow> bool"
  we_GetData :: "wtrace \<Rightarrow> nat \<Rightarrow> u32 \<Rightarrow> u32 \<Rightarrow> (nat \<Rightarrow> u8) option"
  we_VMExecute :: "wtrace \<Rightarrow> nat \<Rightarrow> string \<Rightarrow> wvalue list \<Rightarrow> guest"
  we_CityHash64 :: "string \<Rightarrow> u64"

text \<open>\<open>g_host_ctx\<close>, the thread-local host context, and the state of the runtime.\<close>

record HostContext =
  hc_storage :: storage_ptr
  hc_object_id :: u64

record wasm_world =
  ww_trace :: wtrace
  ww_ctx :: HostContext

definition emit :: "wcall \<Rightarrow> wasm_world \<Rightarrow> wasm_world" where
  "emit c w = w\<lparr>ww_trace := c # ww_trace w\<rparr>"

definition emits :: "wcall list \<Rightarrow> wasm_world \<Rightarrow> wasm_world" where
  "emits cs w = fold emit cs w"

subsection \<open>Host functions\<close>

definition HostGetCurrentObjectId :: "wasm_world \<Rightarrow> u64" where
  "HostGetCurrentObjectId w = hc_object_id (ww_ctx w)"

definition HostGetComponent ::
  "wasm_env \<Rightarrow> nat \<Rightarrow> u64 \<Rightarrow> u32 \<Rightarrow> u32 \<Rightarrow> u32 \<Rightarrow> ComponentStorage \<Rightarrow> wasm_world \<Rightarrow> u32 \<times> wasm_world" where
  "HostGetComponent env vm object_id type buf_ptr buf_cap cs w =
     (if hc_storage (ww_ctx w) = nullptr then (- 1, w)
      else ComponentStorage_Read cs object_id type (\<lambda>data.
        case data of
          None \<Rightarrow> (0, w)
        | Some d \<Rightarrow>
            (let len = size_u32 d in
             if len > buf_cap then (- 2, w)
             else if len > 0 then
               (let memory = we_FrameMemory env (ww_trace w) vm;
                    w1 = emit (CallingFrameGetMemoryInstance vm memory) w
                in if \<not> memory then (- 3, w1)
                   else let ok = we_SetData env (ww_trace w1) vm (take (unat len) d) buf_ptr len;
                            w2 = emit (MemoryInstanceSetData vm (take (unat len) d) buf_ptr len ok) w1
                        in if \<not> ok then (- 3, w2) else (len, w2))
             else (len, w))))"

definition HostSetComponent ::
  "wasm_env \<Rightarrow> nat \<Rightarrow> u64 \<Rightarrow> u32 \<Rightarrow> u32 \<Rightarrow> u32 \<Rightarrow> ComponentStorage \<Rightarrow> wasm_world \<Rightarrow>
     u32 \<times> ComponentStorage \<times> wasm_world" where
  "HostSetComponent env vm object_id type buf_ptr len cs w =
     (if hc_storage (ww_ctx w) = nullptr then (0, cs, w)
      else if len > 0 then
        (let memory = we_FrameMemory env (ww_trace w) vm;
             w1 = emit (CallingFrameGetMemoryInstance vm memory) w
         in if \<not> memory then (0, cs, w1)
            else let res = we_GetData env (ww_trace w1) vm buf_ptr len;
                     w2 = emit (MemoryInstanceGetData vm buf_ptr len (res \<noteq> None)) w1
                 in (case res of
                       None \<Rightarrow> (0, cs, w2)
                     | Some mem \<Rightarrow>
                         (1, ComponentStorage_Write object_id type (map mem [0 ..< unat len]) cs, w2)))
      else (1, ComponentStorage_Write object_id type [] cs, w))"

text \<open>The run of a guest: what \<open>WasmEdge_VMExecute\<close> does between its call and its return.\<close>

primrec run_guest ::
  "wasm_env \<Rightarrow> nat \<Rightarrow> guest \<Rightarrow> ComponentStorage \<Rightarrow> wasm_world \<Rightarrow>
     u32 option \<times> ComponentStorage \<times> wasm_world" where
  "run_guest env vm (GReturn r) cs w = (Some r, cs, w)"
| "run_guest env vm GTrap cs w = (None, cs, w)"
| "run_guest env vm (GGetCurrentObjectId k) cs w = run_guest env vm (k (HostGetCurrentObjectId w)) cs w"
| "run_guest env vm (GGetComponent i t ptr cap k) cs w =
     (case HostGetComponent env vm i t ptr cap cs w of (r, w') \<Rightarrow> run_guest env vm (k r) cs w')"
| "run_guest env vm (GSetComponent i t ptr len k) cs w =
     (case HostSetComponent env vm i t ptr len cs w of (r, cs', w') \<Rightarrow> run_guest env vm (k r) cs' w')"

subsection \<open>The host module\<close>

definition add_host_function ::
  "nat \<Rightarrow> string \<Rightarrow> valtype list \<Rightarrow> valtype list \<Rightarrow> host_fn \<Rightarrow> wasm_world \<Rightarrow> wasm_world" where
  "add_host_function module name ins outs f =
     emits [FunctionTypeCreate ins outs, FunctionInstanceCreate f, FunctionTypeDelete ins outs,
           StringCreateByCString name, ModuleInstanceAddFunction module name ins outs f,
           StringDelete name]"

definition CreateHostModule :: "wasm_env \<Rightarrow> wasm_world \<Rightarrow> nat option \<times> wasm_world" where
  "CreateHostModule env w =
     (let w1 = emit (StringCreateByCString ''host'') w;
          module = (if we_ModuleInstanceCreate env (ww_trace w1) then Some (length (ww_trace w1)) else None);
          w2 = emit (ModuleInstanceCreate module) w1;
          w3 = emit (StringDelete ''host'') w2
      in case module of
           None \<Rightarrow> (None, w3)
         | Some m \<Rightarrow>
             (let w4 = add_host_function m ''get_current_object_id'' [] [I64] fn_GetCurrentObjectId w3;
                  w5 = add_host_function m ''get_component'' [I64, I32, I32, I32] [I32] fn_GetComponent w4;
                  w6 = add_host_function m ''set_component'' [I64, I32, I32, I32] [I32] fn_SetComponent w5
              in (Some m, w6)))"

subsection \<open>The plugin object\<close>

record WasmEdgeState =
  ws_vm :: "nat option"
  ws_memory :: "nat option"
  ws_host_module :: "nat option"

record WasmEdgePlugin =
  wp_state :: "WasmEdgeState option"
  wp_path :: string
  wp_schema_version :: u32
  wp_initialized :: bool

definition WasmEdgePlugin_new :: "string \<Rightarrow> u32 \<Rightarrow> WasmEdgePlugin" where
  "WasmEdgePlugin_new path schema_version =
     \<lparr>wp_state = None, wp_path = path, wp_schema_version = schema_version, wp_initialized = False\<rparr>"

text \<open>The clean-up of a failed initialization: delete the host module, delete the VM, drop the state.\<close>

definition Initialize_abort ::
  "nat \<Rightarrow> nat \<Rightarrow> WasmEdgePlugin \<Rightarrow> wasm_world \<Rightarrow> bool \<times> WasmEdgePlugin \<times> wasm_world" where
  "Initialize_abort module vm p w =
     (False, p\<lparr>wp_state := None\<rparr>, emits [ModuleInstanceDelete module, VMDelete vm] w)"

text \<open>Find the exported memory of the instantiated module, if it has one.\<close>

definition Initialize_memory :: "wasm_env \<Rightarrow> nat \<Rightarrow> wasm_world \<Rightarrow> nat option \<times> wasm_world" where
  "Initialize_memory env vm w =
     (let active = we_VMGetActiveModule env (ww_trace w) vm;
          w1 = emit (VMGetActiveModule vm active) w
      in if active then
           (let w2 = emit (StringCreateByCString ''memory'') w1;
                memory = (if we_FindMemory env (ww_trace w2) vm then Some vm else None)
            in (memory, emits [ModuleInstanceFindMemory vm memory, StringDelete ''memory''] w2))
         else (None, w1))"

text \<open>From loading the file on: the VM and the host module exist.\<close>

definition Initialize_module ::
  "wasm_env \<Rightarrow> nat \<Rightarrow> nat \<Rightarrow> WasmEdgePlugin \<Rightarrow> wasm_world \<Rightarrow> bool \<times> WasmEdgePlugin \<times> wasm_world" where
  "Initialize_module env vm module p w0 =
     (let load = we_VMLoadWasmFromFile env (ww_trace w0) vm (wp_path p);
          w1 = emit (VMLoadWasmFromFile vm (wp_path p) load) w0
      in if \<not> load then Initialize_abort module vm p w1 else
      let valid = we_VMValidate env (ww_trace w1) vm;
          w2 = emit (VMValidate vm valid) w1
      in if \<not> valid then Initialize_abort module vm p w2 else
      let reg = we_VMRegisterModuleFromImport env (ww_trace w2) vm module;
          w3 = emit (VMRegisterModuleFromImport vm module reg) w2
      in if \<not> reg then Initialize_abort module vm p w3 else
      let inst = we_VMInstantiate env (ww_trace w3) vm;
          w4 = emit (VMInstantiate vm inst) w3
      in if \<not> inst then Initialize_abort module vm p w4 else
      let (memory, w5) = Initialize_memory env vm w4
      in (True,
          p\<lparr>wp_state := Some \<lparr>ws_vm = Some vm, ws_memory = memory, ws_host_module = Some module\<rparr>,
            wp_initialized := True\<rparr>,
          w5))"

definition WasmEdgePlugin_Initialize ::
  "wasm_env \<Rightarrow> WasmEdgePlugin \<Rightarrow> wasm_world \<Rightarrow> bool \<times> WasmEdgePlugin \<times> wasm_world" where
  "WasmEdgePlugin_Initialize env p w =
     (if wp_initialized p then (True, p, w)
      else let vm = (if we_VMCreate env (ww_trace w) then Some (length (ww_trace w)) else None);
               w1 = emit (VMCreate vm) w
           in case vm of
                None \<Rightarrow> (False, p\<lparr>wp_state := None\<rparr>, w1)
              | Some v \<Rightarrow>
                  (case CreateHostModule env w1 of
                     (None, w2) \<Rightarrow> (False, p\<lparr>wp_state := None\<rparr>, emit (VMDelete v) w2)
                   | (Some m, w2) \<Rightarrow> Initialize_module env v m p w2))"

definition WasmEdgePlugin_ShutdownImpl :: "WasmEdgePlugin \<Rightarrow> wasm_world \<Rightarrow> WasmEdgePlugin \<times> wasm_world" where
  "WasmEdgePlugin_ShutdownImpl p w =
     (case wp_state p of
        None \<Rightarrow> (p\<lparr>wp_initialized := False\<rparr>, w)
      | Some s \<Rightarrow>
          (p\<lparr>wp_state := Some \<lparr>ws_vm = None, ws_memory = None, ws_host_module = None\<rparr>,
             wp_initialized := False\<rparr>,
           emits ((case ws_vm s of None \<Rightarrow> [] | Some v \<Rightarrow> [VMDelete v]) @
                 (case ws_host_module s of None \<Rightarrow> [] | Some m \<Rightarrow> [ModuleInstanceDelete m])) w))"

definition WasmEdgePlugin_Shutdown :: "WasmEdgePlugin \<Rightarrow> wasm_world \<Rightarrow> WasmEdgePlugin \<times> wasm_world" where
  "WasmEdgePlugin_Shutdown p w = WasmEdgePlugin_ShutdownImpl p w"

text \<open>The destructor shuts the plugin down; the object is gone afterwards.\<close>

definition WasmEdgePlugin_destructor :: "WasmEdgePlugin \<Rightarrow> wasm_world \<Rightarrow> wasm_world" where
  "WasmEdgePlugin_destructor p w = snd (WasmEdgePlugin_ShutdownImpl p w)"

definition input_offset :: u32 where
  "input_offset = 0"

definition output_offset :: u32 where
  "output_offset = 4096"

definition output_cap :: u32 where
  "output_cap = 4096"

text \<open>\<open>output.resize(n)\<close>.\<close>

definition resize :: "nat \<Rightarrow> bytes \<Rightarrow> bytes" where
  "resize n xs = take n xs @ replicate (n - length xs) 0"

text \<open>What \<open>Execute\<close> does with the value the guest returned.\<close>

definition Execute_result ::
  "wasm_env \<Rightarrow> nat \<Rightarrow> nat option \<Rightarrow> u32 \<Rightarrow> bytes \<Rightarrow> wasm_world \<Rightarrow> bool \<times> bytes \<times> wasm_world" where
  "Execute_result env vm memory ret output w =
     (if sint ret < 0 then (False, output, w)
      else if sint ret > 0 then
        (if sint ret > sint output_cap then (False, output, w)
         else let out1 = resize (unat ret) output in
              (case memory of
                 None \<Rightarrow> (True, [], w)
               | Some mem \<Rightarrow>
                   (let res = we_GetData env (ww_trace w) mem output_offset ret;
                        w1 = emit (MemoryInstanceGetData mem output_offset ret (res \<noteq> None)) w
                    in case res of
                         None \<Rightarrow> (False, out1, w1)
                       | Some bytes \<Rightarrow> (True, map bytes [0 ..< unat ret], w1))))
      else (True, [], w))"

text \<open>From the call of the guest on: the context is set and the input is in the guest's memory.\<close>

definition Execute_call ::
  "wasm_env \<Rightarrow> nat \<Rightarrow> nat option \<Rightarrow> string \<Rightarrow> bytes \<Rightarrow> bytes \<Rightarrow> ComponentStorage \<Rightarrow> wasm_world \<Rightarrow>
     bool \<times> bytes \<times> ComponentStorage \<times> wasm_world" where
  "Execute_call env vm memory action input output cs w =
     (let w1 = emit (StringCreateByCString ''execute'') w;
          params = [ValI64 (we_CityHash64 env action), ValI32 input_offset, ValI32 (size_u32 input),
                    ValI32 output_offset, ValI32 output_cap];
          w2 = emit (VMExecute vm ''execute'' params) w1
      in case run_guest env vm (we_VMExecute env (ww_trace w2) vm ''execute'' params) cs w2 of
           (ret, cs', w3) \<Rightarrow>
             (let w4 = emits [VMExecuteReturn vm (ret \<noteq> None), StringDelete ''execute''] w3
              in case ret of
                   None \<Rightarrow> (False, output, cs', w4)
                 | Some r \<Rightarrow>
                     (case Execute_result env vm memory r output w4 of
                        (ok, output', w5) \<Rightarrow> (ok, output', cs', w5))))"

definition WasmEdgePlugin_Execute ::
  "wasm_env \<Rightarrow> GameObject \<Rightarrow> string \<Rightarrow> bytes \<Rightarrow> bytes \<Rightarrow> ComponentStorage \<Rightarrow> WasmEdgePlugin \<Rightarrow> wasm_world \<Rightarrow>
     bool \<times> GameObject \<times> bytes \<times> ComponentStorage \<times> WasmEdgePlugin \<times> wasm_world" where
  "WasmEdgePlugin_Execute env obj action input output cs p w =
     (case (wp_initialized p, Option.bind (wp_state p) ws_vm) of
        (True, Some vm) \<Rightarrow>
          (let w1 = w\<lparr>ww_ctx := \<lparr>hc_storage = go_storage obj,
                                  hc_object_id = oh_object_id (go_header obj)\<rparr>\<rparr>;
               memory = Option.bind (wp_state p) ws_memory
           in case (if input = [] then None else memory) of
                None \<Rightarrow>
                  (case Execute_call env vm memory action input output cs w1 of
                     (ok, output', cs', w') \<Rightarrow> (ok, obj, output', cs', p, w'))
              | Some mem \<Rightarrow>
                  if length input > unat output_offset then (False, obj, output, cs, p, w1)
                  else
                    (let ok = we_SetData env (ww_trace w1) mem input input_offset (size_u32 input);
                         w2 = emit (MemoryInstanceSetData mem input input_offset (size_u32 input) ok) w1
                     in if \<not> ok then (False, obj, output, cs, p, w2)
                        else case Execute_call env vm memory action input output cs w2 of
                               (ok, output', cs', w') \<Rightarrow> (ok, obj, output', cs', p, w')))
      | _ \<Rightarrow> (False, obj, output, cs, p, w))"

text \<open>A clone that cannot be initialized is destroyed again.\<close>

definition WasmEdgePlugin_Clone ::
  "wasm_env \<Rightarrow> WasmEdgePlugin \<Rightarrow> wasm_world \<Rightarrow> WasmEdgePlugin option \<times> wasm_world" where
  "WasmEdgePlugin_Clone env p w =
     (case WasmEdgePlugin_Initialize env (WasmEdgePlugin_new (wp_path p) (wp_schema_version p)) w of
        (ok, cloned, w') \<Rightarrow>
          if \<not> ok then (None, WasmEdgePlugin_destructor cloned w') else (Some cloned, w'))"

definition WasmEdgePluginFactory_Create ::
  "string \<Rightarrow> u32 \<Rightarrow> wasm_world \<Rightarrow> WasmEdgePlugin option \<times> wasm_world" where
  "WasmEdgePluginFactory_Create path schema_version w = (Some (WasmEdgePlugin_new path schema_version), w)"

definition WasmEdgePlugin_ops :: "wasm_env \<Rightarrow> (WasmEdgePlugin, wasm_world) IPlugin" where
  "WasmEdgePlugin_ops env =
     \<lparr>ip_Initialize = WasmEdgePlugin_Initialize env,
      ip_Shutdown = WasmEdgePlugin_Shutdown,
      ip_Execute = WasmEdgePlugin_Execute env,
      ip_Clone = WasmEdgePlugin_Clone env,
      ip_destructor = WasmEdgePlugin_destructor\<rparr>"

end
