(* ===== verification/Plugin_Heap.thy ===== *)
theory Plugin_Heap
  imports Plugin_Interface
begin

section \<open>Shared plugin objects\<close>

text \<open>
  The module manager keeps plugins in \<open>std::shared_ptr\<close>s. A shared pointer is the address of a cell
  with the object and its reference count; dropping the last reference runs the destructor and frees
  the cell. The backend state (the runtime) sits beside the cells, because the destructor and the
  other virtual methods act on it.
\<close>

record 'p shared_obj =
  so_count :: nat
  so_obj :: 'p

record ('p, 'x) plugin_heap =
  ph_cells :: "(nat, 'p shared_obj) umap"
  ph_next :: nat
  ph_backend :: 'x

definition plugin_heap_new :: "'x \<Rightarrow> ('p, 'x) plugin_heap" where
  "plugin_heap_new x = \<lparr>ph_cells = um_empty, ph_next = 0, ph_backend = x\<rparr>"

definition cell :: "('p, 'x) plugin_heap \<Rightarrow> nat \<Rightarrow> 'p shared_obj option" where
  "cell h a = um_find (ph_cells h) a"

text \<open>Turning a \<open>unique_ptr\<close> into a \<open>shared_ptr\<close>.\<close>

definition make_shared :: "'p \<Rightarrow> ('p, 'x) plugin_heap \<Rightarrow> nat \<times> ('p, 'x) plugin_heap" where
  "make_shared p h =
     (ph_next h, h\<lparr>ph_cells := um_assign (ph_next h) \<lparr>so_count = 1, so_obj = p\<rparr> (ph_cells h),
                   ph_next := Suc (ph_next h)\<rparr>)"

text \<open>Copying and dropping a reference.\<close>

definition retain :: "nat \<Rightarrow> ('p, 'x) plugin_heap \<Rightarrow> ('p, 'x) plugin_heap" where
  "retain a h =
     (case cell h a of
        None \<Rightarrow> h
      | Some c \<Rightarrow> h\<lparr>ph_cells := um_assign a (c\<lparr>so_count := so_count c + 1\<rparr>) (ph_cells h)\<rparr>)"

definition release :: "('p, 'x) IPlugin \<Rightarrow> nat \<Rightarrow> ('p, 'x) plugin_heap \<Rightarrow> ('p, 'x) plugin_heap" where
  "release ops a h =
     (case cell h a of
        None \<Rightarrow> h
      | Some c \<Rightarrow>
          if so_count c > 1
          then h\<lparr>ph_cells := um_assign a (c\<lparr>so_count := so_count c - 1\<rparr>) (ph_cells h)\<rparr>
          else h\<lparr>ph_cells := um_erase a (ph_cells h),
                 ph_backend := ip_destructor ops (so_obj c) (ph_backend h)\<rparr>)"

text \<open>\<open>m[k] = std::move(ptr)\<close> and \<open>m.erase(k)\<close> on a map of shared pointers drop what the slot held.\<close>

definition slot_assign ::
  "('p, 'x) IPlugin \<Rightarrow> 'k \<Rightarrow> nat \<Rightarrow> ('k, nat) umap \<Rightarrow> ('p, 'x) plugin_heap \<Rightarrow>
     ('k, nat) umap \<times> ('p, 'x) plugin_heap" where
  "slot_assign ops k a m h =
     (um_assign k a m, case um_find m k of None \<Rightarrow> h | Some old \<Rightarrow> release ops old h)"

definition slot_erase ::
  "('p, 'x) IPlugin \<Rightarrow> 'k \<Rightarrow> ('k, nat) umap \<Rightarrow> ('p, 'x) plugin_heap \<Rightarrow>
     ('k, nat) umap \<times> ('p, 'x) plugin_heap" where
  "slot_erase ops k m h =
     (um_erase k m, case um_find m k of None \<Rightarrow> h | Some old \<Rightarrow> release ops old h)"

text \<open>\<open>ptr->Shutdown()\<close> through a shared pointer.\<close>

definition heap_shutdown :: "('p, 'x) IPlugin \<Rightarrow> nat \<Rightarrow> ('p, 'x) plugin_heap \<Rightarrow> ('p, 'x) plugin_heap" where
  "heap_shutdown ops a h =
     (case cell h a of
        None \<Rightarrow> h
      | Some c \<Rightarrow>
          (case ip_Shutdown ops (so_obj c) (ph_backend h) of
             (p', x') \<Rightarrow> h\<lparr>ph_cells := um_assign a (c\<lparr>so_obj := p'\<rparr>) (ph_cells h), ph_backend := x'\<rparr>))"

subsection \<open>Cells after each operation\<close>

lemma cell_new [simp]: "cell (plugin_heap_new x) a = None"
  by (simp add: cell_def plugin_heap_new_def)

lemma cell_make_shared:
  "make_shared p h = (a, h') \<Longrightarrow> a = ph_next h \<and> ph_next h' = Suc (ph_next h) \<and> ph_backend h' = ph_backend h \<and>
     cell h' = (cell h)(a \<mapsto> \<lparr>so_count = 1, so_obj = p\<rparr>)"
  by (auto simp: make_shared_def cell_def fun_eq_iff)

lemma cell_retain:
  "cell (retain a h) = (cell h)(a := map_option (\<lambda>c. c\<lparr>so_count := so_count c + 1\<rparr>) (cell h a))"
  by (auto simp: retain_def cell_def fun_eq_iff split: option.split)

text \<open>
  The references to a cell that exist, and the objects without their counts. Retaining and releasing
  change the count of one cell; releasing the last one takes the object away.
\<close>

definition refs :: "('p, 'x) plugin_heap \<Rightarrow> nat \<Rightarrow> nat" where
  "refs h a = (case cell h a of None \<Rightarrow> 0 | Some c \<Rightarrow> so_count c)"

definition objects :: "('p, 'x) plugin_heap \<Rightarrow> nat \<Rightarrow> 'p option" where
  "objects h a = map_option so_obj (cell h a)"

lemma cells_eq:
  assumes "cell h' = cell h"
  shows "refs h' = refs h" and "objects h' = objects h"
  using assms by (simp_all add: refs_def [abs_def] objects_def [abs_def])

lemma cell_release:
  assumes "cell h a = Some c" and "0 < so_count c"
  shows "cell (release ops a h) = (cell h)(a := (if so_count c = 1 then None else Some (c\<lparr>so_count := so_count c - 1\<rparr>)))"
    and "ph_next (release ops a h) = ph_next h"
    and "ph_backend (release ops a h) = (if so_count c = 1 then ip_destructor ops (so_obj c) (ph_backend h) else ph_backend h)"
  using assms by (auto simp: release_def cell_def fun_eq_iff)

lemma retain_rest: "ph_next (retain a h) = ph_next h" "ph_backend (retain a h) = ph_backend h"
  by (simp_all add: retain_def split: option.split)

lemma retain_cells:
  assumes "cell h a = Some c"
  shows "refs (retain a h) = (refs h)(a := Suc (refs h a))" and "objects (retain a h) = objects h"
  using assms by (auto simp: refs_def objects_def cell_retain fun_eq_iff)

lemma release_cells:
  assumes "cell h a = Some c" and "0 < so_count c"
  shows "refs (release ops a h) = (refs h)(a := refs h a - 1)" and "objects (release ops a h) \<subseteq>\<^sub>m objects h"
  using assms by (auto simp: refs_def objects_def cell_release [OF assms] fun_eq_iff map_le_def split: if_splits)

subsection \<open>Heap invariant\<close>

text \<open>
  Every cell has a reference, and the runtime holds exactly the resources of the cells and those in
  \<open>ext\<close>, which belong to plugins outside the heap. No resource has two owners.
\<close>

context plugin_backend
begin

definition heap_ok :: "nat set \<Rightarrow> ('p, 'x) plugin_heap \<Rightarrow> bool" where
  "heap_ok ext h \<longleftrightarrow> good (ph_backend h) \<and>
     (\<forall>a c. cell h a = Some c \<longrightarrow> a < ph_next h \<and> 0 < so_count c \<and> valid (so_obj c) \<and> owns (so_obj c) \<inter> ext = {}) \<and>
     (\<forall>a b c d. a \<noteq> b \<longrightarrow> cell h a = Some c \<longrightarrow> cell h b = Some d \<longrightarrow>
        owns (so_obj c) \<inter> owns (so_obj d) = {}) \<and>
     live (ph_backend h) = ext \<union> (\<Union>c \<in> ran (cell h). owns (so_obj c))"

lemma heap_okD:
  assumes "heap_ok ext h" and "cell h a = Some c"
  shows "good (ph_backend h)" and "a < ph_next h" and "0 < so_count c" and "valid (so_obj c)"
    and "owns (so_obj c) \<inter> ext = {}" and "owns (so_obj c) \<subseteq> live (ph_backend h)"
  using assms by (auto simp: heap_ok_def intro: ranI)

lemma heap_ok_rest:
  assumes "heap_ok ext h"
  shows "good (ph_backend h)" and "ext \<subseteq> live (ph_backend h)"
  using assms by (auto simp: heap_ok_def)

lemma ran_remove:
  assumes "\<And>a b c d. a \<noteq> b \<Longrightarrow> m a = Some c \<Longrightarrow> m b = Some d \<Longrightarrow> f c \<inter> f d = {}" and "m a = Some c"
  shows "(\<Union>d \<in> ran (m(a := None)). f d) = (\<Union>d \<in> ran m. f d) - f c"
proof -
  define R where "R = {d. \<exists>b. b \<noteq> a \<and> m b = Some d}"
  have "ran (m(a := None)) = R"
    by (auto simp: ran_def R_def split: if_splits)
  moreover have "ran m = insert c R"
    using assms(2) by (auto simp: ran_def R_def) (metis option.inject)
  moreover have "f d \<inter> f c = {}" if "d \<in> R" for d
    using that assms(1) [of _ a d c] assms(2) by (auto simp: R_def)
  then have "(\<Union>d \<in> R. f d) - f c = (\<Union>d \<in> R. f d)" by blast
  ultimately show ?thesis by auto
qed

lemma heap_ok_fresh: "heap_ok ext h \<Longrightarrow> cell h (ph_next h) = None"
  by (cases "cell h (ph_next h)") (auto dest: heap_okD(2))

text \<open>A new plugin enters the heap.\<close>

lemma heap_ok_make_shared:
  assumes "heap_ok ext h" and "good x" and "valid p"
    and "owns p \<inter> live (ph_backend h) = {}" and "live x = live (ph_backend h) \<union> owns p"
    and "make_shared p (h\<lparr>ph_backend := x\<rparr>) = (a, h')"
  shows "heap_ok ext h'" and "cell h' = (cell h)(a \<mapsto> \<lparr>so_count = 1, so_obj = p\<rparr>)" and "cell h a = None"
proof -
  have h': "a = ph_next h" "ph_next h' = Suc (ph_next h)" "ph_backend h' = x"
    "cell h' = (cell h)(a \<mapsto> \<lparr>so_count = 1, so_obj = p\<rparr>)"
    using cell_make_shared [OF assms(6)] by (simp_all add: cell_def [abs_def])
  then show cells: "cell h' = (cell h)(a \<mapsto> \<lparr>so_count = 1, so_obj = p\<rparr>)" by simp
  show none: "cell h a = None" using heap_ok_fresh [OF assms(1)] h'(1) by simp
  have "owns p \<inter> ext = {}" and "\<And>b d. cell h b = Some d \<Longrightarrow> owns p \<inter> owns (so_obj d) = {}"
    using assms(1,4) by (auto simp: heap_ok_def intro: ranI)
  moreover have "ran (cell h') = insert \<lparr>so_count = 1, so_obj = p\<rparr> (ran (cell h))"
    using none cells by (simp add: ran_map_upd)
  ultimately show "heap_ok ext h'"
    using assms(1-3,5) h' unfolding heap_ok_def
    by (auto simp: less_Suc_eq)
qed

text \<open>One cell changes: its object gives up resources, and the cell goes with the last reference.\<close>

lemma heap_ok_update:
  assumes "heap_ok ext h" and "cell h a = Some c" and "cell h' = (cell h)(a := r)" and "ph_next h' = ph_next h"
    and "good (ph_backend h')"
    and "case r of None \<Rightarrow> live (ph_backend h') = live (ph_backend h) - owns (so_obj c)
         | Some c' \<Rightarrow> 0 < so_count c' \<and> valid (so_obj c') \<and> owns (so_obj c') \<subseteq> owns (so_obj c) \<and>
             live (ph_backend h') = live (ph_backend h) - owns (so_obj c) \<union> owns (so_obj c')"
  shows "heap_ok ext h'"
proof -
  note c = heap_okD [OF assms(1,2)]
  have disj: "owns (so_obj d) \<inter> owns (so_obj c) = {}" if "b \<noteq> a" "cell h b = Some d" for b d
    using assms(1,2) that unfolding heap_ok_def by blast
  have others: "(\<Union>d \<in> ran ((cell h)(a := None)). owns (so_obj d)) = (\<Union>d \<in> ran (cell h). owns (so_obj d)) - owns (so_obj c)"
    using assms(1,2) by (intro ran_remove) (auto simp: heap_ok_def)
  show ?thesis
  proof (cases r)
    case None
    have "ext - owns (so_obj c) = ext" using c(5) by blast
    then have "live (ph_backend h') = ext \<union> (\<Union>d \<in> ran (cell h'). owns (so_obj d))"
      using assms(1,3,6) None others by (simp add: heap_ok_def Un_Diff)
    then show ?thesis
      using assms(1,3,4,5) None unfolding heap_ok_def by auto
  next
    case (Some c')
    have "ran (cell h') = insert c' (ran ((cell h)(a := None)))"
      unfolding assms(3) Some ran_def by auto
    then have live: "(\<Union>d \<in> ran (cell h'). owns (so_obj d)) = (\<Union>d \<in> ran (cell h). owns (so_obj d)) - owns (so_obj c) \<union> owns (so_obj c')"
      using others by auto
    have new: "0 < so_count c'" "valid (so_obj c')" "owns (so_obj c') \<subseteq> owns (so_obj c)" using assms(6) Some by simp_all
    have cells: "b < ph_next h' \<and> 0 < so_count d \<and> valid (so_obj d) \<and> owns (so_obj d) \<inter> ext = {}" if "cell h' b = Some d" for b d
      using that heap_okD [OF assms(1), of b d] c new assms(3,4) Some by (auto split: if_splits)
    have "owns (so_obj d) \<inter> owns (so_obj e) = {}" if "b \<noteq> b'" "cell h' b = Some d" "cell h' b' = Some e" for b b' d e
      using that assms(1,3) Some new(3) disj [of b d] disj [of b' e] unfolding heap_ok_def
      by (cases "b = a"; cases "b' = a") auto
    moreover have "live (ph_backend h') = ext \<union> (\<Union>d \<in> ran (cell h'). owns (so_obj d))"
      using assms(1,6) Some c(5) unfolding live heap_ok_def by auto
    ultimately show ?thesis
      using cells assms(5) unfolding heap_ok_def by blast
  qed
qed

text \<open>A reference is copied or dropped, and a plugin shut down.\<close>

lemma heap_ok_retain:
  assumes "heap_ok ext h" and "cell h a = Some c"
  shows "heap_ok ext (retain a h)"
proof -
  note c = heap_okD [OF assms]
  have "cell (retain a h) = (cell h)(a := Some (c\<lparr>so_count := so_count c + 1\<rparr>))" using assms(2) by (simp add: cell_retain)
  then show ?thesis
    by (rule heap_ok_update [OF assms]) (use c in \<open>auto simp: retain_rest\<close>)
qed

lemma heap_ok_release:
  assumes "heap_ok ext h" and "cell h a = Some c"
  shows "heap_ok ext (release ops a h)"
proof -
  note c = heap_okD [OF assms]
  show ?thesis
    by (rule heap_ok_update [OF assms cell_release(1,2) [OF assms(2) c(3)]])
      (use c destructor [OF c(1,4,6)] in \<open>auto simp: cell_release(3) [OF assms(2) c(3)]\<close>)
qed

lemma heap_ok_shutdown:
  assumes "heap_ok ext h" and "cell h a = Some c"
  shows "heap_ok ext (heap_shutdown ops a h)" and "refs (heap_shutdown ops a h) = refs h"
    and "b \<noteq> a \<Longrightarrow> objects (heap_shutdown ops a h) b = objects h b"
    and "\<exists>c'. cell (heap_shutdown ops a h) a = Some c'"
proof -
  note c = heap_okD [OF assms]
  obtain p' x' where sd: "ip_Shutdown ops (so_obj c) (ph_backend h) = (p', x')" by fastforce
  note s = shutdown [OF sd c(1,4,6)]
  let ?h' = "heap_shutdown ops a h"
  have h': "cell ?h' = (cell h)(a := Some (c\<lparr>so_obj := p'\<rparr>))" "ph_next ?h' = ph_next h" "ph_backend ?h' = x'"
    using assms(2) sd by (auto simp: heap_shutdown_def cell_def fun_eq_iff)
  show "heap_ok ext ?h'"
    by (rule heap_ok_update [OF assms h'(1,2)]) (use c s h'(3) in auto)
  show "refs ?h' = refs h" "b \<noteq> a \<Longrightarrow> objects ?h' b = objects h b" "\<exists>c'. cell ?h' a = Some c'"
    using h'(1) assms(2) by (auto simp: refs_def objects_def fun_eq_iff)
qed

text \<open>
  The backend gains or loses resources outside the heap: a plugin that the heap does not hold takes
  resources, gives them up or just runs.
\<close>

lemma heap_ok_backend:
  assumes "heap_ok ext h" and "good x" and "live x = live (ph_backend h) - gone \<union> new"
    and "gone \<subseteq> ext" and "new \<inter> live (ph_backend h) = {}" and "cell h' = cell h" and "ph_next h' = ph_next h" and "ph_backend h' = x"
  shows "heap_ok (ext - gone \<union> new) h'"
proof -
  have "owns (so_obj c) \<inter> (ext - gone \<union> new) = {}" if "cell h a = Some c" for a c
    using heap_okD(5,6) [OF assms(1) that] assms(5) by blast
  moreover have "(\<Union>c \<in> ran (cell h). owns (so_obj c)) \<inter> gone = {}"
    using heap_okD(5) [OF assms(1)] assms(4) by (fastforce simp: ran_def)
  ultimately show ?thesis
    using assms unfolding heap_ok_def by auto
qed

end

end
