(* ===== verification/Module_Manager.thy ===== *)
theory Module_Manager
  imports Plugin_Heap
begin

section \<open>The module manager\<close>

text \<open>
  \<open>core/module_manager.h\<close> and \<open>core/module_manager.cpp\<close>: loading, hot reload, rollback and unload
  of named modules. The manager holds shared pointers, so its operations act on the manager and on
  the heap of shared plugin objects. Calling \<open>Load\<close> or \<open>HotReload\<close> before \<open>Initialize\<close> dereferences
  a null factory; this is the error \<open>NullFactory\<close>.
\<close>

record ModuleConfig =
  mc_name :: string
  mc_path :: string
  mc_schema_version :: u32

record ('p, 'x) ModuleManager =
  mm_factory :: "('p, 'x) PluginFactory option"
  mm_modules :: "(string, nat) umap"
  mm_previous_modules :: "(string, nat) umap"
  mm_configs :: "(string, ModuleConfig) umap"
  mm_schema_versions :: "(string, u32) umap"

datatype mm_error = NullFactory

type_synonym ('p, 'x) mm_state = "('p, 'x) ModuleManager \<times> ('p, 'x) plugin_heap"

definition ModuleManager_new :: "('p, 'x) ModuleManager" where
  "ModuleManager_new =
     \<lparr>mm_factory = None, mm_modules = um_empty, mm_previous_modules = um_empty,
      mm_configs = um_empty, mm_schema_versions = um_empty\<rparr>"

definition ModuleManager_Initialize :: "('p, 'x) PluginFactory \<Rightarrow> ('p, 'x) ModuleManager \<Rightarrow> ('p, 'x) ModuleManager" where
  "ModuleManager_Initialize factory mm = mm\<lparr>mm_factory := Some factory\<rparr>"

subsection \<open>Loading\<close>

text \<open>
  The common first half of \<open>Load\<close> and \<open>HotReload\<close>: create a plugin and initialize it. Nothing is
  returned when the factory gives none or the initialization fails; in the second case the plugin
  is destroyed at the end of its scope.
\<close>

definition create_plugin ::
  "('p, 'x) IPlugin \<Rightarrow> ('p, 'x) PluginFactory \<Rightarrow> ModuleConfig \<Rightarrow> 'x \<Rightarrow> 'p option \<times> 'x" where
  "create_plugin ops factory config x =
     (case factory (mc_path config) (mc_schema_version config) x of
        (None, x1) \<Rightarrow> (None, x1)
      | (Some plugin, x1) \<Rightarrow>
          (case ip_Initialize ops plugin x1 of
             (ok, plugin', x2) \<Rightarrow>
               if \<not> ok then (None, ip_destructor ops plugin' x2) else (Some plugin', x2)))"

definition record_config :: "ModuleConfig \<Rightarrow> ('p, 'x) ModuleManager \<Rightarrow> ('p, 'x) ModuleManager" where
  "record_config config mm =
     mm\<lparr>mm_configs := um_assign (mc_name config) config (mm_configs mm),
        mm_schema_versions := um_assign (mc_name config) (mc_schema_version config) (mm_schema_versions mm)\<rparr>"

definition ModuleManager_Load ::
  "('p, 'x) IPlugin \<Rightarrow> ModuleConfig \<Rightarrow> ('p, 'x) mm_state \<Rightarrow> mm_error + bool \<times> ('p, 'x) mm_state" where
  "ModuleManager_Load ops config st =
     (case st of (mm, h) \<Rightarrow>
      case mm_factory mm of
        None \<Rightarrow> Inl NullFactory
      | Some factory \<Rightarrow>
          (case create_plugin ops factory config (ph_backend h) of
             (None, x) \<Rightarrow> Inr (False, mm, h\<lparr>ph_backend := x\<rparr>)
           | (Some plugin, x) \<Rightarrow>
               (let (a, h1) = make_shared plugin (h\<lparr>ph_backend := x\<rparr>);
                    (modules, h2) = slot_assign ops (mc_name config) a (mm_modules mm) h1
                in Inr (True, record_config config (mm\<lparr>mm_modules := modules\<rparr>), h2))))"

text \<open>
  \<open>HotReload\<close> moves the current module to \<open>previous_modules_\<close> first, which leaves a null pointer in
  its slot, so the assignment that follows drops nothing.
\<close>

definition ModuleManager_HotReload ::
  "('p, 'x) IPlugin \<Rightarrow> ModuleConfig \<Rightarrow> ('p, 'x) mm_state \<Rightarrow> mm_error + bool \<times> ('p, 'x) mm_state" where
  "ModuleManager_HotReload ops config st =
     (case st of (mm, h) \<Rightarrow>
      case mm_factory mm of
        None \<Rightarrow> Inl NullFactory
      | Some factory \<Rightarrow>
          (case create_plugin ops factory config (ph_backend h) of
             (None, x) \<Rightarrow> Inr (False, mm, h\<lparr>ph_backend := x\<rparr>)
           | (Some plugin, x) \<Rightarrow>
               (let (a, h1) = make_shared plugin (h\<lparr>ph_backend := x\<rparr>);
                    (previous, h2) =
                      (case um_find (mm_modules mm) (mc_name config) of
                         None \<Rightarrow> (mm_previous_modules mm, h1)
                       | Some old \<Rightarrow> slot_assign ops (mc_name config) old (mm_previous_modules mm) h1)
                in Inr (True,
                        record_config config
                          (mm\<lparr>mm_modules := um_assign (mc_name config) a (mm_modules mm),
                              mm_previous_modules := previous\<rparr>),
                        h2))))"

text \<open>
  The two halves of both calls, as threads see them: creating and initializing the plugin without the
  lock, and the locked section that installs it. In between, the address stands for the object that
  the local \<open>unique_ptr\<close> owns.
\<close>

definition prepare_plugin ::
  "('p, 'x) IPlugin \<Rightarrow> ModuleConfig \<Rightarrow> ('p, 'x) mm_state \<Rightarrow> mm_error + nat option \<times> ('p, 'x) mm_state" where
  "prepare_plugin ops config st =
     (case st of (mm, h) \<Rightarrow>
      case mm_factory mm of
        None \<Rightarrow> Inl NullFactory
      | Some factory \<Rightarrow>
          (case create_plugin ops factory config (ph_backend h) of
             (None, x) \<Rightarrow> Inr (None, mm, h\<lparr>ph_backend := x\<rparr>)
           | (Some plugin, x) \<Rightarrow>
               (let (a, h1) = make_shared plugin (h\<lparr>ph_backend := x\<rparr>) in Inr (Some a, mm, h1))))"

definition commit_load ::
  "('p, 'x) IPlugin \<Rightarrow> ModuleConfig \<Rightarrow> nat \<Rightarrow> ('p, 'x) mm_state \<Rightarrow> ('p, 'x) mm_state" where
  "commit_load ops config a st =
     (case st of (mm, h) \<Rightarrow>
        let (modules, h1) = slot_assign ops (mc_name config) a (mm_modules mm) h
        in (record_config config (mm\<lparr>mm_modules := modules\<rparr>), h1))"

definition commit_reload ::
  "('p, 'x) IPlugin \<Rightarrow> ModuleConfig \<Rightarrow> nat \<Rightarrow> ('p, 'x) mm_state \<Rightarrow> ('p, 'x) mm_state" where
  "commit_reload ops config a st =
     (case st of (mm, h) \<Rightarrow>
        let (previous, h1) =
              (case um_find (mm_modules mm) (mc_name config) of
                 None \<Rightarrow> (mm_previous_modules mm, h)
               | Some old \<Rightarrow> slot_assign ops (mc_name config) old (mm_previous_modules mm) h)
        in (record_config config
              (mm\<lparr>mm_modules := um_assign (mc_name config) a (mm_modules mm), mm_previous_modules := previous\<rparr>), h1))"

lemma Load_split:
  "ModuleManager_Load ops c st =
     (case prepare_plugin ops c st of
        Inl e \<Rightarrow> Inl e
      | Inr (None, st1) \<Rightarrow> Inr (False, st1)
      | Inr (Some a, st1) \<Rightarrow> Inr (True, commit_load ops c a st1))"
  by (auto simp: ModuleManager_Load_def prepare_plugin_def commit_load_def split: prod.split option.split)

lemma HotReload_split:
  "ModuleManager_HotReload ops c st =
     (case prepare_plugin ops c st of
        Inl e \<Rightarrow> Inl e
      | Inr (None, st1) \<Rightarrow> Inr (False, st1)
      | Inr (Some a, st1) \<Rightarrow> Inr (True, commit_reload ops c a st1))"
  by (auto simp: ModuleManager_HotReload_def prepare_plugin_def commit_reload_def split: prod.split option.split)

text \<open>The loop of \<open>HotReloadAll\<close> over the copied configurations: a failure does not stop it.\<close>

fun HotReload_each ::
  "('p, 'x) IPlugin \<Rightarrow> ModuleConfig list \<Rightarrow> bool \<Rightarrow> ('p, 'x) mm_state \<Rightarrow>
     mm_error + bool \<times> ('p, 'x) mm_state" where
  "HotReload_each ops [] all_ok st = Inr (all_ok, st)"
| "HotReload_each ops (config # configs) all_ok st =
     (case ModuleManager_HotReload ops config st of
        Inl e \<Rightarrow> Inl e
      | Inr (ok, st') \<Rightarrow> HotReload_each ops configs (if \<not> ok then False else all_ok) st')"

definition ModuleManager_HotReloadAll ::
  "('p, 'x) IPlugin \<Rightarrow> ('p, 'x) mm_state \<Rightarrow> mm_error + bool \<times> ('p, 'x) mm_state" where
  "ModuleManager_HotReloadAll ops st =
     (let configs = map snd (um_entries (mm_configs (fst st))) in HotReload_each ops configs True st)"

subsection \<open>Rollback and unload\<close>

definition ModuleManager_Rollback ::
  "('p, 'x) IPlugin \<Rightarrow> string \<Rightarrow> ('p, 'x) mm_state \<Rightarrow> ('p, 'x) mm_state" where
  "ModuleManager_Rollback ops name st =
     (case st of (mm, h) \<Rightarrow>
      case um_find (mm_previous_modules mm) name of
        None \<Rightarrow> (mm, h)
      | Some prev \<Rightarrow>
          (let (modules, h1) = slot_assign ops name prev (mm_modules mm) h;
               mm1 = mm\<lparr>mm_modules := modules,
                        mm_previous_modules := um_erase name (mm_previous_modules mm)\<rparr>
           in case um_find (mm_configs mm1) name of
                None \<Rightarrow> (mm1, h1)
              | Some config \<Rightarrow>
                  (mm1\<lparr>mm_schema_versions :=
                         um_assign name (mc_schema_version config) (mm_schema_versions mm1)\<rparr>, h1)))"

definition ModuleManager_Unload ::
  "('p, 'x) IPlugin \<Rightarrow> string \<Rightarrow> ('p, 'x) mm_state \<Rightarrow> ('p, 'x) mm_state" where
  "ModuleManager_Unload ops name st =
     (case st of (mm, h) \<Rightarrow>
      let (modules, h1) =
            (case um_find (mm_modules mm) name of
               None \<Rightarrow> (mm_modules mm, h)
             | Some a \<Rightarrow> slot_erase ops name (mm_modules mm) (heap_shutdown ops a h));
          (previous, h2) = slot_erase ops name (mm_previous_modules mm) h1
      in (mm\<lparr>mm_modules := modules, mm_previous_modules := previous,
             mm_configs := um_erase name (mm_configs mm),
             mm_schema_versions := um_erase name (mm_schema_versions mm)\<rparr>, h2))"

subsection \<open>Queries\<close>

text \<open>The returned shared pointer is a new reference.\<close>

definition ModuleManager_Get ::
  "string \<Rightarrow> ('p, 'x) mm_state \<Rightarrow> nat option \<times> ('p, 'x) plugin_heap" where
  "ModuleManager_Get name st =
     (case st of (mm, h) \<Rightarrow>
      case um_find (mm_modules mm) name of
        None \<Rightarrow> (None, h)
      | Some a \<Rightarrow> (Some a, retain a h))"

definition ModuleManager_GetLoadedSchemaVersion :: "('p, 'x) ModuleManager \<Rightarrow> string \<Rightarrow> u32" where
  "ModuleManager_GetLoadedSchemaVersion mm name =
     (case um_find (mm_schema_versions mm) name of None \<Rightarrow> 0 | Some v \<Rightarrow> v)"

subsection \<open>The tables agree\<close>

text \<open>
  A loaded module has a configuration filed under its name and the schema version of exactly that
  configuration; only loaded modules have a previous version.
\<close>

definition tables_ok :: "('p, 'x) ModuleManager \<Rightarrow> bool" where
  "tables_ok mm \<longleftrightarrow>
     um_wf (mm_modules mm) \<and> um_wf (mm_previous_modules mm) \<and> um_wf (mm_configs mm) \<and>
     um_wf (mm_schema_versions mm) \<and>
     (\<forall>n. um_find (mm_modules mm) n = None \<longleftrightarrow> um_find (mm_configs mm) n = None) \<and>
     (\<forall>n. um_find (mm_schema_versions mm) n = map_option mc_schema_version (um_find (mm_configs mm) n)) \<and>
     (\<forall>n c. um_find (mm_configs mm) n = Some c \<longrightarrow> mc_name c = n) \<and>
     (\<forall>n. um_find (mm_configs mm) n = None \<longrightarrow> um_find (mm_previous_modules mm) n = None)"

lemma tables_ok_new [simp]: "tables_ok ModuleManager_new"
  by (simp add: tables_ok_def ModuleManager_new_def)

lemma tables_ok_Initialize: "tables_ok mm \<Longrightarrow> tables_ok (ModuleManager_Initialize f mm)"
  by (simp add: tables_ok_def ModuleManager_Initialize_def)

text \<open>Installing a module, and removing one, keep the tables in step.\<close>

lemma tables_ok_install:
  assumes "tables_ok mm" and "um_wf prev"
    and "\<And>n. n \<noteq> mc_name c \<Longrightarrow> um_find prev n = um_find (mm_previous_modules mm) n"
  shows "tables_ok (record_config c
           (mm\<lparr>mm_modules := um_assign (mc_name c) a (mm_modules mm), mm_previous_modules := prev\<rparr>))"
  using assms by (simp add: tables_ok_def record_config_def)

lemma tables_ok_erase:
  assumes "tables_ok mm" and "mods = um_erase n (mm_modules mm)"
  shows "tables_ok (mm\<lparr>mm_modules := mods, mm_previous_modules := um_erase n (mm_previous_modules mm),
           mm_configs := um_erase n (mm_configs mm),
           mm_schema_versions := um_erase n (mm_schema_versions mm)\<rparr>)"
  using assms by (simp add: tables_ok_def)

text \<open>What each operation does to the tables, whatever happens to the heap.\<close>

lemma Load_tables:
  assumes "ModuleManager_Load ops c (mm, h) = Inr (ok, mm', h')"
  shows "\<exists>a. mm' = (if ok then record_config c (mm\<lparr>mm_modules := um_assign (mc_name c) a (mm_modules mm)\<rparr>) else mm)"
  using assms
  by (auto simp: ModuleManager_Load_def slot_assign_def Let_def split: option.splits prod.splits)

lemma HotReload_tables:
  assumes "ModuleManager_HotReload ops c (mm, h) = Inr (ok, mm', h')"
  shows "\<exists>a. mm' = (if ok then record_config c
      (mm\<lparr>mm_modules := um_assign (mc_name c) a (mm_modules mm),
          mm_previous_modules :=
            (case um_find (mm_modules mm) (mc_name c) of
               None \<Rightarrow> mm_previous_modules mm
             | Some old \<Rightarrow> um_assign (mc_name c) old (mm_previous_modules mm))\<rparr>) else mm)"
  using assms
  by (auto simp: ModuleManager_HotReload_def slot_assign_def Let_def split: option.splits prod.splits)

lemma tables_ok_commit_load:
  assumes "tables_ok mm" and "commit_load ops c a (mm, h) = (mm', h')"
  shows "tables_ok mm'"
proof -
  have "tables_ok (record_config c (mm\<lparr>mm_modules := um_assign (mc_name c) a (mm_modules mm),
      mm_previous_modules := mm_previous_modules mm\<rparr>))"
    using assms(1) by (intro tables_ok_install) (simp_all add: tables_ok_def)
  then show ?thesis using assms(2) by (auto simp: commit_load_def slot_assign_def)
qed

lemma tables_ok_commit_reload:
  assumes "tables_ok mm" and "commit_reload ops c a (mm, h) = (mm', h')"
  shows "tables_ok mm'"
proof -
  have "tables_ok (record_config c (mm\<lparr>mm_modules := um_assign (mc_name c) a (mm_modules mm), mm_previous_modules := prev\<rparr>))"
    if "prev = (case um_find (mm_modules mm) (mc_name c) of None \<Rightarrow> mm_previous_modules mm
        | Some old \<Rightarrow> um_assign (mc_name c) old (mm_previous_modules mm))" for prev
    using assms(1) that by (intro tables_ok_install) (simp_all add: tables_ok_def split: option.split)
  then show ?thesis using assms(2) by (auto simp: commit_reload_def slot_assign_def split: option.splits)
qed

lemma tables_ok_HotReload:
  assumes "ModuleManager_HotReload ops c (mm, h) = Inr (ok, mm', h')" and "tables_ok mm"
  shows "tables_ok mm'"
proof -
  have "tables_ok (record_config c (mm\<lparr>mm_modules := um_assign (mc_name c) a (mm_modules mm),
      mm_previous_modules :=
            (case um_find (mm_modules mm) (mc_name c) of
               None \<Rightarrow> mm_previous_modules mm
             | Some old \<Rightarrow> um_assign (mc_name c) old (mm_previous_modules mm))\<rparr>))" for a
    using assms(2) by (intro tables_ok_install) (simp_all add: tables_ok_def split: option.split)
  then show ?thesis using HotReload_tables [OF assms(1)] assms(2) by auto
qed

text \<open>A rollback changes neither a configuration nor a recorded schema version.\<close>

lemma um_assign_same: "um_find m k = Some v \<Longrightarrow> um_find (um_assign k v m) = um_find m"
  by (rule ext) simp

lemma Rollback_tables:
  assumes "tables_ok mm" and "ModuleManager_Rollback ops n (mm, h) = (mm', h')"
  shows "mm_configs mm' = mm_configs mm"
    and "um_find (mm_schema_versions mm') = um_find (mm_schema_versions mm)"
    and "um_wf (mm_schema_versions mm')"
    and "um_find (mm_modules mm') =
           (case um_find (mm_previous_modules mm) n of
              None \<Rightarrow> um_find (mm_modules mm) | Some a \<Rightarrow> (um_find (mm_modules mm))(n \<mapsto> a))"
    and "um_find (mm_previous_modules mm') = (um_find (mm_previous_modules mm))(n := None)"
    and "um_wf (mm_modules mm')" and "um_wf (mm_previous_modules mm')"
  using assms
  by (auto simp: ModuleManager_Rollback_def slot_assign_def tables_ok_def Let_def um_find_assign_fun
      um_find_erase_fun fun_upd_idem split: option.splits)

lemma tables_ok_Rollback:
  assumes "tables_ok mm" and "ModuleManager_Rollback ops n (mm, h) = (mm', h')"
  shows "tables_ok mm'"
proof (cases "um_find (mm_previous_modules mm) n")
  case None
  then show ?thesis using assms by (simp add: ModuleManager_Rollback_def)
next
  case (Some a)
  moreover have "um_find (mm_configs mm) n \<noteq> None"
    using assms(1) Some by (metis option.distinct(1) tables_ok_def)
  ultimately show ?thesis
    using Rollback_tables [OF assms] assms(1) unfolding tables_ok_def by auto
qed

lemma um_erase_absent: "um_find m k = None \<Longrightarrow> um_erase k m = m"
  by (simp add: um_defs map_of_eq_None_iff)

lemma Unload_tables:
  "\<exists>h'. ModuleManager_Unload ops n (mm, h) =
     (mm\<lparr>mm_modules := um_erase n (mm_modules mm), mm_previous_modules := um_erase n (mm_previous_modules mm),
        mm_configs := um_erase n (mm_configs mm),
        mm_schema_versions := um_erase n (mm_schema_versions mm)\<rparr>, h')"
  by (auto simp: ModuleManager_Unload_def slot_erase_def um_erase_absent split: option.split)

lemma tables_ok_Unload:
  "tables_ok mm \<Longrightarrow> ModuleManager_Unload ops n (mm, h) = (mm', h') \<Longrightarrow> tables_ok mm'"
  using Unload_tables [of ops n mm h] tables_ok_erase [OF _ refl, of mm n] by auto

subsection \<open>A rollback after a reload\<close>

lemma HotReload_then_Rollback:
  assumes "tables_ok mm" and "ModuleManager_HotReload ops c (mm, h) = Inr (True, mm1, h1)"
    and "um_find (mm_modules mm) (mc_name c) = Some a"
    and "ModuleManager_Rollback ops (mc_name c) (mm1, h1) = (mm2, h2)"
  shows "um_find (mm_modules mm2) (mc_name c) = Some a \<and>
     ModuleManager_GetLoadedSchemaVersion mm2 (mc_name c) = mc_schema_version c"
proof -
  obtain b where mm1: "mm1 = record_config c
      (mm\<lparr>mm_modules := um_assign (mc_name c) b (mm_modules mm),
          mm_previous_modules := um_assign (mc_name c) a (mm_previous_modules mm)\<rparr>)"
    using HotReload_tables [OF assms(2)] assms(3) by auto
  have "tables_ok mm1" using tables_ok_HotReload [OF assms(2,1)] .
  note rb = Rollback_tables [OF this assms(4)]
  show ?thesis
    using rb(2,4) by (simp add: mm1 record_config_def ModuleManager_GetLoadedSchemaVersion_def)
qed

lemma HotReload_fails:
  "ModuleManager_HotReload ops c (mm, h) = Inr (False, mm', h') \<Longrightarrow> mm' = mm \<and> ph_cells h' = ph_cells h"
  by (auto simp: ModuleManager_HotReload_def Let_def split: option.splits prod.splits)

text \<open>A plugin that is one bit: it initializes when the bit is set.\<close>

definition bit_ops :: "(bool, unit) IPlugin" where
  "bit_ops = \<lparr>ip_Initialize = (\<lambda>p x. (p, p, x)), ip_Shutdown = (\<lambda>p x. (False, x)),
     ip_Execute = (\<lambda>obj action input out cs p x. (p, obj, out, cs, p, x)), ip_Clone = (\<lambda>p x. (Some p, x)),
     ip_destructor = (\<lambda>p x. x)\<rparr>"

definition bit_config :: "u32 \<Rightarrow> ModuleConfig" where
  "bit_config v = \<lparr>mc_name = ''m'', mc_path = ''m.wasm'', mc_schema_version = v\<rparr>"

definition bit_manager :: "(bool, unit) ModuleManager" where
  "bit_manager = record_config (bit_config 1)
     ((ModuleManager_Initialize (\<lambda>path v x. (Some (v \<noteq> 0), x)) ModuleManager_new)\<lparr>mm_modules := um_assign ''m'' 0 um_empty\<rparr>)"

definition bit_heap :: "(bool, unit) plugin_heap" where
  "bit_heap = \<lparr>ph_cells = um_assign 0 \<lparr>so_count = 1, so_obj = True\<rparr> um_empty, ph_next = 1, ph_backend = ()\<rparr>"

definition bit_reloaded :: "(bool, unit) ModuleManager" where
  "bit_reloaded = record_config (bit_config 2)
     (bit_manager\<lparr>mm_modules := um_assign ''m'' 1 (mm_modules bit_manager),
                  mm_previous_modules := um_assign ''m'' 0 (mm_previous_modules bit_manager)\<rparr>)"

definition bit_heap2 :: "(bool, unit) plugin_heap" where
  "bit_heap2 = bit_heap\<lparr>ph_cells := um_assign 1 \<lparr>so_count = 1, so_obj = True\<rparr> (ph_cells bit_heap), ph_next := 2\<rparr>"

lemma bit_reload: "ModuleManager_HotReload bit_ops (bit_config 2) (bit_manager, bit_heap) = Inr (True, bit_reloaded, bit_heap2)"
  by (simp add: ModuleManager_HotReload_def create_plugin_def bit_ops_def bit_config_def bit_manager_def bit_heap_def
      bit_reloaded_def bit_heap2_def ModuleManager_Initialize_def ModuleManager_new_def make_shared_def slot_assign_def
      record_config_def)

lemma bit_reload_fails: "ModuleManager_HotReload bit_ops (bit_config 0) (bit_manager, bit_heap) = Inr (False, bit_manager, bit_heap)"
  by (simp add: ModuleManager_HotReload_def create_plugin_def bit_ops_def bit_config_def bit_manager_def bit_heap_def
      ModuleManager_Initialize_def ModuleManager_new_def record_config_def)

lemma bit_tables: "tables_ok bit_manager"
  by (simp add: tables_ok_def bit_manager_def bit_config_def ModuleManager_Initialize_def ModuleManager_new_def record_config_def)

section \<open>Properties\<close>

text \<open>C24: Rollback. After a successful \<open>HotReload\<close> of a loaded module, \<open>Rollback\<close> puts the previous module
  back, but \<open>GetLoadedSchemaVersion\<close> keeps reporting the version of the configuration that was just
  undone, because the configuration table was overwritten by the reload.\<close>

theorem rollback_keeps_new_version:
  assumes "tables_ok mm" and "ModuleManager_HotReload ops c (mm, h) = Inr (True, mm1, h1)"
    and "um_find (mm_modules mm) (mc_name c) = Some a"
    and "ModuleManager_Rollback ops (mc_name c) (mm1, h1) = (mm2, h2)"
  shows "um_find (mm_modules mm2) (mc_name c) = Some a \<and>
      ModuleManager_GetLoadedSchemaVersion mm2 (mc_name c) = mc_schema_version c"
  using assms by (rule HotReload_then_Rollback)

theorem rollback_keeps_new_version_witness:
  "\<exists>mm2 h2. ModuleManager_Rollback bit_ops (mc_name (bit_config 2)) (bit_reloaded, bit_heap2) = (mm2, h2) \<and>
      um_find (mm_modules mm2) (mc_name (bit_config 2)) = Some 0 \<and>
      ModuleManager_GetLoadedSchemaVersion mm2 (mc_name (bit_config 2)) = mc_schema_version (bit_config 2) \<and>
      ModuleManager_GetLoadedSchemaVersion bit_manager ''m'' = 1 \<and> mc_schema_version (bit_config 2) = 2"
proof -
  obtain mm2 h2 where rb: "ModuleManager_Rollback bit_ops (mc_name (bit_config 2)) (bit_reloaded, bit_heap2) = (mm2, h2)"
    by fastforce
  have "um_find (mm_modules bit_manager) (mc_name (bit_config 2)) = Some 0"
    by (simp add: bit_manager_def bit_config_def record_config_def)
  from rollback_keeps_new_version [OF bit_tables bit_reload this rb] rb show ?thesis
    by (auto simp: bit_config_def bit_manager_def record_config_def ModuleManager_GetLoadedSchemaVersion_def)
qed

end
