(* ===== verification/Module_Resources.thy ===== *)
theory Module_Resources
  imports Module_Manager "HOL-Library.Multiset"
begin

section \<open>Ownership in the module manager\<close>

text \<open>
  The resource invariant of the module manager: the references to a cell of the heap are those of one
  slot of \<open>modules_\<close> or \<open>previous_modules_\<close> and those that callers of \<open>Get\<close> have borrowed, every plugin
  in a slot is initialized, and the runtime holds the resources of these plugins and nothing else. It is proved once for every backend that meets the
  plugin contract, in the locale \<open>plugin_backend\<close>.
\<close>

text \<open>The slots of the two maps: \<open>(True, n)\<close> in \<open>modules_\<close>, \<open>(False, n)\<close> in \<open>previous_modules_\<close>.\<close>

definition slots :: "('p, 'x) ModuleManager \<Rightarrow> bool \<times> string \<Rightarrow> nat option" where
  "slots mm = (\<lambda>(current, n). um_find (if current then mm_modules mm else mm_previous_modules mm) n)"

lemma slots_simps:
  "slots mm (True, n) = um_find (mm_modules mm) n"
  "slots mm (False, n) = um_find (mm_previous_modules mm) n"
  by (simp_all add: slots_def)

lemma slots_eqI:
  assumes "\<And>n. um_find (mm_modules mm) n = sl (True, n)"
    and "\<And>n. um_find (mm_previous_modules mm) n = sl (False, n)"
  shows "slots mm = sl"
  using assms by (auto simp: slots_def fun_eq_iff)

text \<open>
  \<open>holds E B sl h\<close>: each cell of \<open>h\<close> is referred to once by a slot of \<open>sl\<close> or a local pointer in \<open>E\<close>, or by
  neither, and besides as often as \<open>B\<close> has it, the references borrowed with \<open>Get\<close>.
\<close>

definition holds :: "nat set \<Rightarrow> nat multiset \<Rightarrow> ('k \<Rightarrow> nat option) \<Rightarrow> ('p, 'x) plugin_heap \<Rightarrow> bool" where
  "holds E B sl h \<longleftrightarrow> (\<forall>k k' a. sl k = Some a \<longrightarrow> sl k' = Some a \<longrightarrow> k = k') \<and> ran sl \<inter> E = {} \<and>
     (\<forall>a. refs h a = of_bool (a \<in> ran sl \<union> E) + count B a)"

lemma holds_refs: "holds E B sl h \<Longrightarrow> refs h a = of_bool (a \<in> ran sl \<union> E) + count B a"
  by (simp add: holds_def)

lemma holds_cell:
  assumes "holds E B sl h" and "a \<in> ran sl \<union> E \<or> a \<in># B"
  shows "\<exists>c. cell h a = Some c"
proof -
  have "0 < refs h a" using assms(2) holds_refs [OF assms(1), of a] by auto
  then show ?thesis by (auto simp: refs_def split: option.splits)
qed

lemma holds_absent:
  assumes "holds E B sl h" and "cell h a = None"
  shows "a \<notin> ran sl" and "a \<notin> E" and "a \<notin># B"
  using holds_refs [OF assms(1), of a] assms(2) by (auto simp: refs_def count_eq_zero_iff [symmetric])

lemma holds_make:
  assumes "holds E B sl h" and "cell h a = None" and "refs h' = (refs h)(a := 1)"
  shows "holds (insert a E) B sl h'"
  using assms holds_absent [OF assms(1,2)] by (auto simp: holds_def not_in_iff)

lemma ran_fun_upd_None:
  assumes "\<And>k' a. sl k' = Some a \<Longrightarrow> sl k = Some a \<Longrightarrow> k' = k" and "sl k = Some a"
  shows "ran (sl(k := None)) = ran sl - {a}"
proof -
  have "b \<in> ran (sl(k := None)) \<longleftrightarrow> (\<exists>k'. k' \<noteq> k \<and> sl k' = Some b)" for b
    by (auto simp: ran_def split: if_splits)
  moreover have "(\<exists>k'. k' \<noteq> k \<and> sl k' = Some b) \<longleftrightarrow> b \<in> ran sl \<and> b \<noteq> a" for b
  proof
    assume "\<exists>k'. k' \<noteq> k \<and> sl k' = Some b"
    then obtain k' where "k' \<noteq> k" "sl k' = Some b" by blast
    then show "b \<in> ran sl \<and> b \<noteq> a" using assms by (metis ranI)
  next
    assume "b \<in> ran sl \<and> b \<noteq> a"
    then obtain k' where "sl k' = Some b" "b \<noteq> a" by (auto simp: ran_def)
    then show "\<exists>k'. k' \<noteq> k \<and> sl k' = Some b" using assms(2) by (metis option.inject)
  qed
  ultimately show ?thesis by blast
qed

lemma holds_take:
  assumes "holds E B sl h" and "sl k = Some a"
  shows "holds (insert a E) B (sl(k := None)) h"
proof -
  have "ran (sl(k := None)) = ran sl - {a}"
    using assms by (intro ran_fun_upd_None) (auto simp: holds_def)
  moreover have "a \<in> ran sl" using assms(2) by (rule ranI)
  ultimately show ?thesis using assms(1) by (auto simp: holds_def split: if_splits)
qed

lemma holds_put:
  assumes "holds E B sl h" and "sl k = None" and "a \<in> E"
  shows "holds (E - {a}) B (sl(k \<mapsto> a)) h"
proof -
  have "ran (sl(k \<mapsto> a)) = insert a (ran sl)" using assms(2) by (rule ran_map_upd)
  moreover have "a \<notin> ran sl" using assms(1,3) by (auto simp: holds_def)
  then have "sl k' \<noteq> Some a" for k' by (auto intro: ranI)
  ultimately show ?thesis using assms by (auto simp: holds_def split: if_splits)
qed

lemma holds_drop:
  assumes "holds E B sl h" and "a \<in> E" and "refs h' = (refs h)(a := refs h a - 1)"
  shows "holds (E - {a}) B sl h'"
  using assms by (auto simp: holds_def)

lemma holds_borrow:
  "holds E B sl h \<Longrightarrow> refs h' = (refs h)(a := Suc (refs h a)) \<Longrightarrow> holds E (add_mset a B) sl h'"
  by (simp add: holds_def)

lemma holds_return:
  assumes "holds E B sl h" and "a \<in># B" and "refs h' = (refs h)(a := refs h a - 1)"
  shows "holds E (B - {#a#}) sl h'"
proof -
  have "0 < count B a" using assms(2) by simp
  then show ?thesis using assms(1,3) by (simp add: holds_def)
qed

text \<open>Operations that change neither references nor slots.\<close>

lemma holds_cong: "refs h' = refs h \<Longrightarrow> holds E B sl h' = holds E B sl h"
  by (simp add: holds_def)

context plugin_backend
begin

text \<open>What a slot or a local pointer refers to is initialized; a borrowed plugin may have been shut down.\<close>

definition held :: "nat set \<Rightarrow> nat set \<Rightarrow> nat multiset \<Rightarrow> ('k \<Rightarrow> nat option) \<Rightarrow> ('p, 'x) plugin_heap \<Rightarrow> bool" where
  "held ext E B sl h \<longleftrightarrow> heap_ok ext h \<and> holds E B sl h \<and>
     (\<forall>a p. a \<in> ran sl \<union> E \<longrightarrow> objects h a = Some p \<longrightarrow> ready p)"

lemma heldD:
  assumes "held ext E B sl h"
  shows "heap_ok ext h" and "holds E B sl h" and "good (ph_backend h)"
  using assms by (auto simp: held_def heap_ok_def)

lemma held_cell:
  assumes "held ext E B sl h" and "a \<in> ran sl \<union> E"
  shows "\<exists>c. cell h a = Some c \<and> ready (so_obj c) \<and> 0 < so_count c \<and> owns (so_obj c) \<subseteq> live (ph_backend h)"
proof -
  obtain c where c: "cell h a = Some c" using holds_cell [OF heldD(2) [OF assms(1)]] assms(2) by blast
  then have "ready (so_obj c)" using assms by (auto simp: held_def objects_def)
  then show ?thesis using c heap_okD [OF heldD(1) [OF assms(1)] c] by blast
qed

lemma held_borrowed:
  assumes "held ext E B sl h" and "a \<in># B"
  shows "\<exists>c. cell h a = Some c \<and> 0 < so_count c"
  using holds_cell [OF heldD(2) [OF assms(1)], of a] heap_okD(3) [OF heldD(1) [OF assms(1)]] assms(2) by blast

text \<open>A step that keeps the objects that are still held, or at least those that stay in place.\<close>

lemma heldI:
  assumes "held ext E B sl h" and "heap_ok ext' h'" and "holds E' B' sl' h'"
    and "\<And>a. a \<in> ran sl' \<union> E' \<Longrightarrow> a \<in> ran sl \<union> E \<and> (objects h' a = objects h a \<or> objects h' a = None)"
  shows "held ext' E' B' sl' h'"
  unfolding held_def
proof (intro conjI allI impI assms(2,3))
  fix a p assume a: "a \<in> ran sl' \<union> E'" "objects h' a = Some p"
  then show "ready p" using assms(4) [OF a(1)] assms(1) by (auto simp: held_def)
qed

lemma objects_le: "objects h' \<subseteq>\<^sub>m objects h \<Longrightarrow> objects h' a = objects h a \<or> objects h' a = None"
  by (cases "objects h' a") (auto simp: map_le_def dom_def)

lemma held_release:
  assumes "held ext E B sl h" and "a \<in> E"
  shows "held ext (E - {a}) B sl (release ops a h)"
proof -
  obtain c where c: "cell h a = Some c" "0 < so_count c" using held_cell [OF assms(1)] assms(2) by blast
  show ?thesis
    by (rule heldI [OF assms(1) heap_ok_release [OF heldD(1) [OF assms(1)] c(1)]
          holds_drop [OF heldD(2) [OF assms(1)] assms(2) release_cells(1) [OF c]]])
      (use objects_le [OF release_cells(2) [OF c]] in auto)
qed

lemma held_return:
  assumes "held ext E B sl h" and "a \<in># B"
  shows "held ext E (B - {#a#}) sl (release ops a h)"
proof -
  obtain c where c: "cell h a = Some c" "0 < so_count c" using held_borrowed [OF assms] by blast
  show ?thesis
    by (rule heldI [OF assms(1) heap_ok_release [OF heldD(1) [OF assms(1)] c(1)]
          holds_return [OF heldD(2) [OF assms(1)] assms(2) release_cells(1) [OF c]]])
      (use objects_le [OF release_cells(2) [OF c]] in auto)
qed

lemma held_borrow:
  assumes "held ext E B sl h" and "sl k = Some a"
  shows "held ext E (add_mset a B) sl (retain a h)"
proof -
  obtain c where c: "cell h a = Some c" using held_cell [OF assms(1)] assms(2) by (auto intro: ranI)
  show ?thesis
    by (rule heldI [OF assms(1) heap_ok_retain [OF heldD(1) [OF assms(1)] c]
          holds_borrow [OF heldD(2) [OF assms(1)] retain_cells(1) [OF c]]])
      (simp add: retain_cells(2) [OF c])
qed

lemma held_shutdown_release:
  assumes "held ext E B sl h" and "a \<in> E"
  shows "held ext (E - {a}) B sl (release ops a (heap_shutdown ops a h))"
proof -
  let ?h1 = "heap_shutdown ops a h"
  obtain c where c: "cell h a = Some c" using held_cell [OF assms(1)] assms(2) by blast
  note sd = heap_ok_shutdown [OF heldD(1) [OF assms(1)] c]
  obtain c1 where c1: "cell ?h1 a = Some c1" using sd(4) by blast
  have pos: "0 < so_count c1" using heap_okD(3) [OF sd(1) c1] .
  have "a \<notin> ran sl" using heldD(2) [OF assms(1)] assms(2) by (auto simp: holds_def)
  then have same: "objects ?h1 b = objects h b" if "b \<in> ran sl \<union> (E - {a})" for b
    using sd(3) [of b] that by (cases "b = a") auto
  have kept: "objects (release ops a ?h1) b = objects h b \<or> objects (release ops a ?h1) b = None"
    if "b \<in> ran sl \<union> (E - {a})" for b
    using objects_le [OF release_cells(2) [OF c1 pos], of ops b] same [OF that] by simp
  have "refs (release ops a ?h1) = (refs h)(a := refs h a - 1)"
    using release_cells(1) [OF c1 pos, of ops] sd(2) by simp
  from holds_drop [OF heldD(2) [OF assms(1)] assms(2) this]
  show ?thesis
    by (rule heldI [OF assms(1) heap_ok_release [OF sd(1) c1]]) (use kept in auto)
qed

text \<open>Dropping what a slot holds, and overwriting a slot.\<close>

lemma held_taken:
  assumes "held ext E B sl h" and "sl k = Some a"
  shows "held ext (insert a E) B (sl(k := None)) h" and "a \<notin> E"
proof -
  note h = heldD(2) [OF assms(1)]
  have a: "a \<in> ran sl" using assms(2) by (rule ranI)
  moreover have "ran (sl(k := None)) \<subseteq> ran sl" by (auto simp: ran_def split: if_splits)
  ultimately show "held ext (insert a E) B (sl(k := None)) h"
    using assms(1) by (intro heldI [OF assms(1) heldD(1) [OF assms(1)] holds_take [OF h assms(2)]]) auto
  show "a \<notin> E" using h a by (auto simp: holds_def)
qed

lemma held_clear:
  assumes "held ext E B sl h"
  shows "held ext E B (sl(k := None)) (case sl k of None \<Rightarrow> h | Some old \<Rightarrow> release ops old h)"
proof (cases "sl k")
  case None
  then have "sl(k := None) = sl" by (simp add: fun_upd_idem)
  then show ?thesis using assms None by simp
next
  case (Some a)
  note taken = held_taken [OF assms Some]
  show ?thesis using held_release [OF taken(1), of a] taken(2) Some by simp
qed

lemma held_put:
  assumes "held ext E B sl h" and "sl k = None" and "a \<in> E"
  shows "held ext (E - {a}) B (sl(k \<mapsto> a)) h"
  using assms(2,3) by (intro heldI [OF assms(1) heldD(1) [OF assms(1)] holds_put [OF heldD(2) [OF assms(1)] assms(2,3)]]) auto

lemma held_assign:
  assumes "held ext E B sl h" and "a \<in> E"
  shows "held ext (E - {a}) B (sl(k \<mapsto> a)) (case sl k of None \<Rightarrow> h | Some old \<Rightarrow> release ops old h)"
  using held_put [OF held_clear [OF assms(1), of k] _ assms(2), of k] by simp

text \<open>The backend changes outside the heap.\<close>

lemma held_backend:
  assumes "held ext E B sl h" and "good x" and "live x = live (ph_backend h) - gone \<union> new"
    and "gone \<subseteq> ext" and "new \<inter> live (ph_backend h) = {}"
  shows "held (ext - gone \<union> new) E B sl (h\<lparr>ph_backend := x\<rparr>)"
proof -
  have cells: "cell (h\<lparr>ph_backend := x\<rparr>) = cell h" by (simp add: cell_def [abs_def])
  show ?thesis
    by (rule heldI [OF assms(1) heap_ok_backend [OF heldD(1) [OF assms(1)] assms(2-5) cells]])
      (use heldD(2) [OF assms(1)] in \<open>simp_all add: holds_cong [OF cells_eq(1) [OF cells]] cells_eq(2) [OF cells]\<close>)
qed

subsection \<open>Creating a plugin\<close>

lemma create_plugin_None:
  assumes "create_plugin ops create c x = (None, x')" and "good x"
  shows "good x'" and "live x' = live x"
proof -
  have "good x' \<and> live x' = live x"
  proof (cases "create (mc_path c) (mc_schema_version c) x")
    case (Pair r x1)
    show ?thesis
    proof (cases r)
      case None
      then show ?thesis using assms Pair create_none by (auto simp: create_plugin_def)
    next
      case (Some p)
      obtain ok p' x2 where init: "ip_Initialize ops p x1 = (ok, p', x2)"
        by (cases "ip_Initialize ops p x1") auto
      then have "ok = False" "x' = ip_destructor ops p' x2"
        using assms(1) Pair Some by (auto simp: create_plugin_def split: if_splits)
      then show ?thesis
        using create_initialize_fail [OF assms(2)] Pair Some init by simp
    qed
  qed
  then show "good x'" and "live x' = live x" by simp_all
qed

lemma create_plugin_Some:
  assumes "create_plugin ops create c x = (Some p', x')" and "good x"
  shows "good x' \<and> valid p' \<and> ready p' \<and> owns p' \<inter> live x = {} \<and> live x' = live x \<union> owns p'"
proof -
  obtain r x1 where cr: "create (mc_path c) (mc_schema_version c) x = (r, x1)" by fastforce
  then obtain p where r: "r = Some p"
    using assms(1) by (cases r) (auto simp: create_plugin_def)
  obtain ok q x2 where init: "ip_Initialize ops p x1 = (ok, q, x2)"
    by (cases "ip_Initialize ops p x1") auto
  have "ok" "q = p'" "x2 = x'"
    using assms(1) cr r init by (auto simp: create_plugin_def split: if_splits)
  then show ?thesis
    using create_initialize [OF assms(2) cr [unfolded r] init] by simp
qed

text \<open>A created plugin becomes a cell that a local pointer holds.\<close>

lemma held_make:
  assumes "held ext E B sl h" and "create_plugin ops create c (ph_backend h) = (Some p, x)"
    and "make_shared p (h\<lparr>ph_backend := x\<rparr>) = (a, h')"
  shows "held ext (insert a E) B sl h'" and "a \<notin> E" and "a \<notin> ran sl"
proof -
  note hd = heldD [OF assms(1)]
  note p = create_plugin_Some [OF assms(2) hd(3)]
  have ok: "heap_ok ext h'" and c: "cell h' = (cell h)(a \<mapsto> \<lparr>so_count = 1, so_obj = p\<rparr>)" "cell h a = None"
    using heap_ok_make_shared [OF hd(1) _ _ _ _ assms(3)] p by auto
  show fresh: "a \<notin> E" "a \<notin> ran sl" using holds_absent [OF hd(2) c(2)] by simp_all
  have "refs h' = (refs h)(a := 1)" and objs: "objects h' = (objects h)(a \<mapsto> p)"
    using c by (auto simp: refs_def objects_def fun_eq_iff)
  then have "holds (insert a E) B sl h'" using holds_make [OF hd(2) c(2)] by simp
  then show "held ext (insert a E) B sl h'"
    using assms(1) ok p objs by (auto simp: held_def)
qed

lemma held_backend_None:
  assumes "held ext E B sl h" and "create_plugin ops create c (ph_backend h) = (None, x)"
  shows "held ext E B sl (h\<lparr>ph_backend := x\<rparr>)"
  using held_backend [OF assms(1), of x "{}" "{}"] create_plugin_None [OF assms(2) heldD(3) [OF assms(1)]] by simp

subsection \<open>The operations of the manager\<close>

text \<open>The manager while local pointers hold the addresses \<open>E\<close> and \<open>B\<close> are borrowed, and when no call is under way.\<close>

definition manager_with :: "nat set \<Rightarrow> nat set \<Rightarrow> nat multiset \<Rightarrow> ('p, 'x) mm_state \<Rightarrow> bool" where
  "manager_with ext E B st \<longleftrightarrow>
     (case st of (mm, h) \<Rightarrow> mm_factory mm = Some create \<and> tables_ok mm \<and> held ext E B (slots mm) h)"

definition manager_ok :: "nat set \<Rightarrow> ('p, 'x) mm_state \<Rightarrow> bool" where
  "manager_ok ext st \<longleftrightarrow>
     (case st of (mm, h) \<Rightarrow> mm_factory mm = Some create \<and> tables_ok mm \<and> held ext {} {#} (slots mm) h)"

lemma manager_ok_with: "manager_ok ext st \<longleftrightarrow> manager_with ext {} {#} st"
  by (simp add: manager_ok_def manager_with_def)

lemma manager_ok_start:
  assumes "good x" and "live x = ext"
  shows "manager_ok ext (ModuleManager_Initialize create ModuleManager_new, plugin_heap_new x)"
proof -
  let ?h = "plugin_heap_new x :: ('p, 'x) plugin_heap"
  have "slots (ModuleManager_Initialize create ModuleManager_new) = Map.empty"
    by (rule slots_eqI) (simp_all add: ModuleManager_Initialize_def ModuleManager_new_def)
  moreover have "cell ?h = Map.empty" by (rule HOL.ext) simp
  moreover have "ph_backend ?h = x" by (simp add: plugin_heap_new_def)
  ultimately show ?thesis
    using assms by (simp add: manager_ok_def tables_ok_Initialize ModuleManager_Initialize_def
        ModuleManager_new_def held_def heap_ok_def holds_def refs_def tables_ok_def)
qed

lemma with_prepare:
  assumes "manager_with ext E B st"
  shows "\<exists>r st1. prepare_plugin ops c st = Inr (r, st1) \<and>
     (case r of None \<Rightarrow> manager_with ext E B st1 | Some a \<Rightarrow> a \<notin> E \<and> manager_with ext (insert a E) B st1)"
proof -
  obtain mm h where st: "st = (mm, h)" by fastforce
  have f: "mm_factory mm = Some create" and t: "tables_ok mm" and hd: "held ext E B (slots mm) h"
    using assms st by (simp_all add: manager_with_def)
  obtain r x where cp: "create_plugin ops create c (ph_backend h) = (r, x)" by fastforce
  show ?thesis
  proof (cases r)
    case None
    then show ?thesis
      using f t held_backend_None [OF hd, of c x] cp st by (simp add: prepare_plugin_def manager_with_def)
  next
    case (Some p)
    obtain a h1 where mk: "make_shared p (h\<lparr>ph_backend := x\<rparr>) = (a, h1)" by fastforce
    then show ?thesis
      using f t held_make [OF hd cp [unfolded Some] mk] cp Some st by (simp add: prepare_plugin_def manager_with_def)
  qed
qed

lemma with_commit_load:
  assumes "manager_with ext E B st" and "a \<in> E"
  shows "manager_with ext (E - {a}) B (commit_load ops c a st)"
proof -
  obtain mm h where st: "st = (mm, h)" by fastforce
  let ?h' = "case um_find (mm_modules mm) (mc_name c) of None \<Rightarrow> h | Some old \<Rightarrow> release ops old h"
  let ?mm' = "record_config c (mm\<lparr>mm_modules := um_assign (mc_name c) a (mm_modules mm)\<rparr>)"
  have eq: "commit_load ops c a (mm, h) = (?mm', ?h')" by (simp add: commit_load_def slot_assign_def)
  have "held ext (E - {a}) B ((slots mm)((True, mc_name c) \<mapsto> a)) ?h'"
    using held_assign [of ext E B "slots mm" h a "(True, mc_name c)"] assms st
    by (simp add: manager_with_def slots_simps)
  moreover have "slots ?mm' = (slots mm)((True, mc_name c) \<mapsto> a)"
    by (rule slots_eqI) (simp_all add: record_config_def slots_simps)
  ultimately show ?thesis
    using assms(1) tables_ok_commit_load [OF _ eq] st by (simp add: eq manager_with_def record_config_def)
qed

lemma with_commit_reload:
  assumes "manager_with ext E B st" and "a \<in> E"
  shows "manager_with ext (E - {a}) B (commit_reload ops c a st)"
proof -
  obtain mm h where st: "st = (mm, h)" by fastforce
  have f: "mm_factory mm = Some create" and t: "tables_ok mm" and hd: "held ext E B (slots mm) h"
    using assms st by (simp_all add: manager_with_def)
  let ?n = "mc_name c"
  show ?thesis
  proof (cases "um_find (mm_modules mm) ?n")
    case None
    let ?mm' = "record_config c (mm\<lparr>mm_modules := um_assign ?n a (mm_modules mm)\<rparr>)"
    have eq: "commit_reload ops c a (mm, h) = (?mm', h)" using None by (simp add: commit_reload_def)
    have "held ext (E - {a}) B ((slots mm)((True, ?n) \<mapsto> a)) h"
      using held_put [OF hd, of "(True, ?n)" a] None assms(2) by (simp add: slots_simps)
    moreover have "slots ?mm' = (slots mm)((True, ?n) \<mapsto> a)"
      by (rule slots_eqI) (simp_all add: record_config_def slots_simps)
    ultimately show ?thesis
      using f tables_ok_commit_reload [OF t eq] st by (simp add: eq manager_with_def record_config_def)
  next
    case (Some old)
    let ?h' = "case um_find (mm_previous_modules mm) ?n of None \<Rightarrow> h | Some b \<Rightarrow> release ops b h"
    let ?mm' = "record_config c (mm\<lparr>mm_modules := um_assign ?n a (mm_modules mm),
                  mm_previous_modules := um_assign ?n old (mm_previous_modules mm)\<rparr>)"
    let ?sl = "((slots mm)((True, ?n) := None))((False, ?n) \<mapsto> old)"
    have eq: "commit_reload ops c a (mm, h) = (?mm', ?h')" using Some by (simp add: commit_reload_def slot_assign_def)
    have "slots mm (True, ?n) = Some old" using Some by (simp add: slots_simps)
    note taken = held_taken [OF hd this]
    have "held ext E B ?sl ?h'"
      using held_assign [OF taken(1), of old "(False, ?n)"] taken(2) by (simp add: slots_simps)
    then have "held ext (E - {a}) B (?sl((True, ?n) \<mapsto> a)) ?h'"
      using held_put [of ext E B ?sl ?h' "(True, ?n)" a] assms(2) by simp
    moreover have "slots ?mm' = ?sl((True, ?n) \<mapsto> a)"
      by (rule slots_eqI) (simp_all add: record_config_def slots_simps)
    ultimately show ?thesis
      using f tables_ok_commit_reload [OF t eq] st by (simp add: eq manager_with_def record_config_def)
  qed
qed

lemma manager_ok_Load:
  assumes "manager_ok ext (mm, h)"
  shows "\<exists>ok st. ModuleManager_Load ops c (mm, h) = Inr (ok, st) \<and> manager_ok ext st"
proof -
  obtain r st1 where r: "prepare_plugin ops c (mm, h) = Inr (r, st1)"
    "case r of None \<Rightarrow> manager_with ext {} {#} st1 | Some a \<Rightarrow> a \<notin> {} \<and> manager_with ext {a} {#} st1"
    using with_prepare [of ext "{}" "{#}" "(mm, h)" c] assms unfolding manager_ok_with by blast
  then show ?thesis
    using with_commit_load [of ext _ "{#}" st1] by (cases r) (force simp: Load_split manager_ok_with)+
qed

lemma manager_ok_HotReload:
  assumes "manager_ok ext (mm, h)"
  shows "\<exists>ok st. ModuleManager_HotReload ops c (mm, h) = Inr (ok, st) \<and> manager_ok ext st"
proof -
  obtain r st1 where r: "prepare_plugin ops c (mm, h) = Inr (r, st1)"
    "case r of None \<Rightarrow> manager_with ext {} {#} st1 | Some a \<Rightarrow> a \<notin> {} \<and> manager_with ext {a} {#} st1"
    using with_prepare [of ext "{}" "{#}" "(mm, h)" c] assms unfolding manager_ok_with by blast
  then show ?thesis
    using with_commit_reload [of ext _ "{#}" st1] by (cases r) (force simp: HotReload_split manager_ok_with)+
qed

lemma manager_ok_HotReload_each:
  "manager_ok ext st \<Longrightarrow> \<exists>ok st'. HotReload_each ops cs b st = Inr (ok, st') \<and> manager_ok ext st'"
proof (induction cs arbitrary: b st)
  case (Cons c cs)
  obtain mm h where st: "st = (mm, h)" by fastforce
  obtain ok st1 where "ModuleManager_HotReload ops c st = Inr (ok, st1)" "manager_ok ext st1"
    using manager_ok_HotReload [of ext mm h c] Cons.prems st by blast
  then show ?case using Cons.IH [of st1] by simp
qed simp

lemma with_Rollback:
  assumes "manager_with ext E B (mm, h)"
  shows "manager_with ext E B (ModuleManager_Rollback ops n (mm, h))"
proof (cases "um_find (mm_previous_modules mm) n")
  case None
  then show ?thesis using assms by (simp add: ModuleManager_Rollback_def)
next
  case (Some a)
  have f: "mm_factory mm = Some create" and t: "tables_ok mm" and hd: "held ext E B (slots mm) h"
    using assms by (simp_all add: manager_with_def)
  let ?h' = "case um_find (mm_modules mm) n of None \<Rightarrow> h | Some old \<Rightarrow> release ops old h"
  define mm' where "mm' = fst (ModuleManager_Rollback ops n (mm, h))"
  have rb: "ModuleManager_Rollback ops n (mm, h) = (mm', ?h')" and f': "mm_factory mm' = mm_factory mm"
    using Some
    by (auto simp: mm'_def ModuleManager_Rollback_def slot_assign_def Let_def split: option.split)
  have "slots mm (False, n) = Some a" using Some by (simp add: slots_simps)
  note taken = held_taken [OF hd this]
  have "held ext E B (((slots mm)((False, n) := None))((True, n) \<mapsto> a)) ?h'"
    using held_assign [OF taken(1), of a "(True, n)"] taken(2) by (simp add: slots_simps)
  moreover have "slots mm' = ((slots mm)((False, n) := None))((True, n) \<mapsto> a)"
    using Rollback_tables [OF t rb] Some by (intro slots_eqI) (auto simp: slots_simps)
  ultimately show ?thesis
    using rb f f' tables_ok_Rollback [OF t rb] by (simp add: manager_with_def)
qed

lemma with_Unload:
  assumes "manager_with ext E B (mm, h)"
  shows "manager_with ext E B (ModuleManager_Unload ops n (mm, h))"
proof -
  have f: "mm_factory mm = Some create" and t: "tables_ok mm" and hd: "held ext E B (slots mm) h"
    using assms by (simp_all add: manager_with_def)
  let ?sl1 = "(slots mm)((True, n) := None)"
  define h1 where "h1 = (case um_find (mm_modules mm) n of None \<Rightarrow> h
     | Some a \<Rightarrow> release ops a (heap_shutdown ops a h))"
  define h2 where "h2 = (case um_find (mm_previous_modules mm) n of None \<Rightarrow> h1 | Some a \<Rightarrow> release ops a h1)"
  have h1: "held ext E B ?sl1 h1"
  proof (cases "um_find (mm_modules mm) n")
    case None
    then have "?sl1 = slots mm" by (simp add: fun_upd_idem slots_simps)
    then show ?thesis using hd None by (simp add: h1_def)
  next
    case (Some a)
    then have "slots mm (True, n) = Some a" by (simp add: slots_simps)
    note taken = held_taken [OF hd this]
    show ?thesis
      using held_shutdown_release [OF taken(1), of a] taken(2) Some by (simp add: h1_def)
  qed
  have h2: "held ext E B (?sl1((False, n) := None)) h2"
    using held_clear [OF h1, of "(False, n)"] by (simp add: h2_def slots_simps)
  define mm' where "mm' = fst (ModuleManager_Unload ops n (mm, h))"
  have ul: "ModuleManager_Unload ops n (mm, h) = (mm', h2)" and f': "mm_factory mm' = mm_factory mm"
    by (auto simp: mm'_def ModuleManager_Unload_def slot_erase_def h1_def h2_def split: option.split)
  have "slots mm' = ?sl1((False, n) := None)"
    using Unload_tables [of ops n mm h] ul by (intro slots_eqI) (auto simp: slots_simps)
  then show ?thesis
    using ul f f' h2 tables_ok_Unload [OF t ul] by (simp add: manager_with_def)
qed

lemma manager_ok_Rollback: "manager_ok ext (mm, h) \<Longrightarrow> manager_ok ext (ModuleManager_Rollback ops n (mm, h))"
  unfolding manager_ok_with by (rule with_Rollback)

lemma manager_ok_Unload: "manager_ok ext (mm, h) \<Longrightarrow> manager_ok ext (ModuleManager_Unload ops n (mm, h))"
  unfolding manager_ok_with by (rule with_Unload)

end

subsection \<open>Runs of the manager\<close>

datatype mm_op =
    MLoad ModuleConfig
  | MHotReload ModuleConfig
  | MHotReloadAll
  | MRollback string
  | MUnload string

text \<open>One operation, and a run; a null-factory error stops it.\<close>

fun mm_step :: "('p, 'x) IPlugin \<Rightarrow> mm_op \<Rightarrow> ('p, 'x) mm_state \<Rightarrow> mm_error + ('p, 'x) mm_state" where
  "mm_step ops (MLoad c) st = map_sum id snd (ModuleManager_Load ops c st)"
| "mm_step ops (MHotReload c) st = map_sum id snd (ModuleManager_HotReload ops c st)"
| "mm_step ops MHotReloadAll st = map_sum id snd (ModuleManager_HotReloadAll ops st)"
| "mm_step ops (MRollback n) st = Inr (ModuleManager_Rollback ops n st)"
| "mm_step ops (MUnload n) st = Inr (ModuleManager_Unload ops n st)"

fun mm_run :: "('p, 'x) IPlugin \<Rightarrow> mm_op list \<Rightarrow> ('p, 'x) mm_state \<Rightarrow> mm_error + ('p, 'x) mm_state" where
  "mm_run ops [] st = Inr st"
| "mm_run ops (x # xs) st = (case mm_step ops x st of Inl e \<Rightarrow> Inl e | Inr st' \<Rightarrow> mm_run ops xs st')"

context plugin_backend
begin

lemma manager_ok_step:
  assumes "manager_ok ext st"
  shows "\<exists>st'. mm_step ops x st = Inr st' \<and> manager_ok ext st'"
proof (cases st)
  case st: (Pair mm h)
  note ok = assms [unfolded st]
  show ?thesis
  proof (cases x)
    case (MLoad c)
    then show ?thesis using manager_ok_Load [OF ok, of c] st by fastforce
  next
    case (MHotReload c)
    then show ?thesis using manager_ok_HotReload [OF ok, of c] st by fastforce
  next
    case MHotReloadAll
    then show ?thesis
      using manager_ok_HotReload_each [OF assms, of "map snd (um_entries (mm_configs (fst st)))" True]
      by (auto simp: ModuleManager_HotReloadAll_def Let_def)
  qed (use manager_ok_Rollback [OF ok] manager_ok_Unload [OF ok] st in auto)
qed

lemma manager_ok_run: "manager_ok ext st \<Longrightarrow> \<exists>st'. mm_run ops xs st = Inr st' \<and> manager_ok ext st'"
proof (induction xs arbitrary: st)
  case (Cons x xs)
  then show ?case using manager_ok_step [OF Cons.prems, of x] by (fastforce split: sum.split)
qed simp

text \<open>What the invariant gives a client.\<close>

lemma with_loaded:
  assumes "manager_with ext E B (mm, h)" and "um_find (mm_modules mm) n = Some a"
  shows "\<exists>c. cell h a = Some c \<and> ready (so_obj c) \<and> owns (so_obj c) \<subseteq> live (ph_backend h)"
proof -
  have hd: "held ext E B (slots mm) h" using assms(1) by (simp add: manager_with_def)
  have "a \<in> ran (slots mm)" using assms(2) by (auto simp: slots_simps intro!: ranI [of _ "(True, n)"])
  then show ?thesis using held_cell [OF hd, of a] by blast
qed

lemma with_good: "manager_with ext E B (mm, h) \<Longrightarrow> good (ph_backend h) \<and> ext \<subseteq> live (ph_backend h)"
  using heldD heap_ok_rest by (fastforce simp: manager_with_def)

lemma with_empty:
  assumes "manager_with ext {} {#} (mm, h)" and "\<And>n. um_find (mm_modules mm) n = None"
  shows "live (ph_backend h) = ext"
proof -
  have t: "tables_ok mm" and hd: "held ext {} {#} (slots mm) h" using assms(1) by (simp_all add: manager_with_def)
  have "um_find (mm_previous_modules mm) n = None" for n
    using t assms(2) [of n] by (simp add: tables_ok_def)
  then have "slots mm = Map.empty" using assms(2) by (intro slots_eqI) simp_all
  then have none: "refs h a = 0" for a using holds_refs [OF heldD(2) [OF hd], of a] by simp
  have "cell h a = None" for a
    using none [of a] heap_okD(3) [OF heldD(1) [OF hd], of a] by (cases "cell h a") (simp_all add: refs_def)
  then have "ran (cell h) = {}" by (auto simp: ran_def)
  then show ?thesis using heldD(1) [OF hd] by (simp add: heap_ok_def)
qed

lemma manager_ok_loaded:
  assumes "manager_ok ext (mm, h)" and "um_find (mm_modules mm) n = Some a"
  shows "\<exists>c. cell h a = Some c \<and> ready (so_obj c) \<and> so_count c = 1 \<and> owns (so_obj c) \<subseteq> live (ph_backend h)"
proof -
  have hd: "held ext {} {#} (slots mm) h" using assms(1) by (simp add: manager_ok_def)
  have a: "a \<in> ran (slots mm)" using assms(2) by (auto simp: slots_simps intro!: ranI [of _ "(True, n)"])
  obtain c where c: "cell h a = Some c" "ready (so_obj c)" "owns (so_obj c) \<subseteq> live (ph_backend h)"
    using held_cell [OF hd, of a] a by blast
  then show ?thesis using holds_refs [OF heldD(2) [OF hd], of a] a by (auto simp: refs_def)
qed

lemma manager_ok_empty:
  assumes "manager_ok ext (mm, h)" and "\<And>n. um_find (mm_modules mm) n = None"
  shows "live (ph_backend h) = ext"
  using assms with_empty by (simp add: manager_ok_with)

lemma manager_ok_good: "manager_ok ext (mm, h) \<Longrightarrow> good (ph_backend h)"
  using with_good by (simp add: manager_ok_with)

text \<open>What callers of \<open>Get\<close> do: borrow a plugin, run one outside the manager, drop the reference.\<close>

lemma with_Get:
  assumes "manager_with ext E B (mm, h)" and "ModuleManager_Get n (mm, h) = (r, h1)"
  shows "case r of None \<Rightarrow> h1 = h | Some a \<Rightarrow> manager_with ext E (add_mset a B) (mm, h1)"
  using assms held_borrow [of ext E B "slots mm" h "(True, n)"]
  by (auto simp: ModuleManager_Get_def manager_with_def slots_simps split: option.splits)

lemma with_borrowed: "manager_with ext E B (mm, h) \<Longrightarrow> a \<in># B \<Longrightarrow> \<exists>c. cell h a = Some c"
  using held_borrowed by (fastforce simp: manager_with_def)

lemma with_return:
  "manager_with ext E B (mm, h) \<Longrightarrow> a \<in># B \<Longrightarrow> manager_with ext E (B - {#a#}) (mm, release ops a h)"
  by (simp add: manager_with_def held_return)

lemma with_backend:
  "manager_with ext E B (mm, h) \<Longrightarrow> good x \<Longrightarrow> live x = live (ph_backend h) - gone \<union> new \<Longrightarrow> gone \<subseteq> ext \<Longrightarrow>
     new \<inter> live (ph_backend h) = {} \<Longrightarrow> manager_with (ext - gone \<union> new) E B (mm, h\<lparr>ph_backend := x\<rparr>)"
  by (simp add: manager_with_def held_backend)

end

end
