(* ===== verification/Threads.thy ===== *)
theory Threads
  imports Main
begin

section \<open>Threads, read-write locks and progress\<close>

text \<open>
  What the models of concurrent code share: counting the threads that hold a lock, the state of a
  \<open>std::shared_mutex\<close> against its holders, and the argument that a system whose steps decrease a
  measure and that is never stuck runs to its end.
\<close>

subsection \<open>Counting\<close>

definition count_if :: "('a \<Rightarrow> bool) \<Rightarrow> 'a list \<Rightarrow> nat" where
  "count_if P xs = length (filter P xs)"

lemma count_if_simps [simp]:
  "count_if P [] = 0" "count_if P (x # xs) = (if P x then Suc (count_if P xs) else count_if P xs)"
  "count_if P (xs @ ys) = count_if P xs + count_if P ys"
  by (simp_all add: count_if_def)

lemma count_if_0: "count_if P xs = 0 \<longleftrightarrow> (\<forall>x \<in> set xs. \<not> P x)"
  by (simp add: count_if_def filter_empty_conv)

text \<open>The thread list after the thread between \<open>before\<close> and \<open>after\<close> has moved on or returned.\<close>

abbreviation moved :: "'t list \<Rightarrow> 't option \<Rightarrow> 't list \<Rightarrow> 't list" where
  "moved before t after \<equiv> before @ (case t of None \<Rightarrow> [] | Some q \<Rightarrow> [q]) @ after"

lemma count_if_moved:
  "count_if P (moved before t after) =
     count_if P before + (case t of None \<Rightarrow> 0 | Some q \<Rightarrow> if P q then 1 else 0) + count_if P after"
  by (simp split: option.split)

subsection \<open>A shared mutex and its holders\<close>

text \<open>\<open>n\<close> shared holders, \<open>u\<close> whether it is held exclusively.\<close>

definition rw_counts :: "('t \<Rightarrow> bool) \<Rightarrow> ('t \<Rightarrow> bool) \<Rightarrow> 't list \<Rightarrow> nat \<Rightarrow> bool \<Rightarrow> bool" where
  "rw_counts shared unique ths n u \<longleftrightarrow>
     count_if shared ths = n \<and> count_if unique ths = (if u then 1 else 0) \<and> \<not> (u \<and> 0 < n)"

lemma rw_unheld:
  assumes "rw_counts shared unique ths 0 False" and "t \<in> set ths"
  shows "\<not> shared t" and "\<not> unique t"
  using assms by (auto simp: rw_counts_def count_if_0)

text \<open>The exclusive holder is alone.\<close>

lemma rw_alone:
  assumes "rw_counts shared unique (before @ th # after) n u" and "unique th"
  shows "u" "n = 0" "\<forall>t \<in> set (before @ after). \<not> unique t \<and> \<not> shared t"
proof -
  have "count_if unique before + count_if unique after = 0" "u"
    using assms by (auto simp: rw_counts_def split: if_splits)
  moreover have "n = 0" using \<open>u\<close> assms by (simp add: rw_counts_def)
  moreover have "count_if shared before + count_if shared after = 0"
    using assms \<open>n = 0\<close> by (auto simp: rw_counts_def split: if_splits)
  ultimately show "u" "n = 0" "\<forall>t \<in> set (before @ after). \<not> unique t \<and> \<not> shared t"
    by (auto simp: count_if_0)
qed

subsection \<open>Progress\<close>

locale progress =
  fixes step :: "'c \<Rightarrow> 'c \<Rightarrow> bool" and inv :: "'c \<Rightarrow> bool" and work :: "'c \<Rightarrow> nat" and finished :: "'c \<Rightarrow> bool"
  assumes inv_step: "inv c \<Longrightarrow> step c c' \<Longrightarrow> inv c'"
    and work_step: "inv c \<Longrightarrow> step c c' \<Longrightarrow> work c' < work c"
    and not_stuck: "inv c \<Longrightarrow> \<not> finished c \<Longrightarrow> \<exists>c'. step c c'"
begin

lemma drains: "inv c \<Longrightarrow> \<exists>c'. step\<^sup>*\<^sup>* c c' \<and> finished c'"
proof (induction "work c" arbitrary: c rule: less_induct)
  case less
  show ?case
  proof (cases "finished c")
    case False
    obtain c1 where c1: "step c c1" using not_stuck [OF less.prems False] by blast
    then obtain c' where "step\<^sup>*\<^sup>* c1 c'" "finished c'"
      using less.hyps [OF work_step [OF less.prems c1] inv_step [OF less.prems c1]] by blast
    then show ?thesis using c1 by (meson converse_rtranclp_into_rtranclp)
  qed blast
qed

text \<open>Every schedule ends: from a state of the invariant at most \<open>work\<close> steps are possible.\<close>

lemma bounded: "(step ^^ n) c c' \<Longrightarrow> inv c \<Longrightarrow> n + work c' \<le> work c \<and> inv c'"
proof (induction n arbitrary: c')
  case (Suc n)
  then obtain d where "(step ^^ n) c d" "step d c'" by auto
  then show ?case using Suc.IH [of d] Suc.prems inv_step work_step [of d c'] by fastforce
qed simp

lemma maximal_finished:
  assumes "inv c" and "step\<^sup>*\<^sup>* c c'" and "\<nexists>d. step c' d"
  shows "finished c'"
proof -
  have "inv c'" using assms(2,1) by (induction rule: rtranclp_induct) (auto intro: inv_step)
  then show ?thesis using not_stuck assms(3) by blast
qed

end

end
