(* ===== verification/Module_Threads.thy ===== *)
theory Module_Threads
  imports Module_Resources Threads
begin

section \<open>The module manager: threads\<close>

text \<open>
  The calls of \<open>core/module_manager.cpp\<close> from any number of threads. \<open>Load\<close> and \<open>HotReload\<close> create and
  initialize a plugin without \<open>mutex_\<close> and install it in one locked section; \<open>HotReloadAll\<close> copies the
  configurations under the lock and then makes one \<open>HotReload\<close> after the other; \<open>Rollback\<close> and
  \<open>Unload\<close> are one locked section. A locked section is one step. A thread between the two halves holds
  the prepared plugin, so the resource invariant is the one of the manager with local pointers.
\<close>

datatype manager_pc =
    M_start mm_op
  | M_load ModuleConfig nat
  | M_reload ModuleConfig nat
  | M_each "ModuleConfig list" bool
  | M_each_reload ModuleConfig nat "ModuleConfig list" bool

type_synonym manager_thread = "mm_op \<times> manager_pc"

text \<open>What a thread does next: go on, or return (a Boolean, or nothing).\<close>

datatype manager_next = Next manager_pc | Return "bool option"

definition after_prepare ::
  "manager_next \<Rightarrow> (nat \<Rightarrow> manager_pc) \<Rightarrow> mm_error + nat option \<times> ('p, 'x) mm_state \<Rightarrow> mm_error + ('p, 'x) mm_state \<times> manager_next" where
  "after_prepare failed go r =
     (case r of
        Inl e \<Rightarrow> Inl e
      | Inr (None, st) \<Rightarrow> Inr (st, failed)
      | Inr (Some a, st) \<Rightarrow> Inr (st, Next (go a)))"

fun manager_exec ::
  "('p, 'x) IPlugin \<Rightarrow> manager_pc \<Rightarrow> ('p, 'x) mm_state \<Rightarrow> mm_error + ('p, 'x) mm_state \<times> manager_next" where
  "manager_exec ops (M_start (MLoad c)) st = after_prepare (Return (Some False)) (M_load c) (prepare_plugin ops c st)"
| "manager_exec ops (M_start (MHotReload c)) st = after_prepare (Return (Some False)) (M_reload c) (prepare_plugin ops c st)"
| "manager_exec ops (M_start MHotReloadAll) st = Inr (st, Next (M_each (map snd (um_entries (mm_configs (fst st)))) True))"
| "manager_exec ops (M_start (MRollback n)) st = Inr (ModuleManager_Rollback ops n st, Return None)"
| "manager_exec ops (M_start (MUnload n)) st = Inr (ModuleManager_Unload ops n st, Return None)"
| "manager_exec ops (M_load c a) st = Inr (commit_load ops c a st, Return (Some True))"
| "manager_exec ops (M_reload c a) st = Inr (commit_reload ops c a st, Return (Some True))"
| "manager_exec ops (M_each [] ok) st = Inr (st, Return (Some ok))"
| "manager_exec ops (M_each (c # cs) ok) st =
     after_prepare (Next (M_each cs False)) (\<lambda>a. M_each_reload c a cs ok) (prepare_plugin ops c st)"
| "manager_exec ops (M_each_reload c a cs ok) st = Inr (commit_reload ops c a st, Next (M_each cs ok))"

record ('p, 'x) Manager_run =
  mr_state :: "('p, 'x) mm_state"
  mr_threads :: "manager_thread list"
  mr_returned :: "(mm_op \<times> bool option) list"

text \<open>The thread at position \<open>n\<close> moves.\<close>

definition manager_move :: "('p, 'x) IPlugin \<Rightarrow> nat \<Rightarrow> ('p, 'x) Manager_run \<Rightarrow> mm_error + ('p, 'x) Manager_run" where
  "manager_move ops n r =
     (let (x, pc) = mr_threads r ! n; rest = take n (mr_threads r); more = drop (Suc n) (mr_threads r)
      in case manager_exec ops pc (mr_state r) of
           Inl e \<Rightarrow> Inl e
         | Inr (st, Next q) \<Rightarrow> Inr (r\<lparr>mr_state := st, mr_threads := rest @ (x, q) # more\<rparr>)
         | Inr (st, Return b) \<Rightarrow>
             Inr (r\<lparr>mr_state := st, mr_threads := rest @ more, mr_returned := mr_returned r @ [(x, b)]\<rparr>))"

definition manager_start :: "mm_op list \<Rightarrow> ('p, 'x) mm_state \<Rightarrow> ('p, 'x) Manager_run" where
  "manager_start xs st = \<lparr>mr_state = st, mr_threads = map (\<lambda>x. (x, M_start x)) xs, mr_returned = []\<rparr>"

text \<open>A schedule: positions outside the thread list are skipped.\<close>

fun manager_schedule :: "('p, 'x) IPlugin \<Rightarrow> nat list \<Rightarrow> ('p, 'x) Manager_run \<Rightarrow> mm_error + ('p, 'x) Manager_run" where
  "manager_schedule ops [] r = Inr r"
| "manager_schedule ops (n # ns) r =
     (if n < length (mr_threads r) then
        (case manager_move ops n r of Inl e \<Rightarrow> Inl e | Inr r' \<Rightarrow> manager_schedule ops ns r')
      else manager_schedule ops ns r)"

text \<open>The plugins that threads have prepared and not installed.\<close>

fun prepared :: "manager_pc \<Rightarrow> nat list" where
  "prepared (M_load c a) = [a]"
| "prepared (M_reload c a) = [a]"
| "prepared (M_each_reload c a cs ok) = [a]"
| "prepared _ = []"

definition prepared_all :: "manager_thread list \<Rightarrow> nat list" where
  "prepared_all ths = concat (map (\<lambda>th. prepared (snd th)) ths)"

lemma prepared_all_simps [simp]:
  "prepared_all [] = []" "prepared_all ((x, pc) # ths) = prepared pc @ prepared_all ths"
  "prepared_all (ths @ ths') = prepared_all ths @ prepared_all ths'"
  by (simp_all add: prepared_all_def)

text \<open>One thread alone does what the sequential call does.\<close>

lemma each_alone:
  "HotReload_each ops cs ok st = Inr (b, st') \<Longrightarrow>
     \<exists>k. \<forall>x ret. manager_schedule ops (replicate k 0) \<lparr>mr_state = st, mr_threads = [(x, M_each cs ok)], mr_returned = ret\<rparr> =
       Inr \<lparr>mr_state = st', mr_threads = [], mr_returned = ret @ [(x, Some b)]\<rparr>"
proof (induction ops cs ok st rule: HotReload_each.induct)
  case (1 ops ok st)
  then show ?case by (intro exI [of _ 1]) (simp add: manager_move_def)
next
  case (2 ops c cs ok st)
  obtain r st1 where prep: "prepare_plugin ops c st = Inr (r, st1)"
    using "2.prems" by (auto simp: HotReload_split split: sum.splits prod.splits option.splits)
  show ?case
  proof (cases r)
    case None
    have reload: "Inr (False, st1) = ModuleManager_HotReload ops c st" by (simp add: HotReload_split prep None)
    obtain k where "\<forall>x ret. manager_schedule ops (replicate k 0) \<lparr>mr_state = st1, mr_threads = [(x, M_each cs False)], mr_returned = ret\<rparr> =
       Inr \<lparr>mr_state = st', mr_threads = [], mr_returned = ret @ [(x, Some b)]\<rparr>"
      using "2.IH" [OF reload [symmetric] refl] "2.prems" by (auto simp: reload [symmetric])
    then show ?thesis
      by (intro exI [of _ "Suc k"]) (simp add: manager_move_def after_prepare_def prep None)
  next
    case (Some a)
    have reload: "Inr (True, commit_reload ops c a st1) = ModuleManager_HotReload ops c st" by (simp add: HotReload_split prep Some)
    obtain k where "\<forall>x ret. manager_schedule ops (replicate k 0)
         \<lparr>mr_state = commit_reload ops c a st1, mr_threads = [(x, M_each cs ok)], mr_returned = ret\<rparr> =
       Inr \<lparr>mr_state = st', mr_threads = [], mr_returned = ret @ [(x, Some b)]\<rparr>"
      using "2.IH" [OF reload [symmetric] refl] "2.prems" by (auto simp: reload [symmetric])
    then show ?thesis
      by (intro exI [of _ "Suc (Suc k)"]) (simp add: manager_move_def after_prepare_def prep Some)
  qed
qed

lemma call_alone:
  assumes "mm_step ops x st = Inr st'"
  shows "\<exists>k b. manager_schedule ops (replicate k 0) (manager_start [x] st) =
    Inr \<lparr>mr_state = st', mr_threads = [], mr_returned = [(x, b)]\<rparr>"
proof (cases x)
  case (MLoad c)
  obtain r st1 where prep: "prepare_plugin ops c st = Inr (r, st1)"
    using assms MLoad by (auto simp: Load_split split: sum.splits prod.splits option.splits)
  show ?thesis
  proof (cases r)
    case None
    then show ?thesis
      using assms unfolding MLoad
      by (intro exI [of _ "Suc 0"] exI [of _ "Some False"])
        (simp add: Load_split prep manager_start_def manager_move_def after_prepare_def)
  next
    case (Some a)
    then show ?thesis
      using assms unfolding MLoad
      by (intro exI [of _ "Suc (Suc 0)"] exI [of _ "Some True"])
        (simp add: Load_split prep manager_start_def manager_move_def after_prepare_def)
  qed
next
  case (MHotReload c)
  obtain r st1 where prep: "prepare_plugin ops c st = Inr (r, st1)"
    using assms MHotReload by (auto simp: HotReload_split split: sum.splits prod.splits option.splits)
  show ?thesis
  proof (cases r)
    case None
    then show ?thesis
      using assms unfolding MHotReload
      by (intro exI [of _ "Suc 0"] exI [of _ "Some False"])
        (simp add: HotReload_split prep manager_start_def manager_move_def after_prepare_def)
  next
    case (Some a)
    then show ?thesis
      using assms unfolding MHotReload
      by (intro exI [of _ "Suc (Suc 0)"] exI [of _ "Some True"])
        (simp add: HotReload_split prep manager_start_def manager_move_def after_prepare_def)
  qed
next
  case MHotReloadAll
  let ?cs = "map snd (um_entries (mm_configs (fst st)))"
  obtain b where "HotReload_each ops ?cs True st = Inr (b, st')"
    using assms unfolding MHotReloadAll
    by (cases "HotReload_each ops ?cs True st"; cases "projr (HotReload_each ops ?cs True st)")
      (simp_all add: ModuleManager_HotReloadAll_def)
  from each_alone [OF this] obtain k where all:
    "\<forall>x ret. manager_schedule ops (replicate k 0) \<lparr>mr_state = st, mr_threads = [(x, M_each ?cs True)], mr_returned = ret\<rparr> =
       Inr \<lparr>mr_state = st', mr_threads = [], mr_returned = ret @ [(x, Some b)]\<rparr>" by (rule exE)
  show ?thesis
    unfolding MHotReloadAll
    by (intro exI [of _ "Suc k"] exI [of _ "Some b"]) (simp add: manager_start_def manager_move_def all)
next
  case (MRollback n)
  then show ?thesis
    using assms by (intro exI [of _ "Suc 0"] exI [of _ None]) (simp add: manager_start_def manager_move_def)
next
  case (MUnload n)
  then show ?thesis
    using assms by (intro exI [of _ "Suc 0"] exI [of _ None]) (simp add: manager_start_def manager_move_def)
qed

context plugin_backend
begin

definition run_ok :: "nat set \<Rightarrow> ('p, 'x) Manager_run \<Rightarrow> bool" where
  "run_ok ext r \<longleftrightarrow>
     manager_with ext (set (prepared_all (mr_threads r))) {#} (mr_state r) \<and> distinct (prepared_all (mr_threads r))"

lemma run_ok_start: "manager_ok ext st \<Longrightarrow> run_ok ext (manager_start xs st)"
proof -
  have "prepared_all (map (\<lambda>x. (x, M_start x)) xs) = []" by (induction xs) simp_all
  then show "manager_ok ext st \<Longrightarrow> run_ok ext (manager_start xs st)"
    by (simp add: run_ok_def manager_start_def manager_ok_with)
qed

text \<open>The pointers a thread holds before and after its step.\<close>

definition next_prepared :: "manager_next \<Rightarrow> nat list" where
  "next_prepared nx = (case nx of Next q \<Rightarrow> prepared q | Return b \<Rightarrow> [])"

lemma after_prepare_ok:
  assumes "manager_with ext E B st" and "next_prepared failed = []" and "\<And>a. prepared (go a) = [a]"
  shows "\<exists>st1 nx. after_prepare failed go (prepare_plugin ops c st) = Inr (st1, nx) \<and>
     manager_with ext (E \<union> set (next_prepared nx)) B st1 \<and> set (next_prepared nx) \<inter> E = {} \<and> distinct (next_prepared nx)"
proof -
  obtain r st1 where "prepare_plugin ops c st = Inr (r, st1)"
    "case r of None \<Rightarrow> manager_with ext E B st1 | Some a \<Rightarrow> a \<notin> E \<and> manager_with ext (insert a E) B st1"
    using with_prepare [OF assms(1)] by blast
  then show ?thesis
    using assms(2,3) by (cases r; cases failed) (simp_all add: after_prepare_def next_prepared_def)
qed

lemma manager_exec_ok:
  assumes "manager_with ext (E \<union> set (prepared pc)) B st" and "set (prepared pc) \<inter> E = {}"
  shows "\<exists>st1 nx. manager_exec ops pc st = Inr (st1, nx) \<and>
     manager_with ext (E \<union> set (next_prepared nx)) B st1 \<and> set (next_prepared nx) \<inter> E = {} \<and> distinct (next_prepared nx)"
proof (cases pc)
  case (M_start x)
  obtain mm h where st: "st = (mm, h)" by fastforce
  show ?thesis
    using assms(1) M_start after_prepare_ok [of ext E B st] with_Rollback [of ext E B mm h] with_Unload [of ext E B mm h] st
    by (cases x) (simp_all add: next_prepared_def)
next
  case (M_load c a)
  then show ?thesis
    using assms with_commit_load [of ext "insert a E" B st a c] by (simp add: next_prepared_def)
next
  case (M_reload c a)
  then show ?thesis
    using assms with_commit_reload [of ext "insert a E" B st a c] by (simp add: next_prepared_def)
next
  case (M_each cs ok)
  then show ?thesis
    using assms(1) after_prepare_ok [of ext E B st] by (cases cs) (simp_all add: next_prepared_def)
next
  case (M_each_reload c a cs ok)
  then show ?thesis
    using assms with_commit_reload [of ext "insert a E" B st a c] by (simp add: next_prepared_def)
qed

lemma run_ok_move:
  assumes ok: "run_ok ext r" and n: "n < length (mr_threads r)"
  shows "\<exists>r'. manager_move ops n r = Inr r' \<and> run_ok ext r'"
proof -
  obtain x pc where th: "mr_threads r ! n = (x, pc)" by fastforce
  define rest where "rest = take n (mr_threads r)"
  define more where "more = drop (Suc n) (mr_threads r)"
  have split: "mr_threads r = rest @ (x, pc) # more"
    using id_take_nth_drop [OF n] th by (simp add: rest_def more_def)
  let ?E = "set (prepared_all rest) \<union> set (prepared_all more)"
  have pre: "manager_with ext (?E \<union> set (prepared pc)) {#} (mr_state r)" "set (prepared pc) \<inter> ?E = {}"
    "distinct (prepared_all rest @ prepared_all more)"
    using ok by (auto simp: run_ok_def split Un_ac)
  obtain st1 nx where exec: "manager_exec ops pc (mr_state r) = Inr (st1, nx)"
    and post: "manager_with ext (?E \<union> set (next_prepared nx)) {#} st1" "set (next_prepared nx) \<inter> ?E = {}" "distinct (next_prepared nx)"
    using manager_exec_ok [OF pre(1,2)] by blast
  show ?thesis
  proof (cases nx)
    case (Next q)
    then have "manager_move ops n r = Inr (r\<lparr>mr_state := st1, mr_threads := rest @ (x, q) # more\<rparr>)"
      using exec th by (simp add: manager_move_def rest_def more_def)
    then show ?thesis
      using post pre(3) Next by (auto simp: run_ok_def next_prepared_def Un_ac)
  next
    case (Return b)
    then have "manager_move ops n r = Inr (r\<lparr>mr_state := st1, mr_threads := rest @ more, mr_returned := mr_returned r @ [(x, b)]\<rparr>)"
      using exec th by (simp add: manager_move_def rest_def more_def)
    then show ?thesis
      using post pre(3) Return by (simp add: run_ok_def next_prepared_def)
  qed
qed

lemma run_ok_schedule: "run_ok ext r \<Longrightarrow> \<exists>r'. manager_schedule ops ns r = Inr r' \<and> run_ok ext r'"
proof (induction ns arbitrary: r)
  case (Cons n ns)
  then show ?case using run_ok_move [OF Cons.prems, of n] by fastforce
qed simp

end

text \<open>An \<open>Unload\<close> between the snapshot and the reload of \<open>HotReloadAll\<close>, and in either order without overlap.\<close>

lemma Unload_fields:
  assumes "ModuleManager_Unload ops n (mm, h) = (mm', h')"
  shows "mm_factory mm' = mm_factory mm" "um_find (mm_modules mm') n = None" "mm_configs mm' = um_erase n (mm_configs mm)"
  using assms by (auto simp: ModuleManager_Unload_def slot_erase_def Let_def split: option.splits prod.splits)

lemma prepare_with_factory:
  assumes "mm_factory mm \<noteq> None"
  shows "\<exists>r h1. prepare_plugin ops c (mm, h) = Inr (r, mm, h1)"
  using assms by (auto simp: prepare_plugin_def Let_def split: option.split prod.split)

lemma unload_last:
  assumes "um_entries (mm_configs mm) = [(n, c)]" and "mm_factory mm \<noteq> None"
    and "xs = [MHotReloadAll, MUnload n] \<or> xs = [MUnload n, MHotReloadAll]"
  shows "\<exists>mm' h'. mm_run ops xs (mm, h) = Inr (mm', h') \<and> um_find (mm_modules mm') n = None"
proof -
  obtain mm1 h1 where un: "ModuleManager_Unload ops n (mm, h) = (mm1, h1)" by fastforce
  have "um_entries (mm_configs mm1) = []"
    using assms(1) Unload_fields(3) [OF un] by (simp add: um_defs)
  then have second: "\<exists>mm' h'. mm_run ops [MUnload n, MHotReloadAll] (mm, h) = Inr (mm', h') \<and> um_find (mm_modules mm') n = None"
    using Unload_fields(2) [OF un] by (simp add: un ModuleManager_HotReloadAll_def)
  obtain r h2 where prep: "prepare_plugin ops c (mm, h) = Inr (r, mm, h2)"
    using prepare_with_factory [OF assms(2)] by blast
  define st where "st = (case r of None \<Rightarrow> (mm, h2) | Some a \<Rightarrow> commit_reload ops c a (mm, h2))"
  have "mm_step ops MHotReloadAll (mm, h) = Inr st"
    using assms(1) prep by (cases r) (simp_all add: ModuleManager_HotReloadAll_def HotReload_split st_def)
  moreover obtain mm' h' where "ModuleManager_Unload ops n st = (mm', h')" by fastforce
  moreover then have "um_find (mm_modules mm') n = None"
    by (cases st) (auto dest: Unload_fields(2))
  ultimately show ?thesis using second assms(3) by auto
qed

section \<open>Properties\<close>

text \<open>C25: Module manager on threads, the gap in \<open>HotReloadAll\<close>: it copies the configurations and releases the
  lock. If a module is unloaded after the copy and its reload succeeds, the module is loaded again when
  both calls have returned, although \<open>Unload\<close> has returned too; if the two calls do not overlap the
  module is gone in either order.\<close>

theorem reload_all_resurrects:
  assumes "um_entries (mm_configs mm) = [(n, c)]" and "mc_name c = n" and "mm_factory mm \<noteq> None"
    and "prepare_plugin ops c (ModuleManager_Unload ops n (mm, h)) = Inr (Some a, mm1, h1)"
  shows "(\<exists>r. manager_schedule ops [0, 1, 0, 0, 0] (manager_start [MHotReloadAll, MUnload n] (mm, h)) = Inr r \<and>
        mr_threads r = [] \<and> map fst (mr_returned r) = [MUnload n, MHotReloadAll] \<and>
        um_find (mm_modules (fst (mr_state r))) n = Some a) \<and>
      (\<forall>xs. xs = [MHotReloadAll, MUnload n] \<or> xs = [MUnload n, MHotReloadAll] \<longrightarrow>
         (\<exists>mm' h'. mm_run ops xs (mm, h) = Inr (mm', h') \<and> um_find (mm_modules mm') n = None))"
  using unload_last [OF assms(1,3)] assms(1,2,4)
  by (auto simp: manager_start_def manager_move_def after_prepare_def commit_reload_def record_config_def Let_def split: prod.split)

theorem reload_all_resurrects_witness:
  "(\<exists>r. manager_schedule bit_ops [0, 1, 0, 0, 0] (manager_start [MHotReloadAll, MUnload ''m''] (bit_manager, bit_heap)) = Inr r \<and>
        mr_threads r = [] \<and> map fst (mr_returned r) = [MUnload ''m'', MHotReloadAll] \<and>
        um_find (mm_modules (fst (mr_state r))) ''m'' = Some 1) \<and>
      (\<exists>mm' h'. mm_run bit_ops [MHotReloadAll, MUnload ''m''] (bit_manager, bit_heap) = Inr (mm', h') \<and>
         um_find (mm_modules mm') ''m'' = None)"
proof -
  have "um_entries (mm_configs bit_manager) = [(''m'', bit_config 1)]" "mc_name (bit_config 1) = ''m''"
    "mm_factory bit_manager \<noteq> None"
    by (simp_all add: bit_manager_def bit_config_def record_config_def ModuleManager_Initialize_def ModuleManager_new_def um_defs)
  moreover obtain mm1 h1 where "prepare_plugin bit_ops (bit_config 1) (ModuleManager_Unload bit_ops ''m'' (bit_manager, bit_heap)) = Inr (Some 1, mm1, h1)"
    by (simp add: prepare_plugin_def create_plugin_def ModuleManager_Unload_def slot_erase_def heap_shutdown_def bit_ops_def bit_config_def
        bit_manager_def bit_heap_def ModuleManager_Initialize_def ModuleManager_new_def make_shared_def release_def cell_def record_config_def um_defs)
  ultimately show ?thesis using reload_all_resurrects by blast
qed

end
