(* ===== verification/Actor_Mailbox.thy ===== *)
theory Actor_Mailbox
  imports Prelude
begin

section \<open>Actors: the mailbox and the strand\<close>

text \<open>
  \<open>actor/actor.h\<close> and \<open>actor/actor.cpp\<close>, class \<open>Actor\<close>. The strand is asio's: the closures posted
  to it run in the order of posting, one at a time. The model keeps the posted closures that have
  not started yet as a list. \<open>HandleMessage\<close> and \<open>Tick\<close> are virtual, so they are the two entries of
  a method table over the state \<open>'s\<close> that the subclass works on.
\<close>

record ActorMessage =
  am_sender_id :: u64
  am_payload :: bytes

text \<open>The two closures an actor posts: \<open>ProcessMessages\<close> alone, and \<open>ProcessMessages\<close> then \<open>Tick\<close>.\<close>

datatype strand_task = PostedProcess | PostedTick u64

record Actor =
  ac_actor_id :: u64
  ac_mailbox :: "ActorMessage list"
  ac_strand :: "strand_task list"

record 's ActorMethods =
  vt_HandleMessage :: "u64 \<Rightarrow> bytes \<Rightarrow> 's \<Rightarrow> 's"
  vt_Tick :: "u64 \<Rightarrow> 's \<Rightarrow> 's"

definition Actor_new :: "u64 \<Rightarrow> Actor" where
  "Actor_new i = \<lparr>ac_actor_id = i, ac_mailbox = [], ac_strand = []\<rparr>"

definition Actor_EnqueueMessage :: "u64 \<Rightarrow> bytes \<Rightarrow> Actor \<Rightarrow> Actor" where
  "Actor_EnqueueMessage sender_id payload a =
     (let was_empty = (ac_mailbox a = []);
          a1 = a\<lparr>ac_mailbox := ac_mailbox a @ [\<lparr>am_sender_id = sender_id, am_payload = payload\<rparr>]\<rparr>
      in if was_empty then a1\<lparr>ac_strand := ac_strand a1 @ [PostedProcess]\<rparr> else a1)"

definition Actor_ScheduleTick :: "u64 \<Rightarrow> Actor \<Rightarrow> Actor" where
  "Actor_ScheduleTick interval_ms a = a\<lparr>ac_strand := ac_strand a @ [PostedTick interval_ms]\<rparr>"

text \<open>
  \<open>ProcessMessages\<close> first swaps the mailbox with an empty local queue under the mutex, then handles
  the local messages one by one without it.
\<close>

definition swap_mailbox :: "Actor \<Rightarrow> ActorMessage list \<times> Actor" where
  "swap_mailbox a = (ac_mailbox a, a\<lparr>ac_mailbox := []\<rparr>)"

definition handle_one :: "'s ActorMethods \<Rightarrow> ActorMessage \<Rightarrow> 's \<Rightarrow> 's" where
  "handle_one vt m s = vt_HandleMessage vt (am_sender_id m) (am_payload m) s"

definition Actor_ProcessMessages :: "'s ActorMethods \<Rightarrow> Actor \<Rightarrow> 's \<Rightarrow> Actor \<times> 's" where
  "Actor_ProcessMessages vt a s =
     (let (local_messages, a') = swap_mailbox a in (a', fold (handle_one vt) local_messages s))"

definition run_strand_task :: "'s ActorMethods \<Rightarrow> strand_task \<Rightarrow> Actor \<Rightarrow> 's \<Rightarrow> Actor \<times> 's" where
  "run_strand_task vt t a s =
     (case t of
        PostedProcess \<Rightarrow> Actor_ProcessMessages vt a s
      | PostedTick interval_ms \<Rightarrow>
          (let (a', s') = Actor_ProcessMessages vt a s in (a', vt_Tick vt interval_ms s')))"

subsection \<open>Small steps\<close>

text \<open>
  Other threads enqueue and schedule ticks at any moment, also between the swap of a running
  \<open>ProcessMessages\<close> and its end. \<open>actor_pc\<close> says where the strand is: idle, at the start of a closure,
  or in the loop over the local messages with the tick that follows, if any.
\<close>

datatype actor_pc =
    StrandIdle
  | Started strand_task
  | Handling "ActorMessage list" "u64 option"

text \<open>What the strand has done so far.\<close>

datatype actor_event = Handled ActorMessage | Ticked u64

record 's actor_run =
  ar_actor :: Actor
  ar_pc :: actor_pc
  ar_state :: 's
  ar_sent :: "ActorMessage list"
  ar_scheduled :: "u64 list"
  ar_log :: "actor_event list"

definition tick_of :: "strand_task \<Rightarrow> u64 option" where
  "tick_of t = (case t of PostedProcess \<Rightarrow> None | PostedTick i \<Rightarrow> Some i)"

definition actor_start :: "Actor \<Rightarrow> 's \<Rightarrow> 's actor_run" where
  "actor_start a s = \<lparr>ar_actor = a, ar_pc = StrandIdle, ar_state = s, ar_sent = [], ar_scheduled = [], ar_log = []\<rparr>"

text \<open>The environment's steps.\<close>

definition env_enqueue :: "u64 \<Rightarrow> bytes \<Rightarrow> 's actor_run \<Rightarrow> 's actor_run" where
  "env_enqueue i p r =
     r\<lparr>ar_actor := Actor_EnqueueMessage i p (ar_actor r),
       ar_sent := ar_sent r @ [\<lparr>am_sender_id = i, am_payload = p\<rparr>]\<rparr>"

definition env_schedule :: "u64 \<Rightarrow> 's actor_run \<Rightarrow> 's actor_run" where
  "env_schedule i r =
     r\<lparr>ar_actor := Actor_ScheduleTick i (ar_actor r), ar_scheduled := ar_scheduled r @ [i]\<rparr>"

text \<open>The next step of the strand; an idle strand without posted closures stays as it is.\<close>

definition strand_next :: "'s ActorMethods \<Rightarrow> 's actor_run \<Rightarrow> 's actor_run" where
  "strand_next vt r =
     (case ar_pc r of
        StrandIdle \<Rightarrow>
          (case ac_strand (ar_actor r) of
             [] \<Rightarrow> r
           | t # ts \<Rightarrow> r\<lparr>ar_actor := (ar_actor r)\<lparr>ac_strand := ts\<rparr>, ar_pc := Started t\<rparr>)
      | Started t \<Rightarrow>
          (let (local_messages, a') = swap_mailbox (ar_actor r)
           in r\<lparr>ar_actor := a', ar_pc := Handling local_messages (tick_of t)\<rparr>)
      | Handling (m # ms) tick \<Rightarrow>
          r\<lparr>ar_pc := Handling ms tick, ar_state := handle_one vt m (ar_state r),
            ar_log := ar_log r @ [Handled m]\<rparr>
      | Handling [] (Some i) \<Rightarrow>
          r\<lparr>ar_pc := StrandIdle, ar_state := vt_Tick vt i (ar_state r), ar_log := ar_log r @ [Ticked i]\<rparr>
      | Handling [] None \<Rightarrow> r\<lparr>ar_pc := StrandIdle\<rparr>)"

inductive actor_step :: "'s ActorMethods \<Rightarrow> 's actor_run \<Rightarrow> 's actor_run \<Rightarrow> bool" for vt where
  enqueue: "actor_step vt r (env_enqueue i p r)"
| schedule: "actor_step vt r (env_schedule i r)"
| strand: "actor_step vt r (strand_next vt r)"

inductive actor_reachable :: "'s ActorMethods \<Rightarrow> u64 \<Rightarrow> 's \<Rightarrow> 's actor_run \<Rightarrow> bool" for vt i s where
  start: "actor_reachable vt i s (actor_start (Actor_new i) s)"
| step: "actor_reachable vt i s r \<Longrightarrow> actor_step vt r r' \<Longrightarrow> actor_reachable vt i s r'"

inductive_cases actor_stepE: "actor_step vt r r'"

subsection \<open>The invariant\<close>

definition handled :: "'s actor_run \<Rightarrow> ActorMessage list" where
  "handled r = List.map_filter (\<lambda>e. case e of Handled m \<Rightarrow> Some m | Ticked i \<Rightarrow> None) (ar_log r)"

definition ticked :: "'s actor_run \<Rightarrow> u64 list" where
  "ticked r = List.map_filter (\<lambda>e. case e of Handled m \<Rightarrow> None | Ticked i \<Rightarrow> Some i) (ar_log r)"

text \<open>Messages swapped out and not handled yet; ticks whose closure has started, or waits.\<close>

definition in_flight :: "'s actor_run \<Rightarrow> ActorMessage list" where
  "in_flight r = (case ar_pc r of Handling ms tick \<Rightarrow> ms | _ \<Rightarrow> [])"

definition pending_ticks :: "'s actor_run \<Rightarrow> u64 list" where
  "pending_ticks r =
     (case ar_pc r of
        StrandIdle \<Rightarrow> []
      | Started t \<Rightarrow> (case tick_of t of None \<Rightarrow> [] | Some i \<Rightarrow> [i])
      | Handling ms tick \<Rightarrow> (case tick of None \<Rightarrow> [] | Some i \<Rightarrow> [i])) @
     List.map_filter tick_of (ac_strand (ar_actor r))"

text \<open>A closure that has not swapped the mailbox yet is posted or has just started.\<close>

definition wakeup_pending :: "'s actor_run \<Rightarrow> bool" where
  "wakeup_pending r \<longleftrightarrow> ac_strand (ar_actor r) \<noteq> [] \<or> (\<exists>t. ar_pc r = Started t)"

definition apply_event :: "'s ActorMethods \<Rightarrow> actor_event \<Rightarrow> 's \<Rightarrow> 's" where
  "apply_event vt e s = (case e of Handled m \<Rightarrow> handle_one vt m s | Ticked i \<Rightarrow> vt_Tick vt i s)"

definition actor_inv :: "'s ActorMethods \<Rightarrow> 's \<Rightarrow> 's actor_run \<Rightarrow> bool" where
  "actor_inv vt s r \<longleftrightarrow>
     ar_sent r = handled r @ in_flight r @ ac_mailbox (ar_actor r) \<and>
     ar_scheduled r = ticked r @ pending_ticks r \<and>
     (ac_mailbox (ar_actor r) \<noteq> [] \<longrightarrow> wakeup_pending r) \<and>
     ar_state r = fold (apply_event vt) (ar_log r) s"

lemma map_filter_append [simp]: "List.map_filter f (xs @ ys) = List.map_filter f xs @ List.map_filter f ys"
  by (simp add: List.map_filter_def)

lemma map_filter_single [simp]:
  "List.map_filter f [x] = (case f x of None \<Rightarrow> [] | Some y \<Rightarrow> [y])"
  by (simp add: List.map_filter_def split: option.split)

lemmas actor_run_defs = handled_def ticked_def in_flight_def pending_ticks_def wakeup_pending_def
  apply_event_def

lemma actor_inv_start: "actor_inv vt s (actor_start (Actor_new i) s)"
  by (simp add: actor_inv_def actor_start_def Actor_new_def actor_run_defs List.map_filter_def)

lemma actor_inv_enqueue: "actor_inv vt s r \<Longrightarrow> actor_inv vt s (env_enqueue i p r)"
  by (auto simp: actor_inv_def env_enqueue_def Actor_EnqueueMessage_def Let_def actor_run_defs tick_of_def
      split: actor_pc.splits)

lemma actor_inv_schedule: "actor_inv vt s r \<Longrightarrow> actor_inv vt s (env_schedule i r)"
  by (auto simp: actor_inv_def env_schedule_def Actor_ScheduleTick_def actor_run_defs tick_of_def
      split: actor_pc.splits)

lemma actor_inv_strand: "actor_inv vt s r \<Longrightarrow> actor_inv vt s (strand_next vt r)"
  by (cases r; cases "ar_pc r")
    (auto simp: actor_inv_def strand_next_def swap_mailbox_def actor_run_defs List.map_filter_def tick_of_def
      split: list.splits option.splits strand_task.splits)

lemma actor_inv_step: "actor_step vt r r' \<Longrightarrow> actor_inv vt s r \<Longrightarrow> actor_inv vt s r'"
  by (auto elim!: actor_stepE intro: actor_inv_enqueue actor_inv_schedule actor_inv_strand)

lemma actor_inv_reachable: "actor_reachable vt i s r \<Longrightarrow> actor_inv vt s r"
  by (induction rule: actor_reachable.induct) (auto intro: actor_inv_start actor_inv_step)

subsection \<open>The strand drains the mailbox\<close>

definition quiescent :: "'s actor_run \<Rightarrow> bool" where
  "quiescent r \<longleftrightarrow> ar_pc r = StrandIdle \<and> ac_strand (ar_actor r) = []"

text \<open>An upper bound on the strand steps left when nothing more is enqueued.\<close>

definition strand_work :: "'s actor_run \<Rightarrow> nat" where
  "strand_work r =
     3 * length (ac_strand (ar_actor r)) + length (ac_mailbox (ar_actor r)) +
     (case ar_pc r of StrandIdle \<Rightarrow> 0 | Started t \<Rightarrow> 2 | Handling ms tick \<Rightarrow> length ms + 1)"

lemma strand_next_work: "\<not> quiescent r \<Longrightarrow> strand_work (strand_next vt r) < strand_work r"
  by (cases r; cases "ar_pc r")
    (auto simp: quiescent_def strand_work_def strand_next_def swap_mailbox_def split: list.splits option.splits)

lemma strand_next_quiescent: "quiescent r \<Longrightarrow> strand_next vt r = r"
  by (simp add: quiescent_def strand_next_def)

lemma strand_next_sent [simp]:
  "ar_sent (strand_next vt r) = ar_sent r" "ar_scheduled (strand_next vt r) = ar_scheduled r"
  by (auto simp: strand_next_def swap_mailbox_def split: actor_pc.split list.split option.split)

lemma funpow_sent [simp]:
  "ar_sent ((strand_next vt ^^ n) r) = ar_sent r" "ar_scheduled ((strand_next vt ^^ n) r) = ar_scheduled r"
  by (induction n) simp_all

lemma strand_drains: "strand_work r \<le> n \<Longrightarrow> quiescent ((strand_next vt ^^ n) r)"
proof (induction n arbitrary: r)
  case 0
  then show ?case using strand_next_work [of r] by fastforce
next
  case (Suc n)
  show ?case
  proof (cases "quiescent r")
    case True
    have "(strand_next vt ^^ k) r = r" for k
      by (induction k) (simp_all add: strand_next_quiescent True)
    then show ?thesis using True by metis
  next
    case False
    then have "strand_work (strand_next vt r) \<le> n" using strand_next_work [OF False, of vt] Suc.prems by simp
    then show ?thesis using Suc.IH by (simp add: funpow_swap1)
  qed
qed

lemma actor_inv_funpow: "actor_inv vt s r \<Longrightarrow> actor_inv vt s ((strand_next vt ^^ n) r)"
  by (induction n) (auto intro: actor_inv_strand)

lemma quiescent_all_done:
  assumes "actor_inv vt s r" and "quiescent r"
  shows "handled r = ar_sent r" and "ticked r = ar_scheduled r" and "ac_mailbox (ar_actor r) = []"
  using assms by (auto simp: actor_inv_def quiescent_def in_flight_def pending_ticks_def wakeup_pending_def
      List.map_filter_def)

subsection \<open>The small steps implement the closures\<close>

lemma Handling_loop:
  "(strand_next vt ^^ length ms) (r\<lparr>ar_pc := Handling ms tick\<rparr>) =
     r\<lparr>ar_pc := Handling [] tick, ar_state := fold (handle_one vt) ms (ar_state r),
       ar_log := ar_log r @ map Handled ms\<rparr>"
proof (induction ms arbitrary: r)
  case (Cons m ms)
  have "strand_next vt (r\<lparr>ar_pc := Handling (m # ms) tick\<rparr>) =
      (r\<lparr>ar_state := handle_one vt m (ar_state r), ar_log := ar_log r @ [Handled m]\<rparr>)\<lparr>ar_pc := Handling ms tick\<rparr>"
    by (simp add: strand_next_def)
  then show ?case by (simp add: funpow_swap1 [symmetric] Cons.IH funpow_Suc_right del: funpow.simps)
qed simp

lemma strand_task_steps:
  assumes "ar_pc r = StrandIdle" and "ac_strand (ar_actor r) = t # ts"
    and "run_strand_task vt t ((ar_actor r)\<lparr>ac_strand := ts\<rparr>) (ar_state r) = (a', s')"
  shows "\<exists>n r'. (strand_next vt ^^ n) r = r' \<and> ar_pc r' = StrandIdle \<and> ar_actor r' = a' \<and> ar_state r' = s'"
proof -
  let ?ms = "ac_mailbox (ar_actor r)"
  let ?a = "(ar_actor r)\<lparr>ac_strand := ts, ac_mailbox := []\<rparr>"
  have two: "(strand_next vt ^^ 2) r = (r\<lparr>ar_actor := ?a\<rparr>)\<lparr>ar_pc := Handling ?ms (tick_of t)\<rparr>"
    using assms(1,2) by (simp add: numeral_2_eq_2 strand_next_def swap_mailbox_def)
  let ?r3 = "(strand_next vt ^^ length ?ms) ((strand_next vt ^^ 2) r)"
  have r3: "?r3 = (r\<lparr>ar_actor := ?a\<rparr>)\<lparr>ar_pc := Handling [] (tick_of t),
      ar_state := fold (handle_one vt) ?ms (ar_state r), ar_log := ar_log r @ map Handled ?ms\<rparr>"
    unfolding two by (subst Handling_loop) simp
  have "ar_pc (strand_next vt ?r3) = StrandIdle \<and> ar_actor (strand_next vt ?r3) = a' \<and>
      ar_state (strand_next vt ?r3) = s'"
    using assms(3) unfolding r3
    by (auto simp: strand_next_def run_strand_task_def Actor_ProcessMessages_def swap_mailbox_def tick_of_def
        split: strand_task.splits)
  moreover have "strand_next vt ?r3 = (strand_next vt ^^ (Suc (length ?ms + 2))) r"
    by (simp only: funpow.simps(2) funpow_add o_apply)
  ultimately show ?thesis by metis
qed

text \<open>Methods that append what they are given.\<close>

definition append_methods :: "bytes ActorMethods" where
  "append_methods = \<lparr>vt_HandleMessage = (\<lambda>i p s. s @ p), vt_Tick = (\<lambda>i s. s @ [ucast i])\<rparr>"

lemma strand_all_done:
  assumes "actor_reachable vt i s r"
  shows "let r' = (strand_next vt ^^ strand_work r) r in
      quiescent r' \<and> handled r' = ar_sent r \<and> ticked r' = ar_scheduled r \<and> ac_mailbox (ar_actor r') = []"
  using quiescent_all_done [OF actor_inv_funpow [OF actor_inv_reachable [OF assms]] strand_drains [OF le_refl]]
    strand_drains [of r "strand_work r" vt] by (simp add: Let_def)

section \<open>Properties\<close>

text \<open>C12: Actor mailbox. In every interleaving of enqueuing threads with the strand, the messages sent so
  far are those handled, then those swapped out and waiting for their turn, then those in the
  mailbox, in this order; ticks likewise; a non-empty mailbox always has a closure posted or started
  that will swap it; and the actor's state is the result of what was handled and ticked, in order.
  When nothing more is enqueued the strand comes to rest after at most \<open>strand_work r\<close> of its steps,
  and then every message that was sent has been handled, in order, every scheduled tick has happened,
  and the mailbox is empty.\<close>

theorem actor_fifo:
  assumes "actor_reachable vt i s r"
  shows "ar_sent r = handled r @ in_flight r @ ac_mailbox (ar_actor r) \<and>
      ar_scheduled r = ticked r @ pending_ticks r \<and>
      (ac_mailbox (ar_actor r) \<noteq> [] \<longrightarrow> wakeup_pending r) \<and>
      ar_state r = fold (apply_event vt) (ar_log r) s \<and>
      (let r' = (strand_next vt ^^ strand_work r) r in
         quiescent r' \<and> handled r' = ar_sent r \<and> ticked r' = ar_scheduled r \<and> ac_mailbox (ar_actor r') = [])"
  using actor_inv_reachable [OF assms] strand_all_done [OF assms] by (simp add: actor_inv_def Let_def)

theorem actor_fifo_witness:
  "let r = env_enqueue 7 [1] (actor_start (Actor_new 3) ([] :: bytes));
       r' = (strand_next append_methods ^^ strand_work r) r in
      ar_sent r = handled r @ in_flight r @ ac_mailbox (ar_actor r) \<and>
      ar_state r = fold (apply_event (append_methods)) (ar_log r) [] \<and>
      quiescent r' \<and> handled r' = ar_sent r \<and> ticked r' = ar_scheduled r \<and> ac_mailbox (ar_actor r') = []"
proof -
  have "actor_reachable append_methods 3 ([] :: bytes) (env_enqueue 7 [1] (actor_start (Actor_new 3) []))"
    by (rule actor_reachable.step [OF actor_reachable.start actor_step.enqueue])
  from actor_fifo [OF this] show ?thesis unfolding Let_def by simp
qed

end
