(* ===== verification/Room_Actor.thy ===== *)
theory Room_Actor
  imports Actor_Mailbox Module_Resources
begin

section \<open>Actors with an object, and the room actor\<close>

text \<open>
  \<open>ActorWithObject\<close> of \<open>actor/actor.h\<close> and \<open>actor/actor.cpp\<close>, and \<open>actor/room_actor.h\<close> and
  \<open>actor/room_actor.cpp\<close>. An actor owns clones of the modules it names: the shared pointers of
  \<open>plugins_\<close> are the only ones to these objects, so the map holds the objects themselves, or nothing
  for a null pointer. A clone that is overwritten is destroyed.
\<close>

record 'p ActorWithObject =
  ao_object_id :: u64
  ao_plugins :: "(string, 'p option) umap"

text \<open>\<open>plugins_[name] = std::shared_ptr<IPlugin>(cloned)\<close>.\<close>

definition adopt_plugin ::
  "('p, 'x) IPlugin \<Rightarrow> string \<Rightarrow> 'p \<Rightarrow> (string, 'p option) umap \<Rightarrow> 'x \<Rightarrow> (string, 'p option) umap \<times> 'x" where
  "adopt_plugin ops name q plugins x =
     (um_assign name (Some q) plugins,
      case um_find plugins name of Some (Some old) \<Rightarrow> ip_destructor ops old x | _ \<Rightarrow> x)"

text \<open>The loop of the constructor: the reference that \<open>Get\<close> returns is dropped at the end of each turn.\<close>

fun clone_modules ::
  "('p, 'x) IPlugin \<Rightarrow> string list \<Rightarrow> (string, 'p option) umap \<Rightarrow> ('p, 'x) mm_state \<Rightarrow>
     (string, 'p option) umap \<times> ('p, 'x) mm_state" where
  "clone_modules ops [] plugins st = (plugins, st)"
| "clone_modules ops (name # names) plugins (mm, h) =
     (case ModuleManager_Get name (mm, h) of
        (None, h1) \<Rightarrow> clone_modules ops names plugins (mm, h1)
      | (Some a, h1) \<Rightarrow>
          (case cell h1 a of
             None \<Rightarrow> clone_modules ops names plugins (mm, h1)
           | Some c \<Rightarrow>
               (case ip_Clone ops (so_obj c) (ph_backend h1) of
                  (None, x) \<Rightarrow> clone_modules ops names plugins (mm, release ops a (h1\<lparr>ph_backend := x\<rparr>))
                | (Some q, x) \<Rightarrow>
                    (case adopt_plugin ops name q plugins x of
                       (plugins', x') \<Rightarrow>
                         clone_modules ops names plugins' (mm, release ops a (h1\<lparr>ph_backend := x'\<rparr>))))))"

definition ActorWithObject_new ::
  "('p, 'x) IPlugin \<Rightarrow> u64 \<Rightarrow> string list \<Rightarrow> ('p, 'x) mm_state \<Rightarrow> 'p ActorWithObject \<times> ('p, 'x) mm_state" where
  "ActorWithObject_new ops object_id module_names st =
     (case clone_modules ops module_names um_empty st of
        (plugins, st') \<Rightarrow> (\<lparr>ao_object_id = object_id, ao_plugins = plugins\<rparr>, st'))"

text \<open>
  The world an invocation acts on: the registry, the component storage and the plugin runtime. The
  delta that \<open>Execute\<close> returned is applied whether or not the plugin wrote components itself; a delta
  that cannot be applied is only logged.
\<close>

record 'x object_world =
  ow_registry :: ObjectRegistry
  ow_storage :: ComponentStorage
  ow_backend :: 'x

definition ActorWithObject_InvokeModule ::
  "('p, 'x) IPlugin \<Rightarrow> string \<Rightarrow> string \<Rightarrow> bytes \<Rightarrow> 'p ActorWithObject \<Rightarrow> 'x object_world \<Rightarrow>
     'p ActorWithObject \<times> 'x object_world" where
  "ActorWithObject_InvokeModule ops module_name action input ao w =
     (case um_find (ao_plugins ao) module_name of
        None \<Rightarrow> (ao, w)
      | Some None \<Rightarrow> (ao, w)
      | Some (Some plugin) \<Rightarrow>
          ObjectRegistry_Get (ow_registry w) (ao_object_id ao) (\<lambda>obj.
            case obj of
              None \<Rightarrow> (ao, w)
            | Some view \<Rightarrow>
                (case ip_Execute ops view action input [] (ow_storage w) plugin (ow_backend w) of
                   (ok, view', output, cs, plugin', x) \<Rightarrow>
                     (let ao' = ao\<lparr>ao_plugins := um_assign module_name (Some plugin') (ao_plugins ao)\<rparr>;
                          w' = w\<lparr>ow_storage := cs, ow_backend := x\<rparr>
                      in if \<not> ok then (ao', w')
                         else (ao', w'\<lparr>ow_storage := snd (GameObject_ApplyOutputDelta view' output cs)\<rparr>)))))"

subsection \<open>The room actor\<close>

record 'p RoomActor =
  ra_actor_id :: u64
  ra_object :: "'p ActorWithObject"

definition RoomActor_new ::
  "('p, 'x) IPlugin \<Rightarrow> u64 \<Rightarrow> u64 \<Rightarrow> ('p, 'x) mm_state \<Rightarrow> 'p RoomActor \<times> ('p, 'x) mm_state" where
  "RoomActor_new ops i object_id st =
     (case ActorWithObject_new ops object_id [''room''] st of
        (ao, st') \<Rightarrow> (\<lparr>ra_actor_id = i, ra_object = ao\<rparr>, st'))"

text \<open>The state the virtual methods of a room actor work on.\<close>

type_synonym ('p, 'x) room_state = "'p ActorWithObject \<times> 'x object_world"

definition RoomActor_Tick :: "('p, 'x) IPlugin \<Rightarrow> u64 \<Rightarrow> ('p, 'x) room_state \<Rightarrow> ('p, 'x) room_state" where
  "RoomActor_Tick ops interval_ms st =
     (let tick_input = store_u64 interval_ms
      in ActorWithObject_InvokeModule ops ''room'' ''tick'' tick_input (fst st) (snd st))"

definition RoomActor_HandleMessage ::
  "('p, 'x) IPlugin \<Rightarrow> u64 \<Rightarrow> bytes \<Rightarrow> ('p, 'x) room_state \<Rightarrow> ('p, 'x) room_state" where
  "RoomActor_HandleMessage ops sender_id payload st =
     ActorWithObject_InvokeModule ops ''room'' ''handle_message'' payload (fst st) (snd st)"

definition RoomActor_methods :: "('p, 'x) IPlugin \<Rightarrow> ('p, 'x) room_state ActorMethods" where
  "RoomActor_methods ops =
     \<lparr>vt_HandleMessage = RoomActor_HandleMessage ops, vt_Tick = RoomActor_Tick ops\<rparr>"

subsection \<open>Invocations\<close>

lemma InvokeModule_no_plugin:
  "um_find (ao_plugins ao) m = None \<Longrightarrow> ActorWithObject_InvokeModule ops m action input ao w = (ao, w)"
  by (simp add: ActorWithObject_InvokeModule_def)

lemma InvokeModule_no_object:
  "view_of (ow_registry w) (ao_object_id ao) = None \<Longrightarrow>
     ActorWithObject_InvokeModule ops m action input ao w = (ao, w)"
  by (simp add: ActorWithObject_InvokeModule_def Get_callback split: option.split)

lemma InvokeModule_step:
  assumes "um_find (ao_plugins ao) m = Some (Some plugin)"
    and "view_of (ow_registry w) (ao_object_id ao) = Some v"
    and "ip_Execute ops v action input [] (ow_storage w) plugin (ow_backend w) = (ok, v', output, cs, plugin', x)"
  shows "ActorWithObject_InvokeModule ops m action input ao w =
     (ao\<lparr>ao_plugins := um_assign m (Some plugin') (ao_plugins ao)\<rparr>,
      w\<lparr>ow_storage := (if ok then snd (GameObject_ApplyOutputDelta v' output cs) else cs), ow_backend := x\<rparr>)"
  using assms by (simp add: ActorWithObject_InvokeModule_def Get_callback Let_def)

lemma InvokeModule_registry:
  "ow_registry (snd (ActorWithObject_InvokeModule ops m action input ao w)) = ow_registry w"
  "ao_object_id (fst (ActorWithObject_InvokeModule ops m action input ao w)) = ao_object_id ao"
  by (auto simp: ActorWithObject_InvokeModule_def Get_callback Let_def split: option.split prod.split)

subsection \<open>What the constructor clones\<close>

text \<open>A reference that is borrowed and given back leaves the cells as they were.\<close>

lemma release_retained:
  assumes "cell h a = Some c" and "0 < so_count c"
  shows "cell (release ops a ((retain a h)\<lparr>ph_backend := x\<rparr>)) = cell h"
    and "ph_backend (release ops a ((retain a h)\<lparr>ph_backend := x\<rparr>)) = x"
    and "ph_next (release ops a ((retain a h)\<lparr>ph_backend := x\<rparr>)) = ph_next h"
  using assms by (auto simp: release_def retain_def cell_def fun_eq_iff)

text \<open>
  The resources of an actor: those of its plugins. The clones of an actor are new resources outside
  the heap of the module manager, and cloning leaves the manager as it was.
\<close>

context plugin_backend
begin

definition plugins_owns :: "(string, 'p option) umap \<Rightarrow> nat set" where
  "plugins_owns plugins = (\<Union>q \<in> {q. \<exists>n. um_find plugins n = Some (Some q)}. owns q)"

lemma plugins_owns_empty [simp]: "plugins_owns um_empty = {}"
  by (simp add: plugins_owns_def)

text \<open>One turn of the constructor's loop, for a module that is loaded: the clone is ready and new.\<close>

lemma clone_loaded:
  assumes "manager_ok ext (mm, h)" and "um_find (mm_modules mm) n = Some a"
  obtains c where "cell h a = Some c" and "so_count c = 1"
    and "cell (retain a h) a = Some (c\<lparr>so_count := 2\<rparr>)" and "ph_backend (retain a h) = ph_backend h"
proof -
  obtain c where c: "cell h a = Some c" "so_count c = 1"
    using manager_ok_loaded [OF assms] by blast
  have "cell (retain a h) a = Some (c\<lparr>so_count := 2\<rparr>)" using c by (simp add: cell_retain)
  moreover have "ph_backend (retain a h) = ph_backend h" by (simp add: retain_def split: option.split)
  ultimately show ?thesis using c that by blast
qed

text \<open>The same for the manager's invariant: borrow, clone into new resources \<open>R\<close>, return.\<close>

lemma turn_ok:
  assumes "manager_ok ext (mm, h)" and "um_find (mm_modules mm) n = Some a"
    and "good x" and "live x = live (ph_backend h) \<union> R" and "R \<inter> live (ph_backend h) = {}"
  shows "manager_ok (ext \<union> R) (mm, release ops a ((retain a h)\<lparr>ph_backend := x\<rparr>))"
proof -
  have "manager_with ext {} {#a#} (mm, retain a h)"
    using with_Get [of ext "{}" "{#}" mm h n] assms(1,2) by (simp add: manager_ok_with ModuleManager_Get_def)
  then have "manager_with (ext \<union> R) {} {#a#} (mm, (retain a h)\<lparr>ph_backend := x\<rparr>)"
    using with_backend [of ext "{}" "{#a#}" mm "retain a h" x "{}" R] assms(3-5) by (simp add: retain_rest)
  from with_return [OF this] show ?thesis by (simp add: manager_ok_with)
qed

text \<open>A new actor for one module, as the room actor is: either no clone, or one that is ready.\<close>

lemma new_actor_full:
  assumes "manager_ok ext (mm, h)"
    and "ActorWithObject_new ops i [n] (mm, h) = (ao, (mm', h'))"
  shows "mm' = mm \<and> ao_object_id ao = i \<and> manager_ok (ext \<union> plugins_owns (ao_plugins ao)) (mm, h') \<and>
     plugins_owns (ao_plugins ao) \<inter> live (ph_backend h) = {} \<and>
     (\<forall>q. um_find (ao_plugins ao) n = Some (Some q) \<longrightarrow> valid q \<and> ready q) \<and>
     (um_find (mm_modules mm) n = None \<longrightarrow> ao_plugins ao = um_empty) \<and>
     live (ph_backend h') = live (ph_backend h) \<union> plugins_owns (ao_plugins ao) \<and>
     (\<forall>m. m \<noteq> n \<longrightarrow> um_find (ao_plugins ao) m = None)"
proof (cases "um_find (mm_modules mm) n")
  case None
  then show ?thesis
    using assms by (auto simp: ActorWithObject_new_def ModuleManager_Get_def)
next
  case (Some a)
  obtain c where c: "cell h a = Some c" "so_count c = 1"
    and rc: "cell (retain a h) a = Some (c\<lparr>so_count := 2\<rparr>)" "ph_backend (retain a h) = ph_backend h"
    by (rule clone_loaded [OF assms(1) Some])
  have g: "good (ph_backend h)" using assms(1) by (rule manager_ok_good)
  obtain r x where cl: "ip_Clone ops (so_obj c) (ph_backend h) = (r, x)" by fastforce
  have "0 < so_count c" using c(2) by simp
  note rel = release_retained [OF c(1) this, of ops x]
  note turn = turn_ok [OF assms(1) Some]
  show ?thesis
  proof (cases r)
    case None
    note cn = clone_none [OF cl [unfolded None] g]
    have "ao = \<lparr>ao_object_id = i, ao_plugins = um_empty\<rparr>" "mm' = mm" "h' = release ops a ((retain a h)\<lparr>ph_backend := x\<rparr>)"
      using assms(2) Some rc cl None by (auto simp: ActorWithObject_new_def ModuleManager_Get_def)
    then show ?thesis
      using turn [of x "{}"] rel Some cn by simp
  next
    case (Some q)
    note cs = clone_some [OF cl [unfolded Some] g]
    have ao: "ao = \<lparr>ao_object_id = i, ao_plugins = um_assign n (Some q) um_empty\<rparr>" "mm' = mm"
      "h' = release ops a ((retain a h)\<lparr>ph_backend := x\<rparr>)"
      using assms(2) \<open>um_find (mm_modules mm) n = Some a\<close> rc cl Some
      by (auto simp: ActorWithObject_new_def ModuleManager_Get_def adopt_plugin_def)
    have "plugins_owns (ao_plugins ao) = owns q"
      using ao by (auto simp: plugins_owns_def split: if_splits)
    then show ?thesis
      using turn [of x "owns q"] rel cs ao \<open>um_find (mm_modules mm) n = Some a\<close> by simp
  qed
qed

lemma new_actor_one_module:
  assumes "manager_ok ext (mm, h)"
    and "ActorWithObject_new ops i [n] (mm, h) = (ao, (mm', h'))"
  shows "mm' = mm \<and> ao_object_id ao = i \<and> manager_ok (ext \<union> plugins_owns (ao_plugins ao)) (mm, h') \<and>
     plugins_owns (ao_plugins ao) \<inter> live (ph_backend h) = {} \<and>
     (\<forall>q. um_find (ao_plugins ao) n = Some (Some q) \<longrightarrow> valid q \<and> ready q) \<and>
     (um_find (mm_modules mm) n = None \<longrightarrow> ao_plugins ao = um_empty)"
  using new_actor_full [OF assms] by blast

end

end
