(* ===== verification/Plugin_Lifecycle.thy ===== *)
theory Plugin_Lifecycle
  imports Module_Threads Room_Actor
begin

section \<open>The life of plugins across threads\<close>

text \<open>
  All that the program does with plugins, interleaved: threads inside calls of the module manager
  (\<open>Module_Threads\<close>), threads that construct an \<open>ActorWithObject\<close> (\<open>actor/actor.cpp\<close>), actors that run a
  plugin in \<open>InvokeModule\<close>, and actors that are destroyed. The constructor holds a reference to the
  module from \<open>Get\<close> to the end of the turn of its loop, and \<open>Unload\<close>, \<open>HotReload\<close> and \<open>Rollback\<close> of
  other threads can come in between: \<open>Get\<close>, \<open>Clone\<close> and dropping the reference are one step each. A
  reference to a cell that is gone is the error \<open>Dangling\<close>.
\<close>

datatype life_call = Manage mm_op | NewActor u64 "string list"

text \<open>Inside the loop: the names to come and \<open>plugins_\<close>; with the reference that \<open>Get\<close> returned.\<close>

datatype 'p life_pc =
    L_manage manager_pc
  | L_next "string list" "(string, 'p option) umap"
  | L_clone string nat "string list" "(string, 'p option) umap"
  | L_drop nat "string list" "(string, 'p option) umap"

datatype 'p life_next = L_go "'p life_pc" | L_return "bool option" | L_built "(string, 'p option) umap"

datatype life_error = Manager mm_error | Dangling

definition life_start_pc :: "life_call \<Rightarrow> 'p life_pc" where
  "life_start_pc call = (case call of Manage x \<Rightarrow> L_manage (M_start x) | NewActor i names \<Rightarrow> L_next names um_empty)"

fun life_exec ::
  "('p, 'x) IPlugin \<Rightarrow> 'p life_pc \<Rightarrow> ('p, 'x) mm_state \<Rightarrow> life_error + ('p, 'x) mm_state \<times> 'p life_next" where
  "life_exec ops (L_manage pc) st =
     (case manager_exec ops pc st of
        Inl e \<Rightarrow> Inl (Manager e)
      | Inr (st', Next q) \<Rightarrow> Inr (st', L_go (L_manage q))
      | Inr (st', Return b) \<Rightarrow> Inr (st', L_return b))"
| "life_exec ops (L_next [] plugins) st = Inr (st, L_built plugins)"
| "life_exec ops (L_next (name # names) plugins) (mm, h) =
     (case ModuleManager_Get name (mm, h) of
        (None, h1) \<Rightarrow> Inr ((mm, h1), L_go (L_next names plugins))
      | (Some a, h1) \<Rightarrow> Inr ((mm, h1), L_go (L_clone name a names plugins)))"
| "life_exec ops (L_clone name a names plugins) (mm, h) =
     (case cell h a of
        None \<Rightarrow> Inl Dangling
      | Some c \<Rightarrow>
          (case ip_Clone ops (so_obj c) (ph_backend h) of
             (None, x) \<Rightarrow> Inr ((mm, h\<lparr>ph_backend := x\<rparr>), L_go (L_drop a names plugins))
           | (Some q, x) \<Rightarrow>
               (case adopt_plugin ops name q plugins x of
                  (plugins', x') \<Rightarrow> Inr ((mm, h\<lparr>ph_backend := x'\<rparr>), L_go (L_drop a names plugins')))))"
| "life_exec ops (L_drop a names plugins) (mm, h) =
     (case cell h a of
        None \<Rightarrow> Inl Dangling
      | Some c \<Rightarrow> Inr ((mm, release ops a h), L_go (L_next names plugins)))"

record ('p, 'x) Life =
  lf_manager :: "('p, 'x) mm_state"
  lf_threads :: "(life_call \<times> 'p life_pc) list"
  lf_actors :: "'p ActorWithObject list"
  lf_registry :: ObjectRegistry
  lf_storage :: ComponentStorage

definition life_move :: "('p, 'x) IPlugin \<Rightarrow> nat \<Rightarrow> ('p, 'x) Life \<Rightarrow> life_error + ('p, 'x) Life" where
  "life_move ops n s =
     (let (call, pc) = lf_threads s ! n; before = take n (lf_threads s); after = drop (Suc n) (lf_threads s)
      in case life_exec ops pc (lf_manager s) of
           Inl e \<Rightarrow> Inl e
         | Inr (st, L_go q) \<Rightarrow> Inr (s\<lparr>lf_manager := st, lf_threads := before @ (call, q) # after\<rparr>)
         | Inr (st, L_return b) \<Rightarrow> Inr (s\<lparr>lf_manager := st, lf_threads := before @ after\<rparr>)
         | Inr (st, L_built plugins) \<Rightarrow>
             Inr (s\<lparr>lf_manager := st, lf_threads := before @ after,
                    lf_actors := lf_actors s @
                      [\<lparr>ao_object_id = (case call of NewActor i names \<Rightarrow> i | _ \<Rightarrow> 0), ao_plugins = plugins\<rparr>]\<rparr>))"

text \<open>\<open>~ActorWithObject\<close> drops the references in \<open>plugins_\<close>, the only ones to the clones.\<close>

definition destroy_plugins :: "('p, 'x) IPlugin \<Rightarrow> (string, 'p option) umap \<Rightarrow> 'x \<Rightarrow> 'x" where
  "destroy_plugins ops plugins x =
     foldl (\<lambda>x (name, p). case p of None \<Rightarrow> x | Some q \<Rightarrow> ip_destructor ops q x) x (um_entries plugins)"

text \<open>
  The events: a thread moves; an actor invokes a module; the last reference to an actor is dropped;
  other code changes the registry and the storage in any way. Positions out of range are skipped.
\<close>

datatype life_event =
    LThread nat
  | LInvoke nat string string bytes
  | LDestroy nat
  | LObjects ObjectRegistry ComponentStorage

fun life_step :: "('p, 'x) IPlugin \<Rightarrow> life_event \<Rightarrow> ('p, 'x) Life \<Rightarrow> life_error + ('p, 'x) Life" where
  "life_step ops (LThread n) s = (if n < length (lf_threads s) then life_move ops n s else Inr s)"
| "life_step ops (LInvoke k module_name action input) s =
     (if k < length (lf_actors s) then
        (let (mm, h) = lf_manager s;
             (ao, w) = ActorWithObject_InvokeModule ops module_name action input (lf_actors s ! k)
               \<lparr>ow_registry = lf_registry s, ow_storage = lf_storage s, ow_backend = ph_backend h\<rparr>
         in Inr (s\<lparr>lf_manager := (mm, h\<lparr>ph_backend := ow_backend w\<rparr>), lf_actors := (lf_actors s)[k := ao],
                   lf_registry := ow_registry w, lf_storage := ow_storage w\<rparr>))
      else Inr s)"
| "life_step ops (LDestroy k) s =
     (if k < length (lf_actors s) then
        (let (mm, h) = lf_manager s
         in Inr (s\<lparr>lf_manager := (mm, h\<lparr>ph_backend := destroy_plugins ops (ao_plugins (lf_actors s ! k)) (ph_backend h)\<rparr>),
                   lf_actors := take k (lf_actors s) @ drop (Suc k) (lf_actors s)\<rparr>))
      else Inr s)"
| "life_step ops (LObjects reg cs) s = Inr (s\<lparr>lf_registry := reg, lf_storage := cs\<rparr>)"

fun life_run :: "('p, 'x) IPlugin \<Rightarrow> life_event list \<Rightarrow> ('p, 'x) Life \<Rightarrow> life_error + ('p, 'x) Life" where
  "life_run ops [] s = Inr s"
| "life_run ops (e # es) s = (case life_step ops e s of Inl err \<Rightarrow> Inl err | Inr s' \<Rightarrow> life_run ops es s')"

definition life_start :: "life_call list \<Rightarrow> ('p, 'x) mm_state \<Rightarrow> ObjectRegistry \<Rightarrow> ComponentStorage \<Rightarrow> ('p, 'x) Life" where
  "life_start calls st reg cs =
     \<lparr>lf_manager = st, lf_threads = map (\<lambda>c. (c, life_start_pc c)) calls, lf_actors = [],
      lf_registry = reg, lf_storage = cs\<rparr>"

subsection \<open>What threads and actors hold\<close>

fun clones_in :: "(string, 'p option) umap \<Rightarrow> 'p list" where
  "clones_in [] = []"
| "clones_in ((name, p) # m) = (case p of None \<Rightarrow> [] | Some q \<Rightarrow> [q]) @ clones_in m"

fun pc_prepared :: "'p life_pc \<Rightarrow> nat list" where
  "pc_prepared (L_manage pc) = prepared pc"
| "pc_prepared _ = []"

fun pc_borrowed :: "'p life_pc \<Rightarrow> nat list" where
  "pc_borrowed (L_clone name a names plugins) = [a]"
| "pc_borrowed (L_drop a names plugins) = [a]"
| "pc_borrowed _ = []"

fun pc_clones :: "'p life_pc \<Rightarrow> 'p list" where
  "pc_clones (L_manage pc) = []"
| "pc_clones (L_next names plugins) = clones_in plugins"
| "pc_clones (L_clone name a names plugins) = clones_in plugins"
| "pc_clones (L_drop a names plugins) = clones_in plugins"

text \<open>The sum over a list of threads, or of actors.\<close>

abbreviation over :: "('a \<Rightarrow> 'b list) \<Rightarrow> 'a list \<Rightarrow> 'b list" where
  "over f xs \<equiv> concat (map f xs)"

definition all_clones :: "('p, 'x) Life \<Rightarrow> 'p multiset" where
  "all_clones s = mset (over (\<lambda>th. pc_clones (snd th)) (lf_threads s)) + mset (over (\<lambda>ao. clones_in (ao_plugins ao)) (lf_actors s))"

lemma clones_in_find: "um_find m n = Some (Some q) \<Longrightarrow> q \<in> set (clones_in m)"
  by (induction m rule: clones_in.induct) (auto simp: um_find_def split: if_splits)

lemma clones_in_empty [simp]: "clones_in um_empty = []"
  by (simp add: um_empty_def)

text \<open>An assignment adds the new clone and takes away what the slot held.\<close>

lemma clones_in_assign:
  "mset (clones_in (um_assign n (Some q) m)) +
     (case um_find m n of Some (Some old) \<Rightarrow> {#old#} | _ \<Rightarrow> {#}) = add_mset q (mset (clones_in m))"
  by (induction m rule: clones_in.induct) (auto simp: um_find_def um_assign_def split: option.splits)

text \<open>One thread that constructs an actor alone does what the constructor does.\<close>

definition loaded_live :: "('p, 'x) ModuleManager \<Rightarrow> ('p, 'x) plugin_heap \<Rightarrow> bool" where
  "loaded_live mm h \<longleftrightarrow> (\<forall>n a. um_find (mm_modules mm) n = Some a \<longrightarrow> (\<exists>c. cell h a = Some c \<and> 0 < so_count c))"

lemma build_alone:
  assumes "loaded_live mm h" and "clone_modules ops names plugins (mm, h) = (plugins', st')"
  shows "\<exists>k. \<forall>acts. life_run ops (replicate k (LThread 0))
       \<lparr>lf_manager = (mm, h), lf_threads = [(NewActor i args, L_next names plugins)], lf_actors = acts, lf_registry = reg, lf_storage = cs\<rparr> =
     Inr \<lparr>lf_manager = st', lf_threads = [], lf_actors = acts @ [\<lparr>ao_object_id = i, ao_plugins = plugins'\<rparr>],
          lf_registry = reg, lf_storage = cs\<rparr>"
  using assms
proof (induction names arbitrary: plugins h)
  case Nil
  then show ?case by (intro exI [of _ "Suc 0"]) (simp add: life_move_def)
next
  case (Cons n names)
  show ?case
  proof (cases "um_find (mm_modules mm) n")
    case None
    then have "clone_modules ops names plugins (mm, h) = (plugins', st')"
      using Cons.prems(2) by (simp add: ModuleManager_Get_def)
    from Cons.IH [OF Cons.prems(1) this] obtain k where k: "\<forall>acts. life_run ops (replicate k (LThread 0))
        \<lparr>lf_manager = (mm, h), lf_threads = [(NewActor i args, L_next names plugins)], lf_actors = acts, lf_registry = reg, lf_storage = cs\<rparr> =
      Inr \<lparr>lf_manager = st', lf_threads = [], lf_actors = acts @ [\<lparr>ao_object_id = i, ao_plugins = plugins'\<rparr>],
          lf_registry = reg, lf_storage = cs\<rparr>" by (rule exE)
    then show ?thesis
      using None by (intro exI [of _ "Suc k"]) (simp add: life_move_def ModuleManager_Get_def)
  next
    case (Some a)
    obtain c where c: "cell h a = Some c" "0 < so_count c" using Cons.prems(1) Some by (auto simp: loaded_live_def)
    have rc: "cell (retain a h) a = Some (c\<lparr>so_count := so_count c + 1\<rparr>)" using c by (simp add: cell_retain)
    obtain r x where cl: "ip_Clone ops (so_obj c) (ph_backend (retain a h)) = (r, x)" by fastforce
    define plugins1 x1 where "plugins1 = (case r of None \<Rightarrow> plugins | Some q \<Rightarrow> fst (adopt_plugin ops n q plugins x))"
      and "x1 = (case r of None \<Rightarrow> x | Some q \<Rightarrow> snd (adopt_plugin ops n q plugins x))"
    let ?h2 = "(retain a h)\<lparr>ph_backend := x1\<rparr>"
    let ?h3 = "release ops a ?h2"
    have c2: "cell ?h2 a = Some (c\<lparr>so_count := so_count c + 1\<rparr>)" using rc by (simp add: cell_def)
    have "loaded_live mm ?h3" using Cons.prems(1) release_retained(1) [OF c] by (simp add: loaded_live_def)
    moreover have "clone_modules ops names plugins1 (mm, ?h3) = (plugins', st')"
      using Cons.prems(2) Some rc cl
      by (cases r) (simp_all add: ModuleManager_Get_def plugins1_def x1_def split: prod.splits)
    ultimately obtain k where k: "\<forall>acts. life_run ops (replicate k (LThread 0))
        \<lparr>lf_manager = (mm, ?h3), lf_threads = [(NewActor i args, L_next names plugins1)], lf_actors = acts, lf_registry = reg, lf_storage = cs\<rparr> =
      Inr \<lparr>lf_manager = st', lf_threads = [], lf_actors = acts @ [\<lparr>ao_object_id = i, ao_plugins = plugins'\<rparr>],
          lf_registry = reg, lf_storage = cs\<rparr>"
      using Cons.IH by blast
    have "life_exec ops (L_clone n a names plugins) (mm, retain a h) = Inr ((mm, ?h2), L_go (L_drop a names plugins1))"
      using rc cl by (cases r) (simp_all add: plugins1_def x1_def split: prod.split)
    then show ?thesis
      using k Some c2 by (intro exI [of _ "Suc (Suc (Suc k))"]) (simp add: life_move_def ModuleManager_Get_def)
  qed
qed

text \<open>
  The steps a call still needs, once it has made the first one: \<open>HotReloadAll\<close> fixes its list of
  configurations there.
\<close>

fun at_start :: "'p life_pc \<Rightarrow> bool" where
  "at_start (L_manage (M_start x)) = True"
| "at_start _ = False"

fun steps_left :: "'p life_pc \<Rightarrow> nat" where
  "steps_left (L_manage (M_each cs ok)) = 2 * length cs + 1"
| "steps_left (L_manage (M_each_reload c a cs ok)) = 2 * length cs + 2"
| "steps_left (L_manage pc) = 1"
| "steps_left (L_next names plugins) = 3 * length names + 1"
| "steps_left (L_clone name a names plugins) = 3 * length names + 3"
| "steps_left (L_drop a names plugins) = 3 * length names + 2"

lemma manager_exec_left:
  "manager_exec ops pc st = Inr (st', Next q) \<Longrightarrow>
     \<not> at_start (L_manage q) \<and> (at_start (L_manage pc) \<or> steps_left (L_manage q) < steps_left (L_manage pc))"
  by (induction ops pc st rule: manager_exec.induct) (auto simp: after_prepare_def split: sum.splits option.splits)

lemma life_exec_left:
  assumes "life_exec ops pc st = Inr (st', L_go q)"
  shows "\<not> at_start q \<and> (at_start pc \<or> steps_left q < steps_left pc)"
  using assms manager_exec_left
  by (induction ops pc st rule: life_exec.induct)
    (auto split: sum.splits option.splits prod.splits manager_next.splits dest: manager_exec_left)

subsection \<open>Ownership of the clones\<close>

text \<open>
  The clones \<open>C\<close> that actors and constructors own: all are ready, and a handle belongs to one of them
  or to none, and to none if it is in \<open>ext\<close>.
\<close>

context plugin_backend
begin

definition owned :: "'p multiset \<Rightarrow> nat set" where
  "owned C = (\<Union>q \<in> set_mset C. owns q)"

definition owners :: "'p multiset \<Rightarrow> nat \<Rightarrow> nat" where
  "owners C r = size {#q \<in># C. r \<in> owns q#}"

definition clones_ok :: "nat set \<Rightarrow> 'p multiset \<Rightarrow> bool" where
  "clones_ok ext C \<longleftrightarrow> (\<forall>q \<in># C. valid q \<and> ready q) \<and> (\<forall>r. of_bool (r \<in> ext) + owners C r \<le> 1)"

lemma owned_simps [simp]:
  "owned {#} = {}" "owned (add_mset q C) = owns q \<union> owned C" "owned (C + D) = owned C \<union> owned D"
  by (simp_all add: owned_def)

lemma owners_simps [simp]: "owners {#} r = 0" "owners (add_mset q C) r = of_bool (r \<in> owns q) + owners C r"
  by (simp_all add: owners_def)

lemma owned_count: "r \<in> owned C \<longleftrightarrow> 0 < owners C r"
  by (induction C) auto

lemma clones_empty [simp]: "clones_ok ext {#}"
  by (simp add: clones_ok_def)

lemma clones_add:
  assumes "clones_ok ext C" and "valid q" and "ready q" and "owns q \<inter> (ext \<union> owned C) = {}"
  shows "clones_ok ext (add_mset q C)"
proof -
  have "of_bool (r \<in> ext) + owners (add_mset q C) r \<le> 1" for r
  proof (cases "r \<in> owns q")
    case True
    then have r: "r \<notin> ext" "r \<notin> owned C" using assms(4) by blast+
    then have "owners C r = 0" using owned_count [of r C] by simp
    then show ?thesis using True r(1) by simp
  next
    case False
    then show ?thesis using assms(1) by (simp add: clones_ok_def)
  qed
  then show ?thesis using assms(1-3) by (simp add: clones_ok_def)
qed

lemma clones_remove:
  assumes "clones_ok ext (add_mset q C)"
  shows "clones_ok ext C" and "valid q" and "ready q" and "owns q \<inter> (ext \<union> owned C) = {}"
proof -
  have one: "of_bool (r \<in> ext) + owners (add_mset q C) r \<le> 1" for r
    using assms by (simp add: clones_ok_def)
  have "of_bool (r \<in> ext) + owners C r \<le> 1" for r
    using one [of r] by (auto split: if_splits)
  then show "clones_ok ext C" "valid q" "ready q" using assms by (simp_all add: clones_ok_def)
  have "r \<notin> ext \<and> r \<notin> owned C" if "r \<in> owns q" for r
    using one [of r] that by (simp add: owned_count)
  then show "owns q \<inter> (ext \<union> owned C) = {}" by blast
qed

lemma clones_apart:
  assumes "clones_ok ext (C + D)" and "q \<in># C" and "p \<in># D"
  shows "owns q \<inter> owns p = {}"
proof -
  obtain C' where "C = add_mset q C'" using assms(2) by (metis mset_add)
  then have "owns q \<inter> (ext \<union> owned (C' + D)) = {}" using clones_remove(4) [of ext q "C' + D"] assms(1) by simp
  then show ?thesis using assms(3) by (auto simp: owned_def)
qed

text \<open>The manager's invariant with the clones outside its heap.\<close>

definition life_with :: "nat set \<Rightarrow> nat set \<Rightarrow> nat multiset \<Rightarrow> 'p multiset \<Rightarrow> ('p, 'x) mm_state \<Rightarrow> bool" where
  "life_with ext E B C st \<longleftrightarrow> manager_with (ext \<union> owned C) E B st \<and> clones_ok ext C"

lemma life_with_live:
  assumes "life_with ext E B C (mm, h)"
  shows "good (ph_backend h)" and "ext \<union> owned C \<subseteq> live (ph_backend h)" and "clones_ok ext C"
  using assms with_good [of "ext \<union> owned C" E B mm h] by (simp_all add: life_with_def)

lemma life_clone_none:
  assumes "life_with ext E B C (mm, h)" and "ip_Clone ops p (ph_backend h) = (None, x)"
  shows "life_with ext E B C (mm, h\<lparr>ph_backend := x\<rparr>)"
  using assms with_backend [of "ext \<union> owned C" E B mm h x "{}" "{}"] clone_none [OF assms(2) life_with_live(1) [OF assms(1)]]
  by (simp add: life_with_def)

lemma life_clone_some:
  assumes "life_with ext E B C (mm, h)" and "ip_Clone ops p (ph_backend h) = (Some q, x)"
  shows "life_with ext E B (add_mset q C) (mm, h\<lparr>ph_backend := x\<rparr>)"
proof -
  note cs = clone_some [OF assms(2) life_with_live(1) [OF assms(1)]]
  have "clones_ok ext (add_mset q C)"
    using clones_add [OF life_with_live(3) [OF assms(1)], of q] cs life_with_live(2) [OF assms(1)] by blast
  moreover have "manager_with (ext \<union> owned C \<union> owns q) E B (mm, h\<lparr>ph_backend := x\<rparr>)"
    using with_backend [of "ext \<union> owned C" E B mm h x "{}" "owns q"] assms(1) cs by (simp add: life_with_def)
  ultimately show ?thesis by (simp add: life_with_def ac_simps)
qed

lemma life_destroy:
  assumes "life_with ext E B (add_mset q C) (mm, h)"
  shows "life_with ext E B C (mm, h\<lparr>ph_backend := ip_destructor ops q (ph_backend h)\<rparr>)"
proof -
  note facts = life_with_live [OF assms]
  note q = clones_remove [OF facts(3)]
  have "owns q \<subseteq> live (ph_backend h)" using facts(2) by simp
  note d = destructor [OF facts(1) q(2) this]
  have "ext \<union> owned (add_mset q C) - owns q \<union> {} = ext \<union> owned C" using q(4) by auto
  moreover have "manager_with (ext \<union> owned (add_mset q C) - owns q \<union> {}) E B (mm, h\<lparr>ph_backend := ip_destructor ops q (ph_backend h)\<rparr>)"
    by (rule with_backend) (use assms d in \<open>auto simp: life_with_def\<close>)
  ultimately show ?thesis using q(1) by (simp add: life_with_def)
qed

lemma life_execute:
  assumes "life_with ext E B (add_mset q C) (mm, h)"
    and "ip_Execute ops v action input out cs q (ph_backend h) = (ok, v', out', cs', q', x)"
  shows "life_with ext E B (add_mset q' C) (mm, h\<lparr>ph_backend := x\<rparr>)"
proof -
  note facts = life_with_live [OF assms(1)]
  note q = clones_remove [OF facts(3)]
  have "owns q \<subseteq> live (ph_backend h)" using facts(2) by simp
  note x = execute [OF assms(2) facts(1) q(2) this]
  have "clones_ok ext (add_mset q' C)" using clones_add [OF q(1), of q'] q(3,4) x by simp
  then show ?thesis
    using with_backend [of "ext \<union> owned (add_mset q C)" E B mm h x "{}" "{}"] assms(1) x by (simp add: life_with_def)
qed

lemma life_destroy_all:
  "life_with ext E B (C + mset (clones_in plugins)) (mm, h) \<Longrightarrow>
     life_with ext E B C (mm, h\<lparr>ph_backend := destroy_plugins ops plugins (ph_backend h)\<rparr>)"
proof (induction plugins arbitrary: h rule: clones_in.induct)
  case 1
  then show ?case by (simp add: destroy_plugins_def um_entries_def)
next
  case (2 n p m)
  show ?case
  proof (cases p)
    case None
    then show ?thesis using 2 by (simp add: destroy_plugins_def um_entries_def)
  next
    case (Some q)
    have "life_with ext E B (C + mset (clones_in m)) (mm, h\<lparr>ph_backend := ip_destructor ops q (ph_backend h)\<rparr>)"
      using life_destroy [of ext E B q "C + mset (clones_in m)" mm h] "2.prems" Some by simp
    from "2.IH" [OF this] show ?thesis using Some by (simp add: destroy_plugins_def um_entries_def)
  qed
qed

text \<open>What a thread holds after its step.\<close>

definition nx_prepared :: "'p life_next \<Rightarrow> nat list" where
  "nx_prepared nx = (case nx of L_go q \<Rightarrow> pc_prepared q | _ \<Rightarrow> [])"

definition nx_borrowed :: "'p life_next \<Rightarrow> nat list" where
  "nx_borrowed nx = (case nx of L_go q \<Rightarrow> pc_borrowed q | _ \<Rightarrow> [])"

definition nx_clones :: "'p life_next \<Rightarrow> 'p list" where
  "nx_clones nx = (case nx of L_go q \<Rightarrow> pc_clones q | L_return b \<Rightarrow> [] | L_built plugins \<Rightarrow> clones_in plugins)"

lemmas nx_defs = nx_prepared_def nx_borrowed_def nx_clones_def

definition goes_on :: "nat set \<Rightarrow> nat set \<Rightarrow> nat multiset \<Rightarrow> 'p multiset \<Rightarrow> ('p, 'x) mm_state \<Rightarrow> 'p life_next \<Rightarrow> bool" where
  "goes_on ext E B C st nx \<longleftrightarrow>
     life_with ext (E \<union> set (nx_prepared nx)) (B + mset (nx_borrowed nx)) (C + mset (nx_clones nx)) st \<and>
     set (nx_prepared nx) \<inter> E = {} \<and> distinct (nx_prepared nx)"

lemma manage_ok:
  assumes "life_with ext (E \<union> set (prepared pc)) B C st" and "set (prepared pc) \<inter> E = {}"
  shows "\<exists>st1 nx. life_exec ops (L_manage pc) st = Inr (st1, nx) \<and> goes_on ext E B C st1 nx"
proof -
  obtain st1 nx where "manager_exec ops pc st = Inr (st1, nx)" "manager_with (ext \<union> owned C) (E \<union> set (next_prepared nx)) B st1"
    "set (next_prepared nx) \<inter> E = {}" "distinct (next_prepared nx)"
    using manager_exec_ok [of "ext \<union> owned C" E pc B st] assms by (auto simp: life_with_def)
  then show ?thesis
    using assms(1) by (cases nx) (auto simp: goes_on_def life_with_def nx_defs next_prepared_def)
qed

lemma clone_ok:
  assumes "life_with ext E (add_mset a B) (C + mset (clones_in plugins)) (mm, h)"
  shows "\<exists>st1 nx. life_exec ops (L_clone n a names plugins) (mm, h) = Inr (st1, nx) \<and> goes_on ext E B C st1 nx"
proof -
  obtain c where c: "cell h a = Some c"
    using with_borrowed [of "ext \<union> owned (C + mset (clones_in plugins))" E "add_mset a B" mm h a] assms by (auto simp: life_with_def)
  obtain r x where cl: "ip_Clone ops (so_obj c) (ph_backend h) = (r, x)" by fastforce
  show ?thesis
  proof (cases r)
    case None
    then show ?thesis
      using life_clone_none [OF assms, of "so_obj c" x] c cl by (simp add: goes_on_def nx_defs)
  next
    case (Some q)
    obtain plugins' x' where ad: "adopt_plugin ops n q plugins x = (plugins', x')" by fastforce
    have new: "life_with ext E (add_mset a B) (add_mset q (C + mset (clones_in plugins))) (mm, h\<lparr>ph_backend := x\<rparr>)"
      using life_clone_some [OF assms] cl Some by simp
    have "life_with ext E (add_mset a B) (C + mset (clones_in plugins')) (mm, h\<lparr>ph_backend := x'\<rparr>)"
    proof (cases "um_find plugins n = None \<or> um_find plugins n = Some None")
      case True
      then have "x' = x" "mset (clones_in plugins') = add_mset q (mset (clones_in plugins))"
        using ad clones_in_assign [of n q plugins] by (auto simp: adopt_plugin_def)
      then show ?thesis using new by simp
    next
      case False
      then obtain old where old: "um_find plugins n = Some (Some old)" by (cases "um_find plugins n") auto
      then have x': "x' = ip_destructor ops old x" "add_mset old (mset (clones_in plugins')) = add_mset q (mset (clones_in plugins))"
        using ad clones_in_assign [of n q plugins] by (auto simp: adopt_plugin_def)
      then have eq: "add_mset q (C + mset (clones_in plugins)) = add_mset old (C + mset (clones_in plugins'))"
        by (metis union_mset_add_mset_right)
      have "life_with ext E (add_mset a B) (add_mset old (C + mset (clones_in plugins'))) (mm, h\<lparr>ph_backend := x\<rparr>)"
        using new unfolding eq .
      from life_destroy [OF this] show ?thesis using x'(1) by simp
    qed
    then show ?thesis using c cl Some ad by (simp add: goes_on_def nx_defs)
  qed
qed

lemma life_exec_ok:
  assumes "life_with ext (E \<union> set (pc_prepared pc)) (B + mset (pc_borrowed pc)) (C + mset (pc_clones pc)) st"
    and "set (pc_prepared pc) \<inter> E = {}"
  shows "\<exists>st1 nx. life_exec ops pc st = Inr (st1, nx) \<and> goes_on ext E B C st1 nx"
proof -
  obtain mm h where st: "st = (mm, h)" by fastforce
  show ?thesis
  proof (cases pc)
    case (L_manage pc')
    then show ?thesis using manage_ok assms by simp
  next
    case (L_next names plugins)
    show ?thesis
    proof (cases names)
      case Nil
      then show ?thesis using L_next assms by (simp add: goes_on_def nx_defs)
    next
      case (Cons n ns)
      obtain r h1 where get: "ModuleManager_Get n (mm, h) = (r, h1)" by fastforce
      have "case r of None \<Rightarrow> h1 = h | Some a \<Rightarrow> life_with ext E (add_mset a B) (C + mset (clones_in plugins)) (mm, h1)"
        using with_Get [OF _ get] assms(1) L_next st by (auto simp: life_with_def split: option.split)
      then show ?thesis
        using L_next Cons get assms(1) st by (cases r) (simp_all add: goes_on_def nx_defs)
    qed
  next
    case (L_clone n a ns plugins)
    then show ?thesis using clone_ok [of ext E a B C plugins mm h n ns] assms(1) st by simp
  next
    case (L_drop a ns plugins)
    then have w: "life_with ext E (add_mset a B) (C + mset (clones_in plugins)) (mm, h)" using assms(1) st by simp
    then obtain c where "cell h a = Some c"
      using with_borrowed [of "ext \<union> owned (C + mset (clones_in plugins))" E "add_mset a B" mm h a] by (auto simp: life_with_def)
    moreover have "life_with ext E B (C + mset (clones_in plugins)) (mm, release ops a h)"
      using with_return [of "ext \<union> owned (C + mset (clones_in plugins))" E "add_mset a B" mm h a] w by (simp add: life_with_def)
    ultimately show ?thesis using L_drop st by (simp add: goes_on_def nx_defs)
  qed
qed

subsection \<open>The invariant of the run\<close>

definition life_ok :: "nat set \<Rightarrow> ('p, 'x) Life \<Rightarrow> bool" where
  "life_ok ext s \<longleftrightarrow>
     (let P = over (\<lambda>th. pc_prepared (snd th)) (lf_threads s)
      in life_with ext (set P) (mset (over (\<lambda>th. pc_borrowed (snd th)) (lf_threads s))) (all_clones s) (lf_manager s) \<and> distinct P)"

lemma life_ok_start:
  assumes "manager_ok ext st"
  shows "life_ok ext (life_start calls st reg cs)"
proof -
  have "over (\<lambda>th. pc_prepared (snd th)) (lf_threads (life_start calls st reg cs)) = []"
    "over (\<lambda>th. pc_borrowed (snd th)) (lf_threads (life_start calls st reg cs)) = []"
    "over (\<lambda>th. pc_clones (snd th)) (lf_threads (life_start calls st reg cs)) = []"
    by (induction calls) (auto simp: life_start_def life_start_pc_def split: life_call.split)
  moreover have "lf_actors (life_start calls st reg cs) = []" "lf_manager (life_start calls st reg cs) = st"
    by (simp_all add: life_start_def)
  ultimately show ?thesis
    using assms by (simp add: life_ok_def life_with_def all_clones_def manager_ok_with del: concat_eq_Nil_conv)
qed

lemma life_ok_move:
  assumes ok: "life_ok ext s" and n: "n < length (lf_threads s)"
  shows "\<exists>s'. life_move ops n s = Inr s' \<and> life_ok ext s'"
proof -
  obtain call pc where th: "lf_threads s ! n = (call, pc)" by fastforce
  define before where "before = take n (lf_threads s)"
  define after where "after = drop (Suc n) (lf_threads s)"
  have split: "lf_threads s = before @ (call, pc) # after"
    using id_take_nth_drop [OF n] th by (simp add: before_def after_def)
  let ?pr = "\<lambda>ths. over (\<lambda>th. pc_prepared (snd th)) ths"
  let ?bo = "\<lambda>ths. mset (over (\<lambda>th. pc_borrowed (snd th)) ths)"
  let ?cl = "\<lambda>ths. mset (over (\<lambda>th. pc_clones (snd th)) ths)"
  let ?ac = "mset (over (\<lambda>ao. clones_in (ao_plugins ao)) (lf_actors s))"
  let ?E = "set (?pr before) \<union> set (?pr after)"
  have pre: "life_with ext (?E \<union> set (pc_prepared pc)) (?bo (before @ after) + mset (pc_borrowed pc))
      (?cl (before @ after) + ?ac + mset (pc_clones pc)) (lf_manager s)"
    "set (pc_prepared pc) \<inter> ?E = {}" "distinct (?pr before @ ?pr after)"
    using ok by (auto simp: life_ok_def Let_def split all_clones_def ac_simps)
  obtain st1 nx where exec: "life_exec ops pc (lf_manager s) = Inr (st1, nx)"
    and post: "goes_on ext ?E (?bo (before @ after)) (?cl (before @ after) + ?ac) st1 nx"
    using life_exec_ok [OF pre(1,2)] by blast
  have keep: "life_ok ext s'"
    if s': "lf_manager s' = st1" "lf_threads s' = before @ ths @ after" "?pr ths = nx_prepared nx"
      "over (\<lambda>th. pc_borrowed (snd th)) ths = nx_borrowed nx"
      "?cl ths + mset (over (\<lambda>ao. clones_in (ao_plugins ao)) (lf_actors s')) = mset (nx_clones nx) + ?ac" for s' ths
  proof -
    have P: "?pr (lf_threads s') = ?pr before @ nx_prepared nx @ ?pr after" using s'(2,3) by simp
    have "set (?pr (lf_threads s')) = ?E \<union> set (nx_prepared nx)" unfolding P by auto
    moreover have "?bo (lf_threads s') = ?bo (before @ after) + mset (nx_borrowed nx)" using s'(2,4) by simp
    moreover have "all_clones s' = ?cl (before @ after) + ?ac + mset (nx_clones nx)"
      using s'(2,5) by (simp add: all_clones_def ac_simps)
    moreover have "distinct (?pr (lf_threads s'))"
      using pre(3) post unfolding P goes_on_def by auto
    ultimately show ?thesis using post s'(1) by (simp add: life_ok_def goes_on_def)
  qed
  show ?thesis
  proof (cases nx)
    case (L_go q)
    let ?s' = "s\<lparr>lf_manager := st1, lf_threads := before @ [(call, q)] @ after\<rparr>"
    have "life_move ops n s = Inr ?s'"
      using exec th L_go by (simp add: life_move_def before_def after_def)
    moreover have "life_ok ext ?s'" by (rule keep [of _ "[(call, q)]"]) (simp_all add: nx_defs L_go)
    ultimately show ?thesis by blast
  next
    case (L_return b)
    let ?s' = "s\<lparr>lf_manager := st1, lf_threads := before @ [] @ after\<rparr>"
    have "life_move ops n s = Inr ?s'"
      using exec th L_return by (simp add: life_move_def before_def after_def)
    moreover have "life_ok ext ?s'" by (rule keep [of _ "[]"]) (simp_all add: nx_defs L_return)
    ultimately show ?thesis by blast
  next
    case (L_built plugins)
    let ?ao = "\<lparr>ao_object_id = (case call of NewActor i names \<Rightarrow> i | _ \<Rightarrow> 0), ao_plugins = plugins\<rparr>"
    let ?s' = "s\<lparr>lf_manager := st1, lf_threads := before @ [] @ after, lf_actors := lf_actors s @ [?ao]\<rparr>"
    have "life_move ops n s = Inr ?s'"
      using exec th L_built by (simp add: life_move_def before_def after_def)
    moreover have "life_ok ext ?s'" by (rule keep [of _ "[]"]) (simp_all add: nx_defs L_built)
    ultimately show ?thesis by blast
  qed
qed

text \<open>An actor invokes a module, or is destroyed.\<close>

lemma over_split:
  assumes "k < length xs"
  shows "mset (over f xs) = mset (f (xs ! k)) + mset (over f (take k xs @ drop (Suc k) xs))"
proof -
  have "over f xs = over f (take k xs @ xs ! k # drop (Suc k) xs)"
    using id_take_nth_drop [OF assms] by simp
  then show ?thesis by simp
qed

lemma invoke_cases:
  obtains "ActorWithObject_InvokeModule ops m action input ao w = (ao, w)"
  | q ok v v' out cs q' x w' where "um_find (ao_plugins ao) m = Some (Some q)"
    and "ip_Execute ops v action input [] (ow_storage w) q (ow_backend w) = (ok, v', out, cs, q', x)"
    and "ActorWithObject_InvokeModule ops m action input ao w = (ao\<lparr>ao_plugins := um_assign m (Some q') (ao_plugins ao)\<rparr>, w')"
    and "ow_backend w' = x"
proof (cases "um_find (ao_plugins ao) m")
  case None
  then show ?thesis using that(1) InvokeModule_no_plugin by blast
next
  case (Some p)
  show ?thesis
  proof (cases "p = None \<or> view_of (ow_registry w) (ao_object_id ao) = None")
    case True
    then have "ActorWithObject_InvokeModule ops m action input ao w = (ao, w)"
      by (elim disjE, use Some in \<open>simp add: ActorWithObject_InvokeModule_def\<close>) (rule InvokeModule_no_object)
    then show ?thesis by (rule that(1))
  next
    case False
    then obtain q v where q: "um_find (ao_plugins ao) m = Some (Some q)"
      and v: "view_of (ow_registry w) (ao_object_id ao) = Some v" using Some by auto
    obtain ok v' out cs q' x where run: "ip_Execute ops v action input [] (ow_storage w) q (ow_backend w) = (ok, v', out, cs, q', x)"
      by (metis prod_cases6)
    show ?thesis by (rule that(2) [OF q run InvokeModule_step [OF q v run]]) simp
  qed
qed

lemma life_ok_invoke:
  assumes ok: "life_ok ext s" and k: "k < length (lf_actors s)"
  shows "\<exists>s'. life_step ops (LInvoke k m action input) s = Inr s' \<and> life_ok ext s'"
proof -
  obtain mm h where st: "lf_manager s = (mm, h)" by fastforce
  define ao where "ao = lf_actors s ! k"
  define w where "w = \<lparr>ow_registry = lf_registry s, ow_storage = lf_storage s, ow_backend = ph_backend h\<rparr>"
  define rest where "rest = mset (over (\<lambda>th. pc_clones (snd th)) (lf_threads s)) +
    mset (over (\<lambda>ao. clones_in (ao_plugins ao)) (take k (lf_actors s) @ drop (Suc k) (lf_actors s)))"
  have all: "all_clones s = rest + mset (clones_in (ao_plugins ao))"
    using over_split [OF k, of "\<lambda>ao. clones_in (ao_plugins ao)"] by (simp add: all_clones_def rest_def ao_def)
  obtain ao' w' where inv: "ActorWithObject_InvokeModule ops m action input ao w = (ao', w')" by fastforce
  let ?s' = "s\<lparr>lf_manager := (mm, h\<lparr>ph_backend := ow_backend w'\<rparr>), lf_actors := (lf_actors s)[k := ao'],
    lf_registry := ow_registry w', lf_storage := ow_storage w'\<rparr>"
  have step: "life_step ops (LInvoke k m action input) s = Inr ?s'"
    using k st inv by (simp add: ao_def w_def)
  have all': "all_clones ?s' = rest + mset (clones_in (ao_plugins ao'))"
    using k over_split [of k "(lf_actors s)[k := ao']" "\<lambda>ao. clones_in (ao_plugins ao)"]
    by (simp add: all_clones_def rest_def)
  let ?E = "set (over (\<lambda>th. pc_prepared (snd th)) (lf_threads s))"
  let ?B = "mset (over (\<lambda>th. pc_borrowed (snd th)) (lf_threads s))"
  have pre: "life_with ext ?E ?B (rest + mset (clones_in (ao_plugins ao))) (mm, h)"
    "distinct (over (\<lambda>th. pc_prepared (snd th)) (lf_threads s))"
    using ok st all by (simp_all add: life_ok_def Let_def)
  have "life_with ext ?E ?B (rest + mset (clones_in (ao_plugins ao'))) (mm, h\<lparr>ph_backend := ow_backend w'\<rparr>)"
  proof (cases rule: invoke_cases [of m action input ao w])
    case 1
    then have "ao' = ao" "w' = w" using inv by simp_all
    then show ?thesis using pre(1) by (simp add: w_def)
  next
    case (2 q ok v v' out cs q' x w'')
    have ao': "ao' = ao\<lparr>ao_plugins := um_assign m (Some q') (ao_plugins ao)\<rparr>" and x: "ow_backend w' = x"
      using 2(3,4) inv by simp_all
    have new: "add_mset q (mset (clones_in (ao_plugins ao'))) = add_mset q' (mset (clones_in (ao_plugins ao)))"
      using clones_in_assign [of m q' "ao_plugins ao"] 2(1) ao' by simp
    obtain D where D: "mset (clones_in (ao_plugins ao)) = add_mset q D"
      using clones_in_find [OF 2(1)] by (metis in_multiset_in_set mset_add)
    then have D': "mset (clones_in (ao_plugins ao')) = add_mset q' D" using new by simp
    have "life_with ext ?E ?B (add_mset q (rest + D)) (mm, h)" using pre(1) D by simp
    from life_execute [OF this] show ?thesis using 2(2) D' x by (simp add: w_def)
  qed
  then have "life_ok ext ?s'" using pre(2) all' by (simp add: life_ok_def Let_def)
  then show ?thesis using step by blast
qed

lemma life_ok_destroy:
  assumes ok: "life_ok ext s" and k: "k < length (lf_actors s)"
  shows "\<exists>s'. life_step ops (LDestroy k) s = Inr s' \<and> life_ok ext s'"
proof -
  obtain mm h where st: "lf_manager s = (mm, h)" by fastforce
  let ?plugins = "ao_plugins (lf_actors s ! k)"
  let ?s' = "s\<lparr>lf_manager := (mm, h\<lparr>ph_backend := destroy_plugins ops ?plugins (ph_backend h)\<rparr>),
    lf_actors := take k (lf_actors s) @ drop (Suc k) (lf_actors s)\<rparr>"
  have "all_clones s = all_clones ?s' + mset (clones_in ?plugins)"
    using over_split [OF k, of "\<lambda>ao. clones_in (ao_plugins ao)"] by (simp add: all_clones_def)
  then have "life_ok ext ?s'"
    using ok st life_destroy_all [of ext _ _ "all_clones ?s'" ?plugins mm h] by (simp add: life_ok_def Let_def)
  then show ?thesis using k st by simp
qed

lemma life_ok_step:
  assumes "life_ok ext s"
  shows "\<exists>s'. life_step ops e s = Inr s' \<and> life_ok ext s'"
proof (cases e)
  case (LThread n)
  then show ?thesis using life_ok_move [OF assms, of n] assms by simp
next
  case (LInvoke k m action input)
  then show ?thesis
    using life_ok_invoke [OF assms, of k m action input] assms by (cases "k < length (lf_actors s)") simp_all
next
  case (LDestroy k)
  then show ?thesis
    using life_ok_destroy [OF assms, of k] assms by (cases "k < length (lf_actors s)") simp_all
next
  case (LObjects reg cs)
  then show ?thesis using assms by (simp add: life_ok_def all_clones_def)
qed

lemma life_ok_run: "life_ok ext s \<Longrightarrow> \<exists>s'. life_run ops es s = Inr s' \<and> life_ok ext s'"
proof (induction es arbitrary: s)
  case (Cons e es)
  then show ?case using life_ok_step [OF Cons.prems, of e] by fastforce
qed simp

text \<open>What the invariant says of modules, actors and the runtime.\<close>

lemma life_ok_modules:
  assumes "life_ok ext s" and "um_find (mm_modules (fst (lf_manager s))) n = Some a"
  shows "\<exists>c. cell (snd (lf_manager s)) a = Some c \<and> ready (so_obj c)"
  using assms with_loaded [of "ext \<union> owned (all_clones s)" _ _ "fst (lf_manager s)" "snd (lf_manager s)" n a]
  by (fastforce simp: life_ok_def life_with_def Let_def)

lemma life_ok_good:
  assumes "life_ok ext s"
  shows "good (ph_backend (snd (lf_manager s)))"
proof -
  obtain mm h where st: "lf_manager s = (mm, h)" by fastforce
  then obtain E B where "life_with ext E B (all_clones s) (mm, h)" using assms by (auto simp: life_ok_def Let_def)
  from life_with_live(1) [OF this] show ?thesis using st by simp
qed

lemma life_ok_clone:
  assumes "life_ok ext s" and "k < length (lf_actors s)" and "um_find (ao_plugins (lf_actors s ! k)) n = Some (Some q)"
  shows "ready q"
proof -
  have "q \<in># all_clones s"
    using clones_in_find [OF assms(3)] over_split [OF assms(2), of "\<lambda>ao. clones_in (ao_plugins ao)"]
    by (auto simp: all_clones_def simp del: mset_concat mset_append)
  then show ?thesis using assms(1) by (simp add: life_ok_def life_with_def clones_ok_def Let_def)
qed

text \<open>No handle belongs to plugins of two actors, or to an actor and a loaded module.\<close>

lemma nth_other: "l < length xs \<Longrightarrow> l \<noteq> k \<Longrightarrow> xs ! l \<in> set (take k xs @ drop (Suc k) xs)"
proof (cases "l < k")
  case True
  then show "l < length xs \<Longrightarrow> xs ! l \<in> set (take k xs @ drop (Suc k) xs)" by (auto simp: in_set_conv_nth)
next
  case False
  assume "l < length xs" "l \<noteq> k"
  then have "drop (Suc k) xs ! (l - Suc k) = xs ! l" "l - Suc k < length (drop (Suc k) xs)" using False by auto
  then show ?thesis by (metis UnCI nth_mem set_append)
qed

lemma life_ok_apart:
  assumes "life_ok ext s" and "k < length (lf_actors s)" and "l < length (lf_actors s)" and "k \<noteq> l"
    and "um_find (ao_plugins (lf_actors s ! k)) n = Some (Some q)" and "um_find (ao_plugins (lf_actors s ! l)) m = Some (Some p)"
  shows "owns q \<inter> owns p = {}"
proof -
  let ?f = "\<lambda>ao. clones_in (ao_plugins ao)"
  let ?D = "mset (over (\<lambda>th. pc_clones (snd th)) (lf_threads s)) + mset (over ?f (take k (lf_actors s) @ drop (Suc k) (lf_actors s)))"
  have "all_clones s = mset (?f (lf_actors s ! k)) + ?D"
    using over_split [OF assms(2), of ?f] by (simp add: all_clones_def)
  then have ok: "clones_ok ext (mset (?f (lf_actors s ! k)) + ?D)" using assms(1) by (simp add: life_ok_def life_with_def Let_def)
  have p: "p \<in> set (?f (lf_actors s ! l))" using clones_in_find [OF assms(6)] .
  have "lf_actors s ! l \<in> set (take k (lf_actors s) @ drop (Suc k) (lf_actors s))"
    using nth_other [OF assms(3), of k] assms(4) by simp
  then have "p \<in> set (over ?f (take k (lf_actors s) @ drop (Suc k) (lf_actors s)))" using p by auto
  then have "p \<in># ?D" by (simp only: union_iff set_mset_mset) simp
  then show ?thesis using clones_apart [OF ok, of q p] clones_in_find [OF assms(5)] by simp
qed

lemma life_ok_module_apart:
  assumes "life_ok ext s" and "k < length (lf_actors s)" and "um_find (ao_plugins (lf_actors s ! k)) n = Some (Some q)"
    and "cell (snd (lf_manager s)) a = Some c"
  shows "owns q \<inter> owns (so_obj c) = {}"
proof -
  obtain mm h where st: "lf_manager s = (mm, h)" by fastforce
  have "q \<in># all_clones s"
    using clones_in_find [OF assms(3)] over_split [OF assms(2), of "\<lambda>ao. clones_in (ao_plugins ao)"]
    by (auto simp: all_clones_def simp del: mset_concat mset_append)
  moreover obtain E B where "manager_with (ext \<union> owned (all_clones s)) E B (mm, h)"
    using assms(1) st by (auto simp: life_ok_def life_with_def Let_def)
  then have "heap_ok (ext \<union> owned (all_clones s)) h" by (simp add: manager_with_def held_def)
  then have "owns (so_obj c) \<inter> (ext \<union> owned (all_clones s)) = {}" using heap_okD(5) assms(4) st by fastforce
  ultimately show ?thesis by (auto simp: owned_def)
qed

lemma life_ok_end:
  assumes "life_ok ext s" and "lf_threads s = []" and "lf_actors s = []"
    and "\<And>n. um_find (mm_modules (fst (lf_manager s))) n = None"
  shows "live (ph_backend (snd (lf_manager s))) = ext"
proof -
  have "manager_with ext {} {#} (fst (lf_manager s), snd (lf_manager s))"
    using assms(1-3) by (simp add: life_ok_def life_with_def all_clones_def)
  then show ?thesis using with_empty assms(4) by blast
qed

text \<open>A call that is scheduled returns: the number of its steps is fixed once its first step is done.\<close>

lemma thread_returns:
  assumes "life_ok ext s" and "lf_threads s = (call, pc) # ths"
  shows "\<exists>k s'. life_run ops (replicate k (LThread 0)) s = Inr s' \<and> life_ok ext s' \<and> lf_threads s' = ths"
proof -
  have move: "\<exists>s'. life_step ops (LThread 0) s = Inr s' \<and> life_ok ext s' \<and>
      (lf_threads s' = ths \<or> (\<exists>q. lf_threads s' = (call, q) # ths \<and> \<not> at_start q \<and> (at_start pc \<or> steps_left q < steps_left pc)))"
    if ok: "life_ok ext s" and th: "lf_threads s = (call, pc) # ths" for s pc
  proof -
    obtain s' where s': "life_move ops 0 s = Inr s'" "life_ok ext s'" using life_ok_move [OF ok, of 0] th by auto
    then obtain st nx where ex: "life_exec ops pc (lf_manager s) = Inr (st, nx)"
      using th by (auto simp: life_move_def split: sum.splits)
    have "lf_threads s' = ths \<or> (\<exists>q. nx = L_go q \<and> lf_threads s' = (call, q) # ths)"
      using s'(1) th ex by (cases nx) (auto simp: life_move_def)
    then show ?thesis using s' th life_exec_left [of ops pc "lf_manager s" st] ex by auto
  qed
  have rest: "\<exists>k s'. life_run ops (replicate k (LThread 0)) s = Inr s' \<and> life_ok ext s' \<and> lf_threads s' = ths"
    if "life_ok ext s" "lf_threads s = (call, pc) # ths" "\<not> at_start pc" for s pc
    using that
  proof (induction "steps_left pc" arbitrary: s pc rule: less_induct)
    case less
    obtain s1 where s1: "life_step ops (LThread 0) s = Inr s1" "life_ok ext s1"
      "lf_threads s1 = ths \<or> (\<exists>q. lf_threads s1 = (call, q) # ths \<and> \<not> at_start q \<and> steps_left q < steps_left pc)"
      using move [OF less.prems(1,2)] less.prems(3) by blast
    from s1(3) obtain k s' where "life_run ops (replicate k (LThread 0)) s1 = Inr s'" "life_ok ext s'" "lf_threads s' = ths"
    proof (elim disjE exE conjE)
      assume "lf_threads s1 = ths"
      then show ?thesis using that [of 0 s1] s1(2) by simp
    next
      fix q assume "lf_threads s1 = (call, q) # ths" "\<not> at_start q" "steps_left q < steps_left pc"
      then show ?thesis using less.hyps [of q s1] s1(2) that by blast
    qed
    then show ?case using s1(1) by (intro exI [of _ "Suc k"] exI [of _ s']) (simp del: life_step.simps)
  qed
  obtain s1 where s1: "life_step ops (LThread 0) s = Inr s1" "life_ok ext s1"
    "lf_threads s1 = ths \<or> (\<exists>q. lf_threads s1 = (call, q) # ths \<and> \<not> at_start q)"
    using move [OF assms] by blast
  from s1(3) obtain k s' where "life_run ops (replicate k (LThread 0)) s1 = Inr s'" "life_ok ext s'" "lf_threads s' = ths"
  proof (elim disjE exE conjE)
    assume "lf_threads s1 = ths"
    then show ?thesis using that [of 0 s1] s1(2) by simp
  next
    fix q assume "lf_threads s1 = (call, q) # ths" "\<not> at_start q"
    then show ?thesis using rest [of s1 q] s1(2) that by blast
  qed
  then show ?thesis using s1(1) by (intro exI [of _ "Suc k"] exI [of _ s']) (simp del: life_step.simps)
qed

lemma life_run_append:
  "life_run ops es s = Inr s1 \<Longrightarrow> life_run ops (es @ fs) s = life_run ops fs s1"
  by (induction es arbitrary: s) (auto split: sum.splits simp del: life_step.simps)

lemma threads_return:
  "life_ok ext s \<Longrightarrow> \<exists>k s'. life_run ops (replicate k (LThread 0)) s = Inr s' \<and> life_ok ext s' \<and> lf_threads s' = []"
proof (induction "lf_threads s" arbitrary: s)
  case Nil
  then show ?case by (intro exI [of _ 0] exI [of _ s]) simp
next
  case (Cons th ths)
  obtain call pc where th: "th = (call, pc)" by fastforce
  then have "lf_threads s = (call, pc) # ths" using Cons.hyps(2) by simp
  then obtain k s1 where s1: "life_run ops (replicate k (LThread 0)) s = Inr s1" "life_ok ext s1" "lf_threads s1 = ths"
    using thread_returns [OF Cons.prems] by blast
  then obtain k' s' where "life_run ops (replicate k' (LThread 0)) s1 = Inr s'" "life_ok ext s'" "lf_threads s' = []"
    using Cons.hyps(1) [of s1] by blast
  then show ?case
    using life_run_append [OF s1(1), of "replicate k' (LThread 0)"]
    by (intro exI [of _ "k + k'"] exI [of _ s']) (simp add: replicate_add del: life_step.simps)
qed

end

end
