(* ===== verification/Module_Versions.thy ===== *)
theory Module_Versions
  imports Module_Threads
begin

section \<open>The module manager: what is loaded\<close>

text \<open>
  The contract of \<open>core/module_manager.h\<close> without pointers: for every name, which file and schema version the
  current and the previous plugin come from, the configuration, and the version \<open>GetLoadedSchemaVersion\<close>
  reports. Installing, replacing, undoing and removing a module are atomic changes of this table; the
  calls on any number of threads refine it, each change being one locked section.
\<close>

record module_view =
  mv_current :: "(string \<times> u32) option"
  mv_previous :: "(string \<times> u32) option"
  mv_config :: "ModuleConfig option"
  mv_version :: u32

definition module_view_new :: module_view where
  "module_view_new = \<lparr>mv_current = None, mv_previous = None, mv_config = None, mv_version = 0\<rparr>"

datatype module_change = Install ModuleConfig | Replace ModuleConfig | Undo string | Remove string

definition installed :: "ModuleConfig \<Rightarrow> (string \<times> u32) option \<Rightarrow> module_view" where
  "installed c previous =
     \<lparr>mv_current = Some (mc_path c, mc_schema_version c), mv_previous = previous, mv_config = Some c,
      mv_version = mc_schema_version c\<rparr>"

text \<open>A rollback leaves the configuration of the discarded module, so the version it reports is that one.\<close>

fun change :: "module_change \<Rightarrow> (string \<Rightarrow> module_view) \<Rightarrow> string \<Rightarrow> module_view" where
  "change (Install c) V = V(mc_name c := installed c (mv_previous (V (mc_name c))))"
| "change (Replace c) V =
     (let v = V (mc_name c)
      in V(mc_name c := installed c (if mv_current v = None then mv_previous v else mv_current v)))"
| "change (Undo n) V =
     (if mv_previous (V n) = None then V
      else V(n := (V n)\<lparr>mv_current := mv_previous (V n), mv_previous := None\<rparr>))"
| "change (Remove n) V = V(n := module_view_new)"

subsection \<open>The table of a manager\<close>

text \<open>\<open>origin p\<close> is the file and the schema version a plugin was created from.\<close>

definition source_of :: "('p \<Rightarrow> string \<times> u32) \<Rightarrow> ('p, 'x) plugin_heap \<Rightarrow> nat option \<Rightarrow> (string \<times> u32) option" where
  "source_of origin h r = Option.bind r (\<lambda>a. map_option origin (objects h a))"

definition module_views :: "('p \<Rightarrow> string \<times> u32) \<Rightarrow> ('p, 'x) mm_state \<Rightarrow> string \<Rightarrow> module_view" where
  "module_views origin st n =
     (case st of (mm, h) \<Rightarrow>
        \<lparr>mv_current = source_of origin h (um_find (mm_modules mm) n),
         mv_previous = source_of origin h (um_find (mm_previous_modules mm) n),
         mv_config = um_find (mm_configs mm) n, mv_version = ModuleManager_GetLoadedSchemaVersion mm n\<rparr>)"

text \<open>The changes a step of a thread makes, with the call it belongs to; and those of a run.\<close>

fun pc_changes :: "mm_op \<Rightarrow> manager_pc \<Rightarrow> (mm_op \<times> module_change) list" where
  "pc_changes x (M_start (MRollback n)) = [(x, Undo n)]"
| "pc_changes x (M_start (MUnload n)) = [(x, Remove n)]"
| "pc_changes x (M_load c a) = [(x, Install c)]"
| "pc_changes x (M_reload c a) = [(x, Replace c)]"
| "pc_changes x (M_each_reload c a cs ok) = [(x, Replace c)]"
| "pc_changes x _ = []"

fun manager_log :: "('p, 'x) IPlugin \<Rightarrow> nat list \<Rightarrow> ('p, 'x) Manager_run \<Rightarrow> (mm_op \<times> module_change) list" where
  "manager_log ops [] r = []"
| "manager_log ops (n # ns) r =
     (if n < length (mr_threads r) then
        (case manager_move ops n r of
           Inl e \<Rightarrow> []
         | Inr r' \<Rightarrow> pc_changes (fst (mr_threads r ! n)) (snd (mr_threads r ! n)) @ manager_log ops ns r')
      else manager_log ops ns r)"

text \<open>What a call other than \<open>HotReloadAll\<close> did, read off its result.\<close>

fun returned_changes :: "mm_op \<times> bool option \<Rightarrow> (mm_op \<times> module_change) list" where
  "returned_changes (MLoad c, b) = (if b = Some True then [(MLoad c, Install c)] else [])"
| "returned_changes (MHotReload c, b) = (if b = Some True then [(MHotReload c, Replace c)] else [])"
| "returned_changes (MRollback n, b) = [(MRollback n, Undo n)]"
| "returned_changes (MUnload n, b) = [(MUnload n, Remove n)]"
| "returned_changes (MHotReloadAll, b) = []"

subsection \<open>Results and changes\<close>

text \<open>A thread is inside the call it was started for.\<close>

fun call_pc :: "mm_op \<Rightarrow> manager_pc \<Rightarrow> bool" where
  "call_pc x (M_start y) \<longleftrightarrow> y = x"
| "call_pc x (M_load c a) \<longleftrightarrow> x = MLoad c"
| "call_pc x (M_reload c a) \<longleftrightarrow> x = MHotReload c"
| "call_pc x (M_each cs ok) \<longleftrightarrow> x = MHotReloadAll"
| "call_pc x (M_each_reload c a cs ok) \<longleftrightarrow> x = MHotReloadAll"

abbreviation single :: "mm_op \<times> module_change \<Rightarrow> bool" where
  "single y \<equiv> fst y \<noteq> MHotReloadAll"

lemma exec_changes:
  assumes "manager_exec ops pc st = Inr (st', nx)" and "call_pc x pc"
  shows "case nx of Next q \<Rightarrow> call_pc x q \<and> filter single (pc_changes x pc) = []
     | Return b \<Rightarrow> filter single (pc_changes x pc) = returned_changes (x, b)"
  using assms
  by (induction ops pc st rule: manager_exec.induct) (auto simp: after_prepare_def split: sum.splits option.splits)

lemma exec_all_changes: "call_pc MHotReloadAll pc \<Longrightarrow> (MHotReloadAll, y) \<in> set (pc_changes MHotReloadAll pc) \<Longrightarrow> \<exists>c. y = Replace c"
  by (cases pc) auto

lemma move_changes:
  assumes "manager_move ops n r = Inr r'" and "n < length (mr_threads r)" and "\<forall>(x, pc) \<in> set (mr_threads r). call_pc x pc"
  shows "\<forall>(x, pc) \<in> set (mr_threads r'). call_pc x pc"
    and "concat (map returned_changes (mr_returned r')) =
      concat (map returned_changes (mr_returned r)) @ filter single (pc_changes (fst (mr_threads r ! n)) (snd (mr_threads r ! n)))"
proof -
  obtain x pc where th: "mr_threads r ! n = (x, pc)" by fastforce
  have "(x, pc) \<in> set (mr_threads r)" using assms(2) th by (metis nth_mem)
  then have pc: "call_pc x pc" using assms(3) by auto
  obtain st nx where ex: "manager_exec ops pc (mr_state r) = Inr (st, nx)"
    using assms(1) th by (cases "manager_exec ops pc (mr_state r)") (auto simp: manager_move_def)
  have others: "call_pc y q" if "(y, q) \<in> set (take n (mr_threads r)) \<or> (y, q) \<in> set (drop (Suc n) (mr_threads r))" for y q
    using that assms(3) by (auto dest: in_set_takeD in_set_dropD)
  have "(\<forall>(x, pc) \<in> set (mr_threads r'). call_pc x pc) \<and>
      concat (map returned_changes (mr_returned r')) = concat (map returned_changes (mr_returned r)) @ filter single (pc_changes x pc)"
    using assms(1) th ex exec_changes [OF ex pc] others by (cases nx) (auto simp: manager_move_def)
  then show "\<forall>(x, pc) \<in> set (mr_threads r'). call_pc x pc"
    and "concat (map returned_changes (mr_returned r')) =
      concat (map returned_changes (mr_returned r)) @ filter single (pc_changes (fst (mr_threads r ! n)) (snd (mr_threads r ! n)))"
    using th by simp_all
qed

lemma log_returned:
  assumes "manager_schedule ops ns r = Inr r'" and "\<forall>(x, pc) \<in> set (mr_threads r). call_pc x pc"
  shows "concat (map returned_changes (mr_returned r')) = concat (map returned_changes (mr_returned r)) @ filter single (manager_log ops ns r)"
    and "(MHotReloadAll, y) \<in> set (manager_log ops ns r) \<Longrightarrow> \<exists>c. y = Replace c"
proof -
  have "concat (map returned_changes (mr_returned r')) = concat (map returned_changes (mr_returned r)) @ filter single (manager_log ops ns r) \<and>
      ((MHotReloadAll, y) \<in> set (manager_log ops ns r) \<longrightarrow> (\<exists>c. y = Replace c))"
    using assms
  proof (induction ops ns r rule: manager_log.induct)
    case (2 ops n ns r)
    show ?case
    proof (cases "n < length (mr_threads r)")
      case True
      then obtain r1 where mv: "manager_move ops n r = Inr r1" "manager_schedule ops ns r1 = Inr r'"
        using "2.prems"(1) by (auto split: sum.splits)
      note step = move_changes [OF mv(1) True "2.prems"(2)]
      have "\<exists>c. y = Replace c" if "(MHotReloadAll, y) \<in> set (pc_changes (fst (mr_threads r ! n)) (snd (mr_threads r ! n)))"
      proof -
        have "fst (mr_threads r ! n) = MHotReloadAll"
          using that by (cases "(fst (mr_threads r ! n), snd (mr_threads r ! n))" rule: pc_changes.cases) auto
        moreover have "mr_threads r ! n \<in> set (mr_threads r)" using True by (rule nth_mem)
        then have "call_pc (fst (mr_threads r ! n)) (snd (mr_threads r ! n))" using "2.prems"(2) by (auto simp: case_prod_beta)
        ultimately show ?thesis using that exec_all_changes by metis
      qed
      then show ?thesis
        using "2.IH"(1) [OF True mv(1) mv(2) step(1)] True mv(1) step(2) by auto
    next
      case False
      then show ?thesis using "2.IH"(2) "2.prems" by simp
    qed
  qed simp
  then show "concat (map returned_changes (mr_returned r')) = concat (map returned_changes (mr_returned r)) @ filter single (manager_log ops ns r)"
    and "(MHotReloadAll, y) \<in> set (manager_log ops ns r) \<Longrightarrow> \<exists>c. y = Replace c" by simp_all
qed

lemma start_calls: "\<forall>(x, pc) \<in> set (mr_threads (manager_start xs st)). call_pc x pc"
  by (auto simp: manager_start_def)

subsection \<open>Where plugins come from\<close>

lemma objects_release: "b \<noteq> a \<Longrightarrow> objects (release ops a h) b = objects h b"
  by (auto simp: release_def objects_def cell_def split: option.split)

lemma objects_shutdown: "b \<noteq> a \<Longrightarrow> objects (heap_shutdown ops a h) b = objects h b"
  by (auto simp: heap_shutdown_def objects_def cell_def split: option.split prod.split)

lemma source_same: "(\<And>a. r = Some a \<Longrightarrow> objects h' a = objects h a) \<Longrightarrow> source_of origin h' r = source_of origin h r"
  by (cases r) (simp_all add: source_of_def)

lemma source_simps [simp]: "source_of origin h None = None" "source_of origin h (Some a) = map_option origin (objects h a)"
  by (simp_all add: source_of_def)

lemma views_simps:
  "mv_current (module_views origin (mm, h) n) = source_of origin h (um_find (mm_modules mm) n)"
  "mv_previous (module_views origin (mm, h) n) = source_of origin h (um_find (mm_previous_modules mm) n)"
  "mv_config (module_views origin (mm, h) n) = um_find (mm_configs mm) n"
  "mv_version (module_views origin (mm, h) n) = ModuleManager_GetLoadedSchemaVersion mm n"
  by (simp_all add: module_views_def)

lemma views_eqI:
  assumes "\<And>n. source_of origin h (um_find (mm_modules mm) n) = mv_current (V n)"
    and "\<And>n. source_of origin h (um_find (mm_previous_modules mm) n) = mv_previous (V n)"
    and "\<And>n. um_find (mm_configs mm) n = mv_config (V n)"
    and "\<And>n. ModuleManager_GetLoadedSchemaVersion mm n = mv_version (V n)"
  shows "module_views origin (mm, h) = V"
  using assms by (auto simp: module_views_def fun_eq_iff)

text \<open>A factory that hands its arguments on, and an \<open>Initialize\<close> that keeps them.\<close>

locale plugin_origin = plugin_backend ops create owns live good valid ready
  for ops :: "('p, 'x) IPlugin"
    and create :: "('p, 'x) PluginFactory"
    and owns :: "'p \<Rightarrow> nat set"
    and live :: "'x \<Rightarrow> nat set"
    and good :: "'x \<Rightarrow> bool"
    and valid :: "'p \<Rightarrow> bool"
    and ready :: "'p \<Rightarrow> bool" +
  fixes origin :: "'p \<Rightarrow> string \<times> u32"
  assumes create_origin: "create path v x = (Some p, x') \<Longrightarrow> origin p = (path, v)"
    and initialize_origin: "ip_Initialize ops p x = (ok, p', x') \<Longrightarrow> origin p' = origin p"
begin

definition made_from :: "ModuleConfig \<Rightarrow> nat \<Rightarrow> ('p, 'x) plugin_heap \<Rightarrow> bool" where
  "made_from c a h \<longleftrightarrow> map_option origin (objects h a) = Some (mc_path c, mc_schema_version c)"

lemma create_plugin_origin:
  assumes "create_plugin ops create c x = (Some p, x')"
  shows "origin p = (mc_path c, mc_schema_version c)"
proof -
  obtain q x1 where cr: "create (mc_path c) (mc_schema_version c) x = (Some q, x1)"
    using assms by (auto simp: create_plugin_def split: prod.splits option.splits)
  obtain ok q' x2 where init: "ip_Initialize ops q x1 = (ok, q', x2)" by (cases "ip_Initialize ops q x1") auto
  have "q' = p" using assms cr init by (auto simp: create_plugin_def split: if_splits)
  then show ?thesis using create_origin [OF cr] initialize_origin [OF init] by simp
qed

text \<open>The pointers of two slots differ, and those of slots from local ones.\<close>

lemma slots_apart:
  assumes "manager_with ext E B (mm, h)" and "slots mm k = Some a"
  shows "slots mm k' = Some b \<Longrightarrow> k' \<noteq> k \<Longrightarrow> b \<noteq> a" and "e \<in> E \<Longrightarrow> e \<noteq> a"
    and "\<exists>p. objects h a = Some p"
proof -
  have hd: "held ext E B (slots mm) h" using assms(1) by (simp add: manager_with_def)
  show "slots mm k' = Some b \<Longrightarrow> k' \<noteq> k \<Longrightarrow> b \<noteq> a"
    using heldD(2) [OF hd] assms(2) unfolding holds_def by blast
  have a: "a \<in> ran (slots mm)" using assms(2) by (rule ranI)
  then show "e \<in> E \<Longrightarrow> e \<noteq> a" using heldD(2) [OF hd] by (auto simp: holds_def)
  show "\<exists>p. objects h a = Some p" using held_cell [OF hd, of a] a by (auto simp: objects_def)
qed

lemma views_prepare:
  assumes "manager_with ext E B st" and "prepare_plugin ops c st = Inr (r, st1)"
  shows "module_views origin st1 = module_views origin st"
    and "r = Some a \<Longrightarrow> made_from c a (snd st1)"
    and "e \<in> E \<Longrightarrow> objects (snd st1) e = objects (snd st) e"
proof -
  obtain mm h where st: "st = (mm, h)" by fastforce
  have f: "mm_factory mm = Some create" and hd: "held ext E B (slots mm) h"
    using assms(1) st by (simp_all add: manager_with_def)
  obtain q x where cp: "create_plugin ops create c (ph_backend h) = (q, x)" by fastforce
  have "module_views origin st1 = module_views origin st \<and> (r = Some a \<longrightarrow> made_from c a (snd st1)) \<and>
      (e \<in> E \<longrightarrow> objects (snd st1) e = objects (snd st) e)"
  proof (cases q)
    case None
    then have "r = None" "st1 = (mm, h\<lparr>ph_backend := x\<rparr>)"
      using assms(2) f cp st by (auto simp: prepare_plugin_def)
    moreover have "objects (h\<lparr>ph_backend := x\<rparr>) = objects h" by (rule cells_eq) (simp add: cell_def [abs_def])
    ultimately show ?thesis using st by (simp add: module_views_def source_of_def fun_eq_iff)
  next
    case (Some p)
    obtain a' h1 where mk: "make_shared p (h\<lparr>ph_backend := x\<rparr>) = (a', h1)" by fastforce
    then have r: "r = Some a'" "st1 = (mm, h1)"
      using assms(2) f cp st Some by (auto simp: prepare_plugin_def)
    note fresh = held_make [OF hd cp [unfolded Some] mk]
    have objs: "objects h1 = (objects h)(a' \<mapsto> p)"
      using cell_make_shared [OF mk] by (auto simp: objects_def fun_eq_iff cell_def)
    have slot: "um_find (mm_modules mm) n \<noteq> Some a'" "um_find (mm_previous_modules mm) n \<noteq> Some a'" for n
      using fresh(3) ranI [of "slots mm" "(True, n)" a'] ranI [of "slots mm" "(False, n)" a'] by (auto simp: slots_simps)
    have "module_views origin st1 = module_views origin st"
      unfolding r st by (rule views_eqI) (auto simp: views_simps objs slot intro!: source_same)
    moreover have "made_from c a' h1"
      using create_plugin_origin [OF cp [unfolded Some]] objs by (simp add: made_from_def)
    ultimately show ?thesis using r st fresh(2) objs by auto
  qed
  then show "module_views origin st1 = module_views origin st"
    and "r = Some a \<Longrightarrow> made_from c a (snd st1)"
    and "e \<in> E \<Longrightarrow> objects (snd st1) e = objects (snd st) e" by simp_all
qed

text \<open>Dropping what one slot holds leaves the other slots and the local pointers.\<close>

abbreviation drop_slot :: "('p, 'x) ModuleManager \<Rightarrow> bool \<times> string \<Rightarrow> ('p, 'x) plugin_heap \<Rightarrow> ('p, 'x) plugin_heap" where
  "drop_slot mm k h \<equiv> (case slots mm k of None \<Rightarrow> h | Some old \<Rightarrow> release ops old h)"

lemma drop_other:
  assumes "manager_with ext E B (mm, h)"
  shows "k' \<noteq> k \<Longrightarrow> source_of origin (drop_slot mm k h') (slots mm k') = source_of origin h' (slots mm k')"
    and "e \<in> E \<Longrightarrow> objects (drop_slot mm k h') e = objects h' e"
proof -
  have "objects (drop_slot mm k h') b = objects h' b" if "slots mm k \<noteq> Some b" for b
    using that by (cases "slots mm k") (auto simp: objects_release)
  then show "k' \<noteq> k \<Longrightarrow> source_of origin (drop_slot mm k h') (slots mm k') = source_of origin h' (slots mm k')"
    "e \<in> E \<Longrightarrow> objects (drop_slot mm k h') e = objects h' e"
    using slots_apart(1,2) [OF assms, of k] by (blast intro: source_same)+
qed

lemma drop_others:
  assumes "manager_with ext E B (mm, h)"
  shows "n' \<noteq> n \<Longrightarrow> source_of origin (drop_slot mm (b, n) h') (um_find (mm_modules mm) n') = source_of origin h' (um_find (mm_modules mm) n')"
    and "n' \<noteq> n \<Longrightarrow> source_of origin (drop_slot mm (b, n) h') (um_find (mm_previous_modules mm) n') = source_of origin h' (um_find (mm_previous_modules mm) n')"
    and "source_of origin (drop_slot mm (True, n) h') (um_find (mm_previous_modules mm) n') = source_of origin h' (um_find (mm_previous_modules mm) n')"
    and "source_of origin (drop_slot mm (False, n) h') (um_find (mm_modules mm) n') = source_of origin h' (um_find (mm_modules mm) n')"
  using drop_other(1) [OF assms, of "(True, n')" "(b, n)" h'] drop_other(1) [OF assms, of "(False, n')" "(b, n)" h']
    drop_other(1) [OF assms, of "(False, n')" "(True, n)" h'] drop_other(1) [OF assms, of "(True, n')" "(False, n)" h']
  by (simp_all add: slots_simps)

lemma views_load:
  assumes "manager_with ext E B (mm, h)" and "a \<in> E" and "made_from c a h"
  shows "module_views origin (commit_load ops c a (mm, h)) = change (Install c) (module_views origin (mm, h))"
    and "e \<in> E \<Longrightarrow> objects (snd (commit_load ops c a (mm, h))) e = objects h e"
proof -
  let ?h' = "drop_slot mm (True, mc_name c) h"
  have eq: "commit_load ops c a (mm, h) = (record_config c (mm\<lparr>mm_modules := um_assign (mc_name c) a (mm_modules mm)\<rparr>), ?h')"
    by (simp add: commit_load_def slot_assign_def slots_simps)
  have new: "map_option origin (objects ?h' a) = Some (mc_path c, mc_schema_version c)"
    using drop_other(2) [OF assms(1,2)] assms(3) by (simp add: made_from_def)
  note keep = drop_others [OF assms(1), where n = "mc_name c" and h' = h]
  show "module_views origin (commit_load ops c a (mm, h)) = change (Install c) (module_views origin (mm, h))"
    unfolding eq
    by (rule views_eqI)
      (simp_all add: record_config_def views_simps installed_def new keep ModuleManager_GetLoadedSchemaVersion_def)
  show "e \<in> E \<Longrightarrow> objects (snd (commit_load ops c a (mm, h))) e = objects h e"
    unfolding eq using drop_other(2) [OF assms(1)] by simp
qed

lemma views_reload:
  assumes "manager_with ext E B (mm, h)" and "a \<in> E" and "made_from c a h"
  shows "module_views origin (commit_reload ops c a (mm, h)) = change (Replace c) (module_views origin (mm, h))"
    and "e \<in> E \<Longrightarrow> objects (snd (commit_reload ops c a (mm, h))) e = objects h e"
proof -
  let ?n = "mc_name c"
  have "module_views origin (commit_reload ops c a (mm, h)) = change (Replace c) (module_views origin (mm, h)) \<and>
      (e \<in> E \<longrightarrow> objects (snd (commit_reload ops c a (mm, h))) e = objects h e)"
  proof (cases "um_find (mm_modules mm) ?n")
    case None
    then have eq: "commit_reload ops c a (mm, h) = (record_config c (mm\<lparr>mm_modules := um_assign ?n a (mm_modules mm)\<rparr>), h)"
      by (simp add: commit_reload_def)
    have "module_views origin (commit_reload ops c a (mm, h)) = change (Replace c) (module_views origin (mm, h))"
      unfolding eq using assms(3) None
      by (intro views_eqI) (simp_all add: record_config_def views_simps installed_def made_from_def Let_def ModuleManager_GetLoadedSchemaVersion_def)
    then show ?thesis using eq by simp
  next
    case (Some old)
    let ?h' = "drop_slot mm (False, ?n) h"
    have eq: "commit_reload ops c a (mm, h) = (record_config c (mm\<lparr>mm_modules := um_assign ?n a (mm_modules mm),
        mm_previous_modules := um_assign ?n old (mm_previous_modules mm)\<rparr>), ?h')"
      using Some by (simp add: commit_reload_def slot_assign_def slots_simps)
    have new: "map_option origin (objects ?h' a) = Some (mc_path c, mc_schema_version c)"
      using drop_other(2) [OF assms(1,2)] assms(3) by (simp add: made_from_def)
    note keep = drop_others [OF assms(1), where n = ?n and h' = h]
    have old: "map_option origin (objects ?h' old) = map_option origin (objects h old)"
      using keep(4) [of ?n] Some by simp
    obtain p where p: "objects h old = Some p"
      using slots_apart(3) [OF assms(1), of "(True, ?n)" old] Some by (auto simp: slots_simps)
    have "module_views origin (commit_reload ops c a (mm, h)) = change (Replace c) (module_views origin (mm, h))"
      unfolding eq
      by (rule views_eqI)
        (simp_all add: record_config_def views_simps installed_def new old p Some keep Let_def ModuleManager_GetLoadedSchemaVersion_def)
    then show ?thesis using eq drop_other(2) [OF assms(1)] by simp
  qed
  then show "module_views origin (commit_reload ops c a (mm, h)) = change (Replace c) (module_views origin (mm, h))"
    and "e \<in> E \<Longrightarrow> objects (snd (commit_reload ops c a (mm, h))) e = objects h e" by simp_all
qed

lemma views_Rollback:
  assumes "manager_with ext E B (mm, h)"
  shows "module_views origin (ModuleManager_Rollback ops n (mm, h)) = change (Undo n) (module_views origin (mm, h))"
    and "e \<in> E \<Longrightarrow> objects (snd (ModuleManager_Rollback ops n (mm, h))) e = objects h e"
proof -
  have t: "tables_ok mm" using assms by (simp add: manager_with_def)
  have "module_views origin (ModuleManager_Rollback ops n (mm, h)) = change (Undo n) (module_views origin (mm, h)) \<and>
      (e \<in> E \<longrightarrow> objects (snd (ModuleManager_Rollback ops n (mm, h))) e = objects h e)"
  proof (cases "um_find (mm_previous_modules mm) n")
    case None
    then show ?thesis by (simp add: ModuleManager_Rollback_def views_simps)
  next
    case (Some a)
    let ?h' = "drop_slot mm (True, n) h"
    define mm' where "mm' = fst (ModuleManager_Rollback ops n (mm, h))"
    have rb: "ModuleManager_Rollback ops n (mm, h) = (mm', ?h')"
      using Some by (auto simp: mm'_def ModuleManager_Rollback_def slot_assign_def slots_simps Let_def split: option.split)
    note tables = Rollback_tables [OF t rb]
    note keep = drop_others [OF assms, where n = n and h' = h]
    have prev: "map_option origin (objects ?h' a) = map_option origin (objects h a)" using keep(3) [of n] Some by simp
    obtain p where p: "objects h a = Some p"
      using slots_apart(3) [OF assms, of "(False, n)" a] Some by (auto simp: slots_simps)
    have "module_views origin (mm', ?h') = change (Undo n) (module_views origin (mm, h))"
      by (rule views_eqI)
        (use Some in \<open>simp_all add: tables views_simps prev p keep ModuleManager_GetLoadedSchemaVersion_def\<close>)
    then show ?thesis using rb drop_other(2) [OF assms] by simp
  qed
  then show "module_views origin (ModuleManager_Rollback ops n (mm, h)) = change (Undo n) (module_views origin (mm, h))"
    and "e \<in> E \<Longrightarrow> objects (snd (ModuleManager_Rollback ops n (mm, h))) e = objects h e" by simp_all
qed

lemma views_Unload:
  assumes "manager_with ext E B (mm, h)"
  shows "module_views origin (ModuleManager_Unload ops n (mm, h)) = change (Remove n) (module_views origin (mm, h))"
    and "e \<in> E \<Longrightarrow> objects (snd (ModuleManager_Unload ops n (mm, h))) e = objects h e"
proof -
  define h0 where "h0 = (case um_find (mm_modules mm) n of None \<Rightarrow> h | Some a \<Rightarrow> heap_shutdown ops a h)"
  let ?h1 = "drop_slot mm (True, n) h0"
  let ?h2 = "drop_slot mm (False, n) ?h1"
  let ?mm' = "mm\<lparr>mm_modules := um_erase n (mm_modules mm), mm_previous_modules := um_erase n (mm_previous_modules mm),
     mm_configs := um_erase n (mm_configs mm), mm_schema_versions := um_erase n (mm_schema_versions mm)\<rparr>"
  have ul: "ModuleManager_Unload ops n (mm, h) = (?mm', ?h2)"
    using Unload_tables [of ops n mm h]
    by (auto simp: ModuleManager_Unload_def slot_erase_def h0_def slots_simps Let_def split: option.split)
  have h0: "objects h0 b = objects h b" if "slots mm (True, n) \<noteq> Some b" for b
    using that by (auto simp: h0_def slots_simps objects_shutdown split: option.split)
  have "source_of origin h0 (slots mm k) = source_of origin h (slots mm k)" if "k \<noteq> (True, n)" for k
    using slots_apart(1) [OF assms, of "(True, n)"] that by (intro source_same h0) blast
  from this [of "(True, n')" for n'] this [of "(False, n')" for n']
  have keep0: "n' \<noteq> n \<Longrightarrow> source_of origin h0 (um_find (mm_modules mm) n') = source_of origin h (um_find (mm_modules mm) n')"
    "source_of origin h0 (um_find (mm_previous_modules mm) n') = source_of origin h (um_find (mm_previous_modules mm) n')" for n'
    by (simp_all add: slots_simps)
  have "module_views origin (?mm', ?h2) = change (Remove n) (module_views origin (mm, h))"
    by (rule views_eqI)
      (simp_all add: views_simps module_view_new_def drop_others [OF assms] keep0 ModuleManager_GetLoadedSchemaVersion_def)
  then show "module_views origin (ModuleManager_Unload ops n (mm, h)) = change (Remove n) (module_views origin (mm, h))"
    by (simp add: ul)
  have "objects h0 e = objects h e" if "e \<in> E" using slots_apart(2) [OF assms, of "(True, n)"] that by (intro h0) blast
  then show "e \<in> E \<Longrightarrow> objects (snd (ModuleManager_Unload ops n (mm, h))) e = objects h e"
    unfolding ul using drop_other(2) [OF assms] by simp
qed

subsection \<open>The refinement\<close>

fun pc_made :: "manager_pc \<Rightarrow> ('p, 'x) plugin_heap \<Rightarrow> bool" where
  "pc_made (M_load c a) h \<longleftrightarrow> made_from c a h"
| "pc_made (M_reload c a) h \<longleftrightarrow> made_from c a h"
| "pc_made (M_each_reload c a cs ok) h \<longleftrightarrow> made_from c a h"
| "pc_made _ h \<longleftrightarrow> True"

lemma pc_made_keep: "pc_made pc h \<Longrightarrow> (\<And>e. e \<in> set (prepared pc) \<Longrightarrow> objects h' e = objects h e) \<Longrightarrow> pc_made pc h'"
  by (cases pc) (simp_all add: made_from_def)

abbreviation applied :: "(mm_op \<times> module_change) list \<Rightarrow> (string \<Rightarrow> module_view) \<Rightarrow> string \<Rightarrow> module_view" where
  "applied ys V \<equiv> fold change (map snd ys) V"

lemma prepare_refines:
  assumes "manager_with ext E B st" and "after_prepare failed go (prepare_plugin ops c st) = Inr (st1, nx)"
    and "\<And>a. pc_made (go a) (snd st1) \<longleftrightarrow> made_from c a (snd st1)" and "case failed of Next q \<Rightarrow> pc_made q (snd st1) | Return b \<Rightarrow> True"
  shows "module_views origin st1 = module_views origin st \<and> (\<forall>e \<in> E. objects (snd st1) e = objects (snd st) e) \<and>
     (case nx of Next q \<Rightarrow> pc_made q (snd st1) | Return b \<Rightarrow> True)"
proof -
  obtain r st2 where prep: "prepare_plugin ops c st = Inr (r, st2)"
    using assms(2) by (auto simp: after_prepare_def split: sum.splits)
  then have st2: "st2 = st1" "nx = (case r of None \<Rightarrow> failed | Some a \<Rightarrow> Next (go a))"
    using assms(2) by (auto simp: after_prepare_def split: option.splits)
  show ?thesis
    using views_prepare [OF assms(1) prep] assms(3,4) st2 by (cases r) auto
qed

lemma exec_refines:
  assumes "manager_with ext (E \<union> set (prepared pc)) B st" and "set (prepared pc) \<inter> E = {}"
    and "pc_made pc (snd st)" and "manager_exec ops pc st = Inr (st1, nx)"
  shows "module_views origin st1 = applied (pc_changes x pc) (module_views origin st) \<and> (\<forall>e \<in> E. objects (snd st1) e = objects (snd st) e) \<and>
     (case nx of Next q \<Rightarrow> pc_made q (snd st1) | Return b \<Rightarrow> True)"
proof -
  obtain mm h where st: "st = (mm, h)" by fastforce
  show ?thesis
  proof (cases pc)
    case (M_start y)
    note w = assms(1) [unfolded M_start, simplified]
    show ?thesis
    proof (cases y)
      case (MLoad c)
      then show ?thesis
        using prepare_refines [OF w, of "Return (Some False)" "M_load c" c st1 nx] assms(4) M_start by simp
    next
      case (MHotReload c)
      then show ?thesis
        using prepare_refines [OF w, of "Return (Some False)" "M_reload c" c st1 nx] assms(4) M_start by simp
    next
      case MHotReloadAll
      then show ?thesis using assms(4) M_start by auto
    next
      case (MRollback n)
      then show ?thesis using views_Rollback [OF w [unfolded st], where n = n] assms(4) M_start st by auto
    next
      case (MUnload n)
      then show ?thesis using views_Unload [OF w [unfolded st], where n = n] assms(4) M_start st by auto
    qed
  next
    case (M_load c a)
    then show ?thesis using views_load [of ext "insert a E" B mm h a c] assms st by auto
  next
    case (M_reload c a)
    then show ?thesis using views_reload [of ext "insert a E" B mm h a c] assms st by auto
  next
    case (M_each cs ok)
    note w = assms(1) [unfolded M_each, simplified]
    show ?thesis
    proof (cases cs)
      case Nil
      then show ?thesis using assms(4) M_each by auto
    next
      case (Cons c cs')
      then show ?thesis
        using prepare_refines [OF w, of "Next (M_each cs' False)" "\<lambda>a. M_each_reload c a cs' ok" c st1 nx] assms(4) M_each by simp
    qed
  next
    case (M_each_reload c a cs ok)
    then show ?thesis using views_reload [of ext "insert a E" B mm h a c] assms st by auto
  qed
qed

definition run_made :: "('p, 'x) Manager_run \<Rightarrow> bool" where
  "run_made r \<longleftrightarrow> (\<forall>(x, pc) \<in> set (mr_threads r). pc_made pc (snd (mr_state r)))"

lemma run_made_start: "run_made (manager_start xs st)"
  by (auto simp: run_made_def manager_start_def)

lemma move_refines:
  assumes ok: "run_ok ext r" and made: "run_made r" and n: "n < length (mr_threads r)" and mv: "manager_move ops n r = Inr r'"
  shows "run_made r' \<and> module_views origin (mr_state r') =
     applied (pc_changes (fst (mr_threads r ! n)) (snd (mr_threads r ! n))) (module_views origin (mr_state r))"
proof -
  obtain x pc where th: "mr_threads r ! n = (x, pc)" by fastforce
  define before where "before = take n (mr_threads r)"
  define after where "after = drop (Suc n) (mr_threads r)"
  have split: "mr_threads r = before @ (x, pc) # after"
    using id_take_nth_drop [OF n] th by (simp add: before_def after_def)
  let ?E = "set (prepared_all before) \<union> set (prepared_all after)"
  have pre: "manager_with ext (?E \<union> set (prepared pc)) {#} (mr_state r)" "set (prepared pc) \<inter> ?E = {}"
    using ok by (auto simp: run_ok_def split Un_ac)
  have pc: "pc_made pc (snd (mr_state r))" using made by (auto simp: run_made_def split)
  obtain st nx where ex: "manager_exec ops pc (mr_state r) = Inr (st, nx)"
    using mv th by (cases "manager_exec ops pc (mr_state r)") (auto simp: manager_move_def)
  note step = exec_refines [OF pre pc ex, of x]
  have others: "pc_made q (snd st)" if q: "(y, q) \<in> set before \<or> (y, q) \<in> set after" for y q
  proof (rule pc_made_keep)
    show "pc_made q (snd (mr_state r))" using made q by (auto simp: run_made_def split)
    show "objects (snd st) e = objects (snd (mr_state r)) e" if "e \<in> set (prepared q)" for e
    proof -
      have "e \<in> ?E" using q that by (force simp: prepared_all_def)
      then show ?thesis using step by blast
    qed
  qed
  have "r' = (case nx of Next q \<Rightarrow> r\<lparr>mr_state := st, mr_threads := before @ (x, q) # after\<rparr>
      | Return b \<Rightarrow> r\<lparr>mr_state := st, mr_threads := before @ after, mr_returned := mr_returned r @ [(x, b)]\<rparr>)"
    using mv th ex by (cases nx) (simp_all add: manager_move_def before_def after_def)
  then show ?thesis using step others th by (cases nx) (auto simp: run_made_def)
qed

lemma schedule_refines:
  "run_ok ext r \<Longrightarrow> run_made r \<Longrightarrow> manager_schedule ops ns r = Inr r' \<Longrightarrow>
     module_views origin (mr_state r') = applied (manager_log ops ns r) (module_views origin (mr_state r))"
proof (induction ns arbitrary: r)
  case (Cons n ns)
  show ?case
  proof (cases "n < length (mr_threads r)")
    case True
    then obtain r1 where mv: "manager_move ops n r = Inr r1" "manager_schedule ops ns r1 = Inr r'"
      using Cons.prems(3) by (auto split: sum.splits)
    have "run_ok ext r1" using run_ok_move [OF Cons.prems(1) True] mv(1) by simp
    then show ?thesis
      using Cons.IH [OF _ _ mv(2)] move_refines [OF Cons.prems(1,2) True mv(1)] True mv(1) by simp
  next
    case False
    then show ?thesis using Cons.IH [OF Cons.prems(1,2)] Cons.prems(3) by simp
  qed
qed simp

end

end
