(* ===== verification/Wasmedge_Resources.thy ===== *)
theory Wasmedge_Resources
  imports Wasmedge_Plugin Plugin_Lifecycle Module_Versions
begin

section \<open>The WasmEdge plugin meets the plugin contract\<close>

text \<open>
  Which handles are alive after a trace of API calls, which handles a call uses, and the proof that
  every operation of the plugin uses live handles only, deletes what it creates on every error path,
  and owns exactly its virtual machine and its host module when it is initialized. The theory ends
  with the interpretation of the locale \<open>plugin_backend\<close> on the plugin's method table.
\<close>

primrec call_live :: "wcall \<Rightarrow> nat set \<Rightarrow> nat set" where
  "call_live (StringCreateByCString s) H = H"
| "call_live (StringDelete s) H = H"
| "call_live (FunctionTypeCreate is os) H = H"
| "call_live (FunctionTypeDelete is os) H = H"
| "call_live (FunctionInstanceCreate f) H = H"
| "call_live (ModuleInstanceCreate h) H = H \<union> set_option h"
| "call_live (ModuleInstanceAddFunction m nm is os f) H = H"
| "call_live (ModuleInstanceDelete m) H = H - {m}"
| "call_live (VMCreate h) H = H \<union> set_option h"
| "call_live (VMDelete v) H = H - {v}"
| "call_live (VMLoadWasmFromFile v p r) H = H"
| "call_live (VMValidate v r) H = H"
| "call_live (VMRegisterModuleFromImport v m r) H = H"
| "call_live (VMInstantiate v r) H = H"
| "call_live (VMGetActiveModule v r) H = H"
| "call_live (ModuleInstanceFindMemory v h) H = H"
| "call_live (MemoryInstanceSetData m d off len r) H = H"
| "call_live (MemoryInstanceGetData m off len r) H = H"
| "call_live (CallingFrameGetMemoryInstance v r) H = H"
| "call_live (VMExecute v nm ps) H = H"
| "call_live (VMExecuteReturn v r) H = H"

primrec call_uses :: "wcall \<Rightarrow> nat set" where
  "call_uses (StringCreateByCString s) = {}"
| "call_uses (StringDelete s) = {}"
| "call_uses (FunctionTypeCreate is os) = {}"
| "call_uses (FunctionTypeDelete is os) = {}"
| "call_uses (FunctionInstanceCreate f) = {}"
| "call_uses (ModuleInstanceCreate h) = {}"
| "call_uses (ModuleInstanceAddFunction m nm is os f) = {m}"
| "call_uses (ModuleInstanceDelete m) = {m}"
| "call_uses (VMCreate h) = {}"
| "call_uses (VMDelete v) = {v}"
| "call_uses (VMLoadWasmFromFile v p r) = {v}"
| "call_uses (VMValidate v r) = {v}"
| "call_uses (VMRegisterModuleFromImport v m r) = {v, m}"
| "call_uses (VMInstantiate v r) = {v}"
| "call_uses (VMGetActiveModule v r) = {v}"
| "call_uses (ModuleInstanceFindMemory v h) = {v}"
| "call_uses (MemoryInstanceSetData m d off len r) = {m}"
| "call_uses (MemoryInstanceGetData m off len r) = {m}"
| "call_uses (CallingFrameGetMemoryInstance v r) = {v}"
| "call_uses (VMExecute v nm ps) = {v}"
| "call_uses (VMExecuteReturn v r) = {v}"

text \<open>The handles alive after a trace, and a trace in which every call uses live handles.\<close>

primrec trace_live :: "wtrace \<Rightarrow> nat set" where
  "trace_live [] = {}"
| "trace_live (c # tr) = call_live c (trace_live tr)"

primrec no_misuse :: "wtrace \<Rightarrow> bool" where
  "no_misuse [] \<longleftrightarrow> True"
| "no_misuse (c # tr) \<longleftrightarrow> call_uses c \<subseteq> trace_live tr \<and> no_misuse tr"

definition world_live :: "wasm_world \<Rightarrow> nat set" where
  "world_live w = trace_live (ww_trace w)"

text \<open>Handles are positions in the trace, so a handle created next is not alive yet.\<close>

definition world_good :: "wasm_world \<Rightarrow> bool" where
  "world_good w \<longleftrightarrow> no_misuse (ww_trace w) \<and> (\<forall>h \<in> world_live w. h < length (ww_trace w))"

lemma world_good_fresh: "world_good w \<Longrightarrow> length (ww_trace w) \<notin> world_live w"
  by (auto simp: world_good_def)

text \<open>The class invariant and what a plugin owns.\<close>

definition plugin_owns :: "WasmEdgePlugin \<Rightarrow> nat set" where
  "plugin_owns p = (case wp_state p of None \<Rightarrow> {} | Some s \<Rightarrow> set_option (ws_vm s) \<union> set_option (ws_host_module s))"

definition plugin_valid :: "WasmEdgePlugin \<Rightarrow> bool" where
  "plugin_valid p \<longleftrightarrow>
     (if wp_initialized p
      then \<exists>v m mem. wp_state p = Some \<lparr>ws_vm = Some v, ws_memory = mem, ws_host_module = Some m\<rparr> \<and>
             v \<noteq> m \<and> (mem = None \<or> mem = Some v)
      else plugin_owns p = {})"

subsection \<open>Effect of one call and of a list of calls\<close>

named_theorems world_simps

lemma emit_trace [simp]: "ww_trace (emit c w) = c # ww_trace w"
  by (simp add: emit_def)

lemma emit_ctx [simp]: "ww_ctx (emit c w) = ww_ctx w"
  by (simp add: emit_def)

lemma emits_simps [simp]: "emits [] w = w" "emits (c # cs) w = emits cs (emit c w)"
  by (simp_all add: emits_def)

lemma emits_append [simp]: "emits (as @ bs) w = emits bs (emits as w)"
  by (simp add: emits_def)

lemma emits_ctx [simp]: "ww_ctx (emits cs w) = ww_ctx w"
  by (induction cs arbitrary: w) simp_all

lemma live_emit [world_simps]: "world_live (emit c w) = call_live c (world_live w)"
  by (simp add: world_live_def)

lemma live_ctx [world_simps]: "world_live (w\<lparr>ww_ctx := x\<rparr>) = world_live w"
  by (simp add: world_live_def)

lemma good_ctx [world_simps]: "world_good (w\<lparr>ww_ctx := x\<rparr>) = world_good w"
  by (simp add: world_good_def world_live_def)

text \<open>A call that creates nothing keeps a good world good exactly when its handles are alive.\<close>

primrec set_of_created :: "wcall \<Rightarrow> nat set" where
  "set_of_created (StringCreateByCString s) = {}"
| "set_of_created (StringDelete s) = {}"
| "set_of_created (FunctionTypeCreate is os) = {}"
| "set_of_created (FunctionTypeDelete is os) = {}"
| "set_of_created (FunctionInstanceCreate f) = {}"
| "set_of_created (ModuleInstanceCreate h) = set_option h"
| "set_of_created (ModuleInstanceAddFunction m nm is os f) = {}"
| "set_of_created (ModuleInstanceDelete m) = {}"
| "set_of_created (VMCreate h) = set_option h"
| "set_of_created (VMDelete v) = {}"
| "set_of_created (VMLoadWasmFromFile v p r) = {}"
| "set_of_created (VMValidate v r) = {}"
| "set_of_created (VMRegisterModuleFromImport v m r) = {}"
| "set_of_created (VMInstantiate v r) = {}"
| "set_of_created (VMGetActiveModule v r) = {}"
| "set_of_created (ModuleInstanceFindMemory v h) = {}"
| "set_of_created (MemoryInstanceSetData m d off len r) = {}"
| "set_of_created (MemoryInstanceGetData m off len r) = {}"
| "set_of_created (CallingFrameGetMemoryInstance v r) = {}"
| "set_of_created (VMExecute v nm ps) = {}"
| "set_of_created (VMExecuteReturn v r) = {}"

lemma call_live_subset: "call_live c H \<subseteq> H \<union> set_of_created c"
  by (cases c) auto

lemma good_emit [world_simps]:
  assumes "world_good w" and "set_of_created c = {}"
  shows "world_good (emit c w) \<longleftrightarrow> call_uses c \<subseteq> world_live w"
proof -
  have "call_live c (world_live w) \<subseteq> world_live w"
    using call_live_subset [of c "world_live w"] assms(2) by simp
  then show ?thesis
    using assms(1) by (force simp: world_good_def world_live_def)
qed

text \<open>The two creating calls.\<close>

lemma good_emit_vm:
  "world_good w \<Longrightarrow> world_good (emit (VMCreate (if b then Some (length (ww_trace w)) else None)) w)"
  by (force simp: world_good_def world_live_def)

lemma good_emit_module:
  "world_good w \<Longrightarrow>
     world_good (emit (ModuleInstanceCreate (if b then Some (length (ww_trace w)) else None)) w)"
  by (force simp: world_good_def world_live_def)

lemma add_host_function_world:
  assumes "world_good w" and "m \<in> world_live w"
  shows "world_good (add_host_function m name ins outs f w) \<and>
     world_live (add_host_function m name ins outs f w) = world_live w"
  using assms by (simp add: add_host_function_def world_simps)

lemma CreateHostModule_world:
  assumes "world_good w" and "CreateHostModule env w = (r, w')"
  shows "world_good w' \<and> world_live w' = world_live w \<union> set_option r \<and> set_option r \<inter> world_live w = {}"
proof -
  let ?w1 = "emit (StringCreateByCString ''host'') w"
  let ?h = "if we_ModuleInstanceCreate env (ww_trace ?w1) then Some (length (ww_trace ?w1)) else None"
  have g1: "world_good ?w1" and l1: "world_live ?w1 = world_live w"
    using assms(1) by (simp_all add: world_simps)
  have g2: "world_good (emit (ModuleInstanceCreate ?h) ?w1)"
    using g1 by (rule good_emit_module)
  have fresh: "length (ww_trace ?w1) \<notin> world_live w"
    using world_good_fresh [OF g1] l1 by simp
  show ?thesis
    using assms(2) g2 fresh
    by (auto simp: CreateHostModule_def Let_def world_simps add_host_function_world l1 split: if_splits)
qed

subsection \<open>Initialization and shutdown\<close>

text \<open>What an initialization starting from handle set \<open>H\<close> must establish.\<close>

definition init_post :: "nat set \<Rightarrow> bool \<times> WasmEdgePlugin \<times> wasm_world \<Rightarrow> bool" where
  "init_post H r \<longleftrightarrow>
     (case r of (ok, p', w') \<Rightarrow>
        world_good w' \<and> plugin_valid p' \<and> (ok \<longleftrightarrow> wp_initialized p') \<and>
        (\<not> ok \<longrightarrow> plugin_owns p' = {}) \<and> plugin_owns p' \<inter> H = {} \<and>
        world_live w' = H \<union> plugin_owns p')"

lemma init_post_abort:
  assumes "world_good w" and "world_live w = H \<union> {vm, m}" and "{vm, m} \<inter> H = {}" and "vm \<noteq> m"
    and "\<not> wp_initialized p"
  shows "init_post H (Initialize_abort m vm p w)"
  using assms
  by (auto simp: init_post_def Initialize_abort_def world_simps plugin_valid_def plugin_owns_def)

lemma Initialize_memory_world:
  assumes "Initialize_memory env vm w = (mem, w')" and "world_good w" and "vm \<in> world_live w"
  shows "world_good w' \<and> world_live w' = world_live w \<and> (mem = None \<or> mem = Some vm)"
  using assms by (auto simp: Initialize_memory_def Let_def world_simps split: if_splits)

lemma init_post_module:
  assumes "world_good w" and "world_live w = H \<union> {vm, m}" and "{vm, m} \<inter> H = {}" and "vm \<noteq> m"
    and "\<not> wp_initialized p"
  shows "init_post H (Initialize_module env vm m p w)"
proof -
  note abort = init_post_abort [OF _ _ assms(3-5)]
  let ?load = "we_VMLoadWasmFromFile env (ww_trace w) vm (wp_path p)"
  define w1 where "w1 = emit (VMLoadWasmFromFile vm (wp_path p) ?load) w"
  let ?valid = "we_VMValidate env (ww_trace w1) vm"
  define w2 where "w2 = emit (VMValidate vm ?valid) w1"
  let ?reg = "we_VMRegisterModuleFromImport env (ww_trace w2) vm m"
  define w3 where "w3 = emit (VMRegisterModuleFromImport vm m ?reg) w2"
  let ?inst = "we_VMInstantiate env (ww_trace w3) vm"
  define w4 where "w4 = emit (VMInstantiate vm ?inst) w3"
  obtain mem w5 where mem: "Initialize_memory env vm w4 = (mem, w5)" by fastforce
  have good: "world_good w1" "world_good w2" "world_good w3" "world_good w4"
    and live: "world_live w1 = H \<union> {vm, m}" "world_live w2 = H \<union> {vm, m}"
      "world_live w3 = H \<union> {vm, m}" "world_live w4 = H \<union> {vm, m}"
    using assms(1,2) by (simp_all add: w1_def w2_def w3_def w4_def world_simps)
  have "Initialize_module env vm m p w =
     (if \<not> ?load then Initialize_abort m vm p w1 else if \<not> ?valid then Initialize_abort m vm p w2
      else if \<not> ?reg then Initialize_abort m vm p w3 else if \<not> ?inst then Initialize_abort m vm p w4
      else (True, p\<lparr>wp_state := Some \<lparr>ws_vm = Some vm, ws_memory = mem, ws_host_module = Some m\<rparr>,
                  wp_initialized := True\<rparr>, w5))"
    by (simp only: Initialize_module_def Let_def w1_def [symmetric] w2_def [symmetric]
        w3_def [symmetric] w4_def [symmetric] mem prod.case)
  moreover have "init_post H (True, p\<lparr>wp_state := Some \<lparr>ws_vm = Some vm, ws_memory = mem,
      ws_host_module = Some m\<rparr>, wp_initialized := True\<rparr>, w5)"
    using Initialize_memory_world [OF mem good(4)] live(4) assms(3,4)
    by (auto simp: init_post_def plugin_valid_def plugin_owns_def)
  ultimately show ?thesis
    using abort [OF good(1) live(1)] abort [OF good(2) live(2)] abort [OF good(3) live(3)]
      abort [OF good(4) live(4)] by simp
qed

lemma init_post_Initialize:
  assumes "world_good w" and "plugin_valid p" and "\<not> wp_initialized p"
  shows "init_post (world_live w) (WasmEdgePlugin_Initialize env p w)"
proof -
  let ?v = "length (ww_trace w)"
  let ?w1 = "emit (VMCreate (Some ?v)) w"
  have fresh: "?v \<notin> world_live w" by (rule world_good_fresh [OF assms(1)])
  have g1: "world_good ?w1"
    using good_emit_vm [OF assms(1), of True] by simp
  have l1: "world_live ?w1 = insert ?v (world_live w)" by (simp add: world_simps)
  show ?thesis
  proof (cases "we_VMCreate env (ww_trace w)")
    case False
    then show ?thesis
      using assms good_emit_vm [OF assms(1), of False]
      by (simp add: WasmEdgePlugin_Initialize_def init_post_def world_simps plugin_valid_def plugin_owns_def)
  next
    case vm: True
    obtain r w2 where host: "CreateHostModule env ?w1 = (r, w2)" by fastforce
    note w2 = CreateHostModule_world [OF g1 host]
    show ?thesis
    proof (cases r)
      case None
      then have "WasmEdgePlugin_Initialize env p w = (False, p\<lparr>wp_state := None\<rparr>, emit (VMDelete ?v) w2)"
        using assms(3) vm host by (simp add: WasmEdgePlugin_Initialize_def)
      then show ?thesis
        using None w2 l1 fresh assms(3)
        by (auto simp: init_post_def world_simps plugin_valid_def plugin_owns_def)
    next
      case (Some m)
      then have "WasmEdgePlugin_Initialize env p w = Initialize_module env ?v m p w2"
        using assms(3) vm host by (simp add: WasmEdgePlugin_Initialize_def)
      then show ?thesis
        using init_post_module [of w2 "world_live w" ?v m p env] Some w2 l1 fresh assms(3) by auto
    qed
  qed
qed

lemma Initialize_world:
  assumes "WasmEdgePlugin_Initialize env p w = (ok, p', w')"
    and "world_good w" and "plugin_valid p" and "plugin_owns p \<subseteq> world_live w"
  shows "world_good w' \<and> plugin_valid p' \<and> (ok \<longleftrightarrow> wp_initialized p') \<and> (\<not> ok \<longrightarrow> plugin_owns p' = {}) \<and>
     (plugin_owns p' - plugin_owns p) \<inter> world_live w = {} \<and>
     world_live w' = (world_live w - plugin_owns p) \<union> plugin_owns p'"
proof (cases "wp_initialized p")
  case True
  then show ?thesis using assms by (auto simp: WasmEdgePlugin_Initialize_def)
next
  case False
  then have "plugin_owns p = {}" using assms(3) by (simp add: plugin_valid_def)
  then show ?thesis
    using init_post_Initialize [OF assms(2,3) False, of env] assms(1) by (simp add: init_post_def)
qed

lemma plugin_owns_eq:
  assumes "wp_state p = Some s"
  shows "plugin_owns p = set_option (ws_vm s) \<union> set_option (ws_host_module s)"
  using assms by (simp add: plugin_owns_def)

lemma plugin_valid_cases:
  assumes "plugin_valid p"
  obtains v m mem where "wp_initialized p"
      and "wp_state p = Some \<lparr>ws_vm = Some v, ws_memory = mem, ws_host_module = Some m\<rparr>"
      and "v \<noteq> m" and "mem = None \<or> mem = Some v"
  | "\<not> wp_initialized p" and "plugin_owns p = {}"
  using assms by (auto simp: plugin_valid_def split: if_splits)

lemma ShutdownImpl_world:
  assumes "WasmEdgePlugin_ShutdownImpl p w = (p', w')"
    and "world_good w" and "plugin_valid p" and "plugin_owns p \<subseteq> world_live w"
  shows "world_good w' \<and> plugin_valid p' \<and> \<not> wp_initialized p' \<and> plugin_owns p' = {} \<and>
     world_live w' = world_live w - plugin_owns p"
  using assms(3)
proof (cases rule: plugin_valid_cases)
  case (1 v m mem)
  then show ?thesis
    using assms
    by (auto simp: WasmEdgePlugin_ShutdownImpl_def plugin_owns_def plugin_valid_def world_simps)
next
  case 2
  then show ?thesis
    using assms
    by (auto simp: WasmEdgePlugin_ShutdownImpl_def plugin_owns_def plugin_valid_def split: option.splits)
qed

lemma Clone_world:
  assumes "WasmEdgePlugin_Clone env p w = (r, w')" and "world_good w"
  shows "case r of
      None \<Rightarrow> world_good w' \<and> world_live w' = world_live w
    | Some q \<Rightarrow> world_good w' \<and> plugin_valid q \<and> wp_initialized q \<and>
        plugin_owns q \<inter> world_live w = {} \<and> world_live w' = world_live w \<union> plugin_owns q"
proof -
  let ?q = "WasmEdgePlugin_new (wp_path p) (wp_schema_version p)"
  obtain ok c w1 where init: "WasmEdgePlugin_Initialize env ?q w = (ok, c, w1)"
    by (cases "WasmEdgePlugin_Initialize env ?q w") auto
  have q: "plugin_valid ?q" "\<not> wp_initialized ?q"
    by (simp_all add: WasmEdgePlugin_new_def plugin_valid_def plugin_owns_def)
  have post: "init_post (world_live w) (ok, c, w1)"
    using init_post_Initialize [OF assms(2) q] init by metis
  show ?thesis
  proof (cases ok)
    case True
    then show ?thesis using assms(1) init post by (auto simp: WasmEdgePlugin_Clone_def init_post_def)
  next
    case False
    obtain c' w2 where sd: "WasmEdgePlugin_ShutdownImpl c w1 = (c', w2)" by fastforce
    have "world_good w1" "plugin_valid c" "plugin_owns c = {}" "world_live w1 = world_live w"
      using post False by (simp_all add: init_post_def)
    then have "world_good w2 \<and> world_live w2 = world_live w"
      using ShutdownImpl_world [OF sd] by simp
    then show ?thesis
      using False assms(1) init sd by (auto simp: WasmEdgePlugin_Clone_def WasmEdgePlugin_destructor_def)
  qed
qed

subsection \<open>Execution\<close>

text \<open>\<open>steady w w'\<close>: nothing was misused, created or deleted between two worlds.\<close>

definition steady :: "wasm_world \<Rightarrow> wasm_world \<Rightarrow> bool" where
  "steady w w' \<longleftrightarrow> world_good w' \<and> world_live w' = world_live w"

lemma steady_refl: "world_good w \<Longrightarrow> steady w w"
  by (simp add: steady_def)

lemma HostGetComponent_steady:
  assumes "world_good w" and "vm \<in> world_live w" and "HostGetComponent env vm i t ptr cap cs w = (r, w')"
  shows "steady w w'"
  using assms
  by (auto simp: HostGetComponent_def Read_callback Let_def steady_def world_simps
      split: if_splits option.splits)

lemma HostSetComponent_steady:
  assumes "world_good w" and "vm \<in> world_live w"
    and "HostSetComponent env vm i t ptr len cs w = (r, cs', w')"
  shows "steady w w'"
  using assms
  by (auto simp: HostSetComponent_def Let_def steady_def world_simps split: if_splits option.splits)

lemma run_guest_steady:
  "world_good w \<Longrightarrow> vm \<in> world_live w \<Longrightarrow> run_guest env vm g cs w = (r, cs', w') \<Longrightarrow> steady w w'"
proof (induction g arbitrary: cs w)
  case (GGetCurrentObjectId k)
  then show ?case using GGetCurrentObjectId.IH [OF rangeI, of w] by simp
next
  case (GGetComponent i t ptr cap k)
  obtain x w1 where host: "HostGetComponent env vm i t ptr cap cs w = (x, w1)" by fastforce
  have s: "steady w w1" by (rule HostGetComponent_steady [OF GGetComponent.prems(1,2) host])
  then show ?case
    using GGetComponent.IH [OF rangeI, of w1] GGetComponent.prems host by (auto simp: steady_def)
next
  case (GSetComponent i t ptr len k)
  obtain x cs1 w1 where host: "HostSetComponent env vm i t ptr len cs w = (x, cs1, w1)"
    by (cases "HostSetComponent env vm i t ptr len cs w") auto
  have s: "steady w w1" by (rule HostSetComponent_steady [OF GSetComponent.prems(1,2) host])
  then show ?case
    using GSetComponent.IH [OF rangeI, of w1] GSetComponent.prems host by (auto simp: steady_def)
qed (auto simp: steady_refl)

lemma Execute_result_steady:
  assumes "world_good w" and "mem = None \<or> mem = Some vm" and "vm \<in> world_live w"
    and "Execute_result env vm mem r out w = (ok, out', w')"
  shows "steady w w'"
  using assms
  by (auto simp: Execute_result_def Let_def steady_def world_simps split: if_splits option.splits)

lemma Execute_call_steady:
  assumes "world_good w" and "mem = None \<or> mem = Some vm" and "vm \<in> world_live w"
    and "Execute_call env vm mem action input out cs w = (ok, out', cs', w')"
  shows "steady w w'"
proof -
  let ?params = "[ValI64 (we_CityHash64 env action), ValI32 input_offset, ValI32 (size_u32 input),
                  ValI32 output_offset, ValI32 output_cap]"
  define w2 where "w2 = emit (VMExecute vm ''execute'' ?params) (emit (StringCreateByCString ''execute'') w)"
  have w2: "world_good w2" "vm \<in> world_live w2" "world_live w2 = world_live w"
    using assms(1,3) by (simp_all add: w2_def world_simps)
  obtain ret cs1 w3 where
    run: "run_guest env vm (we_VMExecute env (ww_trace w2) vm ''execute'' ?params) cs w2 = (ret, cs1, w3)"
    by (cases "run_guest env vm (we_VMExecute env (ww_trace w2) vm ''execute'' ?params) cs w2") auto
  define w4 where "w4 = emits [VMExecuteReturn vm (ret \<noteq> None), StringDelete ''execute''] w3"
  have w3: "steady w2 w3" by (rule run_guest_steady [OF w2(1,2) run])
  have w4: "world_good w4" "vm \<in> world_live w4" "world_live w4 = world_live w"
    using w3 w2 by (simp_all add: w4_def steady_def world_simps)
  have call: "Execute_call env vm mem action input out cs w =
      (case ret of None \<Rightarrow> (False, out, cs1, w4)
       | Some r \<Rightarrow> (case Execute_result env vm mem r out w4 of (ok, output', w5) \<Rightarrow> (ok, output', cs1, w5)))"
    by (simp only: Execute_call_def Let_def w2_def [symmetric] run prod.case w4_def [symmetric])
  show ?thesis
  proof (cases ret)
    case None
    then show ?thesis using assms(4) call w4 by (simp add: steady_def)
  next
    case (Some r)
    then show ?thesis
      using assms(4) call w4 Execute_result_steady [OF w4(1) assms(2) w4(2)]
      by (auto simp: steady_def split: prod.splits)
  qed
qed

lemma Execute_keeps_plugin:
  "WasmEdgePlugin_Execute env obj action input out cs p w = (ok, obj', out', cs', p', w') \<Longrightarrow>
     p' = p \<and> obj' = obj"
  by (auto simp: WasmEdgePlugin_Execute_def Let_def split: prod.splits option.splits bool.splits if_splits)

text \<open>\<open>Execute\<close> on an initialized plugin, with its virtual machine and memory spelled out.\<close>

definition enter_object :: "GameObject \<Rightarrow> wasm_world \<Rightarrow> wasm_world" where
  "enter_object obj w =
     w\<lparr>ww_ctx := \<lparr>hc_storage = go_storage obj, hc_object_id = oh_object_id (go_header obj)\<rparr>\<rparr>"

lemma enter_object_world [world_simps]:
  "world_good (enter_object obj w) = world_good w"
  "world_live (enter_object obj w) = world_live w"
  by (simp_all add: enter_object_def world_simps)

lemma enter_object_ctx [simp]:
  "ww_ctx (enter_object obj w) = \<lparr>hc_storage = go_storage obj, hc_object_id = oh_object_id (go_header obj)\<rparr>"
  "ww_trace (enter_object obj w) = ww_trace w"
  by (simp_all add: enter_object_def)

definition pass_input :: "wasm_env \<Rightarrow> nat \<Rightarrow> bytes \<Rightarrow> wasm_world \<Rightarrow> bool \<times> wasm_world" where
  "pass_input env mem input w =
     (let ok = we_SetData env (ww_trace w) mem input input_offset (size_u32 input)
      in (ok, emit (MemoryInstanceSetData mem input input_offset (size_u32 input) ok) w))"

lemma Execute_ready:
  assumes "wp_initialized p"
    and "wp_state p = Some \<lparr>ws_vm = Some vm, ws_memory = mem, ws_host_module = m\<rparr>"
  shows "WasmEdgePlugin_Execute env obj action input out cs p w =
     (if mem = None \<or> input = [] then
        (case Execute_call env vm mem action input out cs (enter_object obj w) of
           (ok, out', cs', w') \<Rightarrow> (ok, obj, out', cs', p, w'))
      else if length input > 4096 then (False, obj, out, cs, p, enter_object obj w)
      else case pass_input env (the mem) input (enter_object obj w) of
             (ok, w2) \<Rightarrow>
               if \<not> ok then (False, obj, out, cs, p, w2)
               else case Execute_call env vm mem action input out cs w2 of
                      (ok, out', cs', w') \<Rightarrow> (ok, obj, out', cs', p, w'))"
  using assms
  by (cases mem)
    (simp_all add: WasmEdgePlugin_Execute_def enter_object_def pass_input_def Let_def output_offset_def)

lemma Execute_not_ready:
  assumes "\<not> wp_initialized p"
  shows "WasmEdgePlugin_Execute env obj action input out cs p w = (False, obj, out, cs, p, w)"
  using assms by (simp add: WasmEdgePlugin_Execute_def)

lemma Execute_steady:
  assumes "WasmEdgePlugin_Execute env obj action input out cs p w = (ok, obj', out', cs', p', w')"
    and "world_good w" and "plugin_valid p" and "plugin_owns p \<subseteq> world_live w"
  shows "steady w w'"
  using assms(3)
proof (cases rule: plugin_valid_cases)
  case 2
  then show ?thesis using assms(1,2) by (simp add: Execute_not_ready steady_def)
next
  case (1 vm m mem)
  have w1: "world_good (enter_object obj w)" "vm \<in> world_live (enter_object obj w)"
    using assms(2,4) 1(2) by (auto simp: world_simps plugin_owns_def)
  obtain sent w2 where pass: "pass_input env vm input (enter_object obj w) = (sent, w2)" by fastforce
  have w2: "world_good w2" "vm \<in> world_live w2" "world_live w2 = world_live w"
    using w1 pass by (auto simp: pass_input_def Let_def world_simps)
  note exec = assms(1) [unfolded Execute_ready [OF 1(1,2)]]
  note c1 = Execute_call_steady [OF w1(1) 1(4) w1(2)]
  note c2 = Execute_call_steady [OF w2(1) 1(4) w2(2)]
  show ?thesis
  proof (cases "mem = None \<or> input = []")
    case True
    then have "\<exists>o1 c1. Execute_call env vm mem action input out cs (enter_object obj w) = (ok, o1, c1, w')"
      using exec by (auto split: prod.splits)
    then show ?thesis using c1 by (auto simp: steady_def world_simps)
  next
    case False
    then have "the mem = vm" using 1(4) by auto
    then have "w' = enter_object obj w \<or> w' = w2 \<or>
        (\<exists>o1 c1. Execute_call env vm mem action input out cs w2 = (ok, o1, c1, w'))"
      using exec False pass by (auto split: prod.splits if_splits)
    then show ?thesis
      using c2 w1 w2 by (auto simp: steady_def world_simps)
  qed
qed

subsection \<open>The interpretation\<close>

interpretation wasmedge: plugin_backend "WasmEdgePlugin_ops env" WasmEdgePluginFactory_Create
    plugin_owns world_live world_good plugin_valid wp_initialized for env
proof (unfold_locales, goal_cases)
  case (1 path v x x')
  then show ?case by (simp add: WasmEdgePluginFactory_Create_def)
next
  case (2 path v x p x')
  then show ?case
    by (auto simp: WasmEdgePluginFactory_Create_def WasmEdgePlugin_new_def plugin_valid_def plugin_owns_def)
next
  case (3 p x ok p' x')
  then show ?case using Initialize_world by (simp add: WasmEdgePlugin_ops_def)
next
  case (4 p x p' x')
  then show ?case using ShutdownImpl_world by (simp add: WasmEdgePlugin_ops_def WasmEdgePlugin_Shutdown_def)
next
  case (5 obj action input out cs p x ok obj' out' cs' p' x')
  then show ?case
    using Execute_steady [of env obj action input out cs p x ok obj' out' cs' p' x']
      Execute_keeps_plugin [of env obj action input out cs p x ok obj' out' cs' p' x']
    by (simp add: WasmEdgePlugin_ops_def steady_def)
next
  case (6 p x x')
  then show ?case using Clone_world [of env p x None x'] by (simp add: WasmEdgePlugin_ops_def)
next
  case (7 p x q x')
  then show ?case using Clone_world [of env p x "Some q" x'] by (simp add: WasmEdgePlugin_ops_def)
next
  case (8 x p)
  then show ?case
    using ShutdownImpl_world [of p x "fst (WasmEdgePlugin_ShutdownImpl p x)" "snd (WasmEdgePlugin_ShutdownImpl p x)"]
    by (simp add: WasmEdgePlugin_ops_def WasmEdgePlugin_destructor_def)
next
  case (9 p)
  then show ?case by (simp add: plugin_valid_def)
qed

text \<open>A plugin keeps the path and the schema version it was created with.\<close>

definition plugin_source :: "WasmEdgePlugin \<Rightarrow> string \<times> u32" where
  "plugin_source p = (wp_path p, wp_schema_version p)"

lemma Initialize_source:
  "WasmEdgePlugin_Initialize env p w = (ok, p', w') \<Longrightarrow> plugin_source p' = plugin_source p"
  by (auto simp: WasmEdgePlugin_Initialize_def Initialize_module_def Initialize_abort_def plugin_source_def Let_def
      split: if_splits prod.splits option.splits)

interpretation wasmedge_source: plugin_origin "WasmEdgePlugin_ops env" WasmEdgePluginFactory_Create
    plugin_owns world_live world_good plugin_valid wp_initialized plugin_source for env
proof (unfold_locales, goal_cases)
  case (1 path v x p x')
  then show ?case by (auto simp: WasmEdgePluginFactory_Create_def WasmEdgePlugin_new_def plugin_source_def)
next
  case (2 p x ok p' x')
  then show ?case using Initialize_source by (simp add: WasmEdgePlugin_ops_def)
qed

subsection \<open>A runtime that accepts every call\<close>

definition accepting_env :: "guest \<Rightarrow> wasm_env" where
  "accepting_env g =
     \<lparr>we_VMCreate = (\<lambda>_. True), we_ModuleInstanceCreate = (\<lambda>_. True), we_VMLoadWasmFromFile = (\<lambda>_ _ _. True),
      we_VMValidate = (\<lambda>_ _. True), we_VMRegisterModuleFromImport = (\<lambda>_ _ _. True), we_VMInstantiate = (\<lambda>_ _. True),
      we_VMGetActiveModule = (\<lambda>_ _. True), we_FindMemory = (\<lambda>_ _. True), we_FrameMemory = (\<lambda>_ _. True),
      we_SetData = (\<lambda>_ _ _ _ _. True), we_GetData = (\<lambda>_ _ _ _. Some (\<lambda>_. 0)), we_VMExecute = (\<lambda>_ _ _ _. g),
      we_CityHash64 = (\<lambda>_. 0)\<rparr>"

definition empty_world :: wasm_world where
  "empty_world = \<lparr>ww_trace = [], ww_ctx = \<lparr>hc_storage = nullptr, hc_object_id = 0\<rparr>\<rparr>"

lemma world_good_empty: "world_good empty_world"
  by (simp add: empty_world_def world_good_def world_live_def)

lemma Initialize_owns:
  assumes "WasmEdgePlugin_Initialize env p w = (ok, p', w')"
    and "world_good w" and "plugin_valid p" and "\<not> wp_initialized p"
  shows "no_misuse (ww_trace w') \<and> (ok \<longleftrightarrow> wp_initialized p') \<and>
     (if ok then \<exists>v m. v \<noteq> m \<and> plugin_owns p' = {v, m} \<and> {v, m} \<inter> world_live w = {} \<and> world_live w' = world_live w \<union> {v, m}
      else plugin_owns p' = {} \<and> world_live w' = world_live w)"
proof -
  have post: "init_post (world_live w) (ok, p', w')"
    using init_post_Initialize [OF assms(2-4), of env] assms(1) by simp
  then have valid: "plugin_valid p'" by (simp add: init_post_def)
  show ?thesis
    using valid
  proof (cases rule: plugin_valid_cases)
    case (1 v m mem)
    then have "plugin_owns p' = {v, m}" by (simp add: plugin_owns_def insert_commute)
    then show ?thesis using post 1 by (auto simp: init_post_def world_good_def)
  qed (use post in \<open>auto simp: init_post_def world_good_def\<close>)
qed

lemma Clone_then_Shutdown:
  assumes "WasmEdgePlugin_Clone env p w = (Some q, w1)" and "WasmEdgePlugin_Shutdown q w1 = (q', w2)" and "world_good w"
  shows "wp_initialized q \<and> plugin_owns q \<inter> world_live w = {} \<and> \<not> wp_initialized q' \<and>
     world_live w2 = world_live w \<and> no_misuse (ww_trace w2)"
proof -
  have q: "world_good w1" "plugin_valid q" "wp_initialized q" "plugin_owns q \<inter> world_live w = {}"
    "world_live w1 = world_live w \<union> plugin_owns q"
    using Clone_world [OF assms(1,3)] by simp_all
  have "WasmEdgePlugin_ShutdownImpl q w1 = (q', w2)" using assms(2) by (simp add: WasmEdgePlugin_Shutdown_def)
  from ShutdownImpl_world [OF this q(1,2)] q show ?thesis by (auto simp: world_good_def)
qed

section \<open>Properties\<close>

text \<open>C23: Plugin initialisation is all or nothing. Whatever step of \<open>Initialize\<close> fails, the plugin owns
  nothing afterwards and the live handles are those from before; when it succeeds the plugin owns a
  new virtual machine and a new host module and nothing else was left over. No deleted handle is
  used on any path.\<close>

theorem plugin_initialize_all_or_nothing:
  assumes "WasmEdgePlugin_Initialize env p w = (ok, p', w')"
    and "world_good w" and "plugin_valid p" and "\<not> wp_initialized p"
  shows "no_misuse (ww_trace w') \<and> (ok \<longleftrightarrow> wp_initialized p') \<and>
      (if ok then \<exists>v m. v \<noteq> m \<and> plugin_owns p' = {v, m} \<and> {v, m} \<inter> world_live w = {} \<and> world_live w' = world_live w \<union> {v, m}
       else plugin_owns p' = {} \<and> world_live w' = world_live w)"
  using assms by (rule Initialize_owns)

theorem plugin_initialize_all_or_nothing_witness:
  "let (ok, p', w') = WasmEdgePlugin_Initialize (accepting_env GTrap) (WasmEdgePlugin_new ''room.wasm'' 1) empty_world
   in no_misuse (ww_trace w') \<and> (ok \<longleftrightarrow> wp_initialized p') \<and>
      (if ok then \<exists>v m. v \<noteq> m \<and> plugin_owns p' = {v, m} \<and> {v, m} \<inter> world_live empty_world = {} \<and>
                        world_live w' = world_live empty_world \<union> {v, m}
       else plugin_owns p' = {} \<and> world_live w' = world_live empty_world)"
proof -
  obtain ok p' w' where init: "WasmEdgePlugin_Initialize (accepting_env GTrap) (WasmEdgePlugin_new ''room.wasm'' 1) empty_world
      = (ok, p', w')" by (metis prod_cases3)
  have "plugin_valid (WasmEdgePlugin_new ''room.wasm'' 1)" "\<not> wp_initialized (WasmEdgePlugin_new ''room.wasm'' 1)"
    by (simp_all add: WasmEdgePlugin_new_def plugin_valid_def plugin_owns_def)
  from plugin_initialize_all_or_nothing [OF init world_good_empty this] show ?thesis unfolding init Let_def prod.case .
qed

end
