(* ===== verification/Wasmedge_Execution.thy ===== *)
theory Wasmedge_Execution
  imports Wasmedge_Resources
begin

section \<open>What an execution can do\<close>

text \<open>
  The effect of \<open>WasmEdgePlugin::Execute\<close> on the component storage and on the output buffer: the
  guest changes the storage through \<open>set_component\<close> only, one whole component at a time, the object
  id it sees is that of the view, and an accepted output never exceeds the output area.
\<close>

subsection \<open>The host context during an execution\<close>

lemma HostGetComponent_ctx: "HostGetComponent env vm i t ptr cap cs w = (r, w') \<Longrightarrow> ww_ctx w' = ww_ctx w"
  by (auto simp: HostGetComponent_def Read_callback Let_def split: if_splits option.splits)

lemma HostSetComponent_ctx: "HostSetComponent env vm i t ptr len cs w = (r, cs', w') \<Longrightarrow> ww_ctx w' = ww_ctx w"
  by (auto simp: HostSetComponent_def Let_def split: if_splits option.splits)

text \<open>One call of \<open>set_component\<close> writes the named component of the named object or nothing.\<close>

lemma HostSetComponent_write:
  assumes "HostSetComponent env vm i t ptr len cs w = (r, cs', w')"
  shows "(r = 0 \<and> cs' = cs) \<or> (r = 1 \<and> (\<exists>d. length d = unat len \<and> cs' = ComponentStorage_Write i t d cs))"
proof (cases "r = 0")
  case True
  then show ?thesis
    using assms by (auto simp: HostSetComponent_def Let_def split: if_splits option.splits)
next
  case False
  then have "r = 1 \<and> (\<exists>d. length d = unat len \<and> cs' = ComponentStorage_Write i t d cs)"
    using assms
    by (auto simp: HostSetComponent_def Let_def word_gt_0 unat_eq_0 split: if_splits option.splits
        intro: exI [of _ "map m [0 ..< unat len]" for m])
  then show ?thesis ..
qed

subsection \<open>The storage effect of a guest\<close>

text \<open>A list of component writes, the first one first.\<close>

definition apply_writes :: "(u64 \<times> ComponentType \<times> ComponentData) list \<Rightarrow> ComponentStorage \<Rightarrow> ComponentStorage" where
  "apply_writes ws cs = fold (\<lambda>(i, t, d). ComponentStorage_Write i t d) ws cs"

lemma apply_writes_simps [simp]:
  "apply_writes [] cs = cs"
  "apply_writes ((i, t, d) # ws) cs = apply_writes ws (ComponentStorage_Write i t d cs)"
  by (simp_all add: apply_writes_def)

lemma apply_writes_append [simp]: "apply_writes (vs @ ws) cs = apply_writes ws (apply_writes vs cs)"
  by (simp add: apply_writes_def)

lemma apply_writes_same_but:
  "(\<And>w. w \<in> set ws \<Longrightarrow> fst w = i) \<Longrightarrow> cs.same_but i cs (apply_writes ws cs)"
proof (induction ws arbitrary: cs)
  case (Cons w ws)
  obtain t d where w: "w = (i, t, d)" using Cons.prems [of w] by (cases w) auto
  have "cs.same_but i (ComponentStorage_Write i t d cs) (apply_writes ws (ComponentStorage_Write i t d cs))"
    using Cons.IH Cons.prems by simp
  then show ?case using w cs.same_but_trans [OF cs.write_same_but] by simp
qed (simp add: cs.same_but_refl)

text \<open>
  \<open>writes_in S i g\<close>: every \<open>set_component\<close> call of the guest \<open>g\<close>, run for object \<open>i\<close>, names an object
  of \<open>S\<close>, whatever the host functions return.
\<close>

primrec writes_in :: "u64 set \<Rightarrow> u64 \<Rightarrow> guest \<Rightarrow> bool" where
  "writes_in S i (GReturn r) \<longleftrightarrow> True"
| "writes_in S i GTrap \<longleftrightarrow> True"
| "writes_in S i (GGetCurrentObjectId k) \<longleftrightarrow> writes_in S i (k i)"
| "writes_in S i (GGetComponent i' t ptr cap k) \<longleftrightarrow> (\<forall>r. writes_in S i (k r))"
| "writes_in S i (GSetComponent i' t ptr len k) \<longleftrightarrow> i' \<in> S \<and> (\<forall>r. writes_in S i (k r))"

lemma writes_in_UNIV: "writes_in UNIV i g"
  by (induction g) (auto intro: rangeI)

lemma run_guest_writes:
  "run_guest env vm g cs w = (r, cs', w') \<Longrightarrow> writes_in S (hc_object_id (ww_ctx w)) g \<Longrightarrow>
     \<exists>ws. cs' = apply_writes ws cs \<and> fst ` set ws \<subseteq> S"
proof (induction g arbitrary: cs w)
  case (GReturn x)
  then show ?case by (auto intro: exI [of _ "[]"])
next
  case GTrap
  then show ?case by (auto intro: exI [of _ "[]"])
next
  case (GGetCurrentObjectId k)
  then show ?case
    using GGetCurrentObjectId.IH [OF rangeI] by (simp add: HostGetCurrentObjectId_def)
next
  case (GGetComponent i t ptr cap k)
  obtain x w1 where host: "HostGetComponent env vm i t ptr cap cs w = (x, w1)" by fastforce
  then show ?case
    using GGetComponent.IH [OF rangeI, of x] GGetComponent.prems HostGetComponent_ctx [OF host] by auto
next
  case (GSetComponent i t ptr len k)
  obtain x cs1 w1 where host: "HostSetComponent env vm i t ptr len cs w = (x, cs1, w1)"
    by (cases "HostSetComponent env vm i t ptr len cs w") auto
  then obtain ws where ws: "cs' = apply_writes ws cs1" "fst ` set ws \<subseteq> S"
    using GSetComponent.IH [OF rangeI, of x cs1 w1] GSetComponent.prems HostSetComponent_ctx [OF host]
    by fastforce
  show ?case
  proof (cases "cs1 = cs")
    case True
    then show ?thesis using ws by blast
  next
    case False
    then obtain d where "cs1 = ComponentStorage_Write i t d cs"
      using HostSetComponent_write [OF host] by auto
    then show ?thesis
      using ws GSetComponent.prems(2) by (intro exI [of _ "(i, t, d) # ws"]) simp
  qed
qed

lemma Execute_call_writes:
  assumes "Execute_call env vm mem action input out cs w = (ok, out', cs', w')"
    and "\<And>tr ps. writes_in S (hc_object_id (ww_ctx w)) (we_VMExecute env tr vm ''execute'' ps)"
  shows "\<exists>ws. cs' = apply_writes ws cs \<and> fst ` set ws \<subseteq> S"
proof -
  let ?params = "[ValI64 (we_CityHash64 env action), ValI32 input_offset, ValI32 (size_u32 input),
                  ValI32 output_offset, ValI32 output_cap]"
  define w2 where "w2 = emit (VMExecute vm ''execute'' ?params) (emit (StringCreateByCString ''execute'') w)"
  obtain ret cs1 w3 where
    run: "run_guest env vm (we_VMExecute env (ww_trace w2) vm ''execute'' ?params) cs w2 = (ret, cs1, w3)"
    by (cases "run_guest env vm (we_VMExecute env (ww_trace w2) vm ''execute'' ?params) cs w2") auto
  have "cs' = cs1"
    using assms(1) unfolding Execute_call_def Let_def w2_def [symmetric] run prod.case
    by (auto split: option.splits prod.splits)
  moreover have "ww_ctx w2 = ww_ctx w" by (simp add: w2_def)
  ultimately show ?thesis using run_guest_writes [OF run] assms(2) by simp
qed

lemma pass_input_ctx: "pass_input env mem input w = (ok, w') \<Longrightarrow> ww_ctx w' = ww_ctx w"
  by (auto simp: pass_input_def Let_def)

lemma Execute_writes:
  assumes "WasmEdgePlugin_Execute env obj action input out cs p w = (ok, obj', out', cs', p', w')"
    and "plugin_valid p"
    and "\<And>tr vm ps. writes_in S (oh_object_id (go_header obj)) (we_VMExecute env tr vm ''execute'' ps)"
  shows "\<exists>ws. cs' = apply_writes ws cs \<and> fst ` set ws \<subseteq> S"
  using assms(2)
proof (cases rule: plugin_valid_cases)
  case 2
  then show ?thesis using assms(1) by (auto simp: Execute_not_ready intro: exI [of _ "[]"])
next
  case (1 vm m mem)
  note exec = assms(1) [unfolded Execute_ready [OF 1(1,2)]]
  obtain sent w2 where pass: "pass_input env (the mem) input (enter_object obj w) = (sent, w2)" by fastforce
  have "\<exists>ws. c3 = apply_writes ws cs \<and> fst ` set ws \<subseteq> S"
    if "Execute_call env vm mem action input out cs w3 = (ok3, o3, c3, w4)"
      and "ww_ctx w3 = ww_ctx (enter_object obj w)" for w3 ok3 o3 c3 w4
    using Execute_call_writes [OF that(1), of S] assms(3) that(2) by simp
  note call = this
  have none: "\<exists>ws. cs = apply_writes ws cs \<and> fst ` set ws \<subseteq> S"
    by (rule exI [of _ "[]"]) simp
  show ?thesis
  proof (cases "mem = None \<or> input = []")
    case True
    then show ?thesis using exec call [OF _ refl] by (auto split: prod.splits)
  next
    case False
    then show ?thesis
      using exec call [OF _ pass_input_ctx [OF pass]] pass none by (auto split: prod.splits if_splits)
  qed
qed

subsection \<open>The output buffer\<close>

lemma Execute_result_bound:
  assumes "Execute_result env vm mem r out w = (True, out', w')"
  shows "length out' \<le> 4096 \<and> 0 \<le> sint r \<and> (out' \<noteq> [] \<longrightarrow> length out' = unat r)"
proof -
  have cap: "sint output_cap = 4096" by (simp add: output_cap_def)
  have "unat r \<le> 4096" if "0 < sint r" and "sint r \<le> 4096"
    using that sint_nonneg_u32 [of r] by linarith
  then show ?thesis
    using assms by (auto simp: Execute_result_def Let_def cap split: if_splits option.splits)
qed

lemma apply_writes_other:
  "j \<notin> fst ` set ws \<Longrightarrow> component (apply_writes ws cs) j t = component cs j t"
  by (induction ws arbitrary: cs) (auto simp: component_Write)

lemma Execute_call_bound:
  "Execute_call env vm mem action input out cs w = (True, out', cs', w') \<Longrightarrow> length out' \<le> 4096"
  by (auto simp: Execute_call_def Let_def dest: Execute_result_bound split: prod.splits option.splits)

lemma Execute_bound:
  assumes "WasmEdgePlugin_Execute env obj action input out cs p w = (True, obj', out', cs', p', w')"
  shows "length out' \<le> 4096"
  using assms
  by (auto simp: WasmEdgePlugin_Execute_def Let_def dest: Execute_call_bound
      split: prod.splits bool.splits option.splits if_splits)

lemma Execute_trap:
  assumes "wp_initialized p" and "wp_state p = Some s" and "ws_vm s = Some vm" and "go_storage obj = the_storage"
    and "\<And>tr ps. we_VMExecute env tr vm ''execute'' ps = GSetComponent i t 0 0 (\<lambda>_. GTrap)"
  shows "\<exists>w'. WasmEdgePlugin_Execute env obj action [] out cs p w =
     (False, obj, out, ComponentStorage_Write i t [] cs, p, w')"
  using assms by (simp add: WasmEdgePlugin_Execute_def Execute_call_def Let_def HostSetComponent_def)

subsection \<open>What \<open>get_component\<close> copies\<close>


subsection \<open>A plugin that is ready\<close>

definition ready_plugin :: WasmEdgePlugin where
  "ready_plugin =
     \<lparr>wp_state = Some \<lparr>ws_vm = Some 0, ws_memory = Some 0, ws_host_module = Some 1\<rparr>,
      wp_path = ''room.wasm'', wp_schema_version = 1, wp_initialized = True\<rparr>"

lemma ready_plugin_valid: "plugin_valid ready_plugin"
  by (simp add: plugin_valid_def ready_plugin_def)

section \<open>Properties\<close>

text \<open>C21: Plugin execution. If every \<open>set_component\<close> call the guest can make when it runs for this object
  names an object of \<open>S\<close>, \<open>Execute\<close> leaves the components of every object outside \<open>S\<close> as they were,
  whether it succeeds or fails; it changes neither the view nor the plugin, and the output of a
  successful call never exceeds the output area of 4096 bytes, whatever the guest returns.\<close>

theorem execute_confined:
  assumes "WasmEdgePlugin_Execute env obj action input out cs p w = (ok, obj', out', cs', p', w')" and "plugin_valid p"
    and "\<And>tr vm ps. writes_in S (oh_object_id (go_header obj)) (we_VMExecute env tr vm ''execute'' ps)" and "j \<notin> S"
  shows "component cs' j t = component cs j t \<and> obj' = obj \<and> p' = p \<and> (ok \<longrightarrow> length out' \<le> 4096)"
proof -
  obtain ws where ws: "cs' = apply_writes ws cs" "fst ` set ws \<subseteq> S"
    using Execute_writes [OF assms(1-3)] by blast
  then have "j \<notin> fst ` set ws" using assms(4) by blast
  then show ?thesis using ws(1) apply_writes_other Execute_keeps_plugin [OF assms(1)] Execute_bound assms(1) by auto
qed

theorem execute_confined_witness:
  "let (ok, obj', out', cs', p', w') = WasmEdgePlugin_Execute (accepting_env (GSetComponent 5 7 0 0 (\<lambda>_. GReturn 0)))
        toggle_object ''tick'' [] [] (toggle_storage 1) ready_plugin empty_world
   in component cs' 6 7 = component (toggle_storage 1) 6 7 \<and> obj' = toggle_object \<and> p' = ready_plugin \<and>
      (ok \<longrightarrow> length out' \<le> 4096)"
proof -
  obtain ok obj' out' cs' p' w' where run: "WasmEdgePlugin_Execute (accepting_env (GSetComponent 5 7 0 0 (\<lambda>_. GReturn 0)))
        toggle_object ''tick'' [] [] (toggle_storage 1) ready_plugin empty_world = (ok, obj', out', cs', p', w')"
    by (metis prod_cases6)
  have "component cs' 6 7 = component (toggle_storage 1) 6 7 \<and> obj' = toggle_object \<and> p' = ready_plugin \<and>
      (ok \<longrightarrow> length out' \<le> 4096)"
    by (rule execute_confined [OF run ready_plugin_valid, of "{5}"]) (simp_all add: accepting_env_def)
  then show ?thesis unfolding run Let_def prod.case .
qed



end
