(* ===== verification/Room_Confinement.thy ===== *)
theory Room_Confinement
  imports Wasmedge_Execution Room_Actor
begin

section \<open>A running room actor\<close>

text \<open>
  The composition of the parts: a \<open>RoomActor\<close> built from the module manager over WasmEdge, its mailbox
  and strand interleaved with senders and ticks, the object registry, the component storage and the
  output deltas. The invariant below is carried through every turn of the strand.
\<close>

definition room_ok :: "u64 \<Rightarrow> nat set \<Rightarrow> (WasmEdgePlugin, wasm_world) room_state \<Rightarrow> bool" where
  "room_ok i handles st \<longleftrightarrow>
     ao_object_id (fst st) = i \<and> ObjectRegistry_wf (ow_registry (snd st)) \<and>
     world_good (ow_backend (snd st)) \<and> world_live (ow_backend (snd st)) = handles \<and>
     (\<forall>q. um_find (ao_plugins (fst st)) ''room'' = Some (Some q) \<longrightarrow> plugin_valid q \<and> plugin_owns q \<subseteq> handles)"

text \<open>What one turn may change: the components of the actor's own object and the runtime's trace.\<close>

definition room_keeps ::
  "u64 \<Rightarrow> (WasmEdgePlugin, wasm_world) room_state \<Rightarrow> (WasmEdgePlugin, wasm_world) room_state \<Rightarrow> bool" where
  "room_keeps i st st' \<longleftrightarrow>
     ow_registry (snd st') = ow_registry (snd st) \<and> cs.same_but i (ow_storage (snd st)) (ow_storage (snd st')) \<and>
     um_find (ao_plugins (fst st')) ''room'' = um_find (ao_plugins (fst st)) ''room''"

lemma room_keeps_refl: "room_keeps i st st"
  by (simp add: room_keeps_def cs.same_but_refl)

lemma room_keeps_trans: "room_keeps i st st1 \<Longrightarrow> room_keeps i st1 st2 \<Longrightarrow> room_keeps i st st2"
  by (auto simp: room_keeps_def intro: cs.same_but_trans)

text \<open>The guest, run for object \<open>i\<close>, only sets components of \<open>i\<close>.\<close>

definition own_writes :: "wasm_env \<Rightarrow> u64 \<Rightarrow> bool" where
  "own_writes env i \<longleftrightarrow> (\<forall>tr vm ps. writes_in {i} i (we_VMExecute env tr vm ''execute'' ps))"

lemma room_invoke:
  assumes ok: "room_ok i handles (ao, w)" and own: "own_writes env i"
  shows "room_ok i handles (ActorWithObject_InvokeModule (WasmEdgePlugin_ops env) ''room'' action input ao w) \<and>
     room_keeps i (ao, w) (ActorWithObject_InvokeModule (WasmEdgePlugin_ops env) ''room'' action input ao w)"
proof (cases "um_find (ao_plugins ao) ''room''")
  case None
  then show ?thesis using ok by (simp add: InvokeModule_no_plugin room_keeps_refl)
next
  case (Some p)
  show ?thesis
  proof (cases "p = None \<or> view_of (ow_registry w) (ao_object_id ao) = None")
    case True
    then have "ActorWithObject_InvokeModule (WasmEdgePlugin_ops env) ''room'' action input ao w = (ao, w)"
      by (elim disjE, use Some in \<open>simp add: ActorWithObject_InvokeModule_def\<close>) (rule InvokeModule_no_object)
    then show ?thesis using ok by (simp add: room_keeps_refl)
  next
    case False
    then obtain q v where q: "um_find (ao_plugins ao) ''room'' = Some (Some q)"
      and v: "view_of (ow_registry w) (ao_object_id ao) = Some v" using Some by auto
    have facts: "ao_object_id ao = i" "ObjectRegistry_wf (ow_registry w)" "world_good (ow_backend w)"
      "world_live (ow_backend w) = handles" "plugin_valid q" "plugin_owns q \<subseteq> handles"
      using ok q by (simp_all add: room_ok_def)
    have id: "oh_object_id (go_header v) = i" using ObjectRegistry_wf_view [OF facts(2) v] facts(1) by simp
    obtain b v' out cs1 q' x where run:
      "WasmEdgePlugin_Execute env v action input [] (ow_storage w) q (ow_backend w) = (b, v', out, cs1, q', x)"
      by (metis prod_cases6)
    note kept = Execute_keeps_plugin [OF run]
    have steady: "steady (ow_backend w) x" by (rule Execute_steady [OF run]) (use facts in simp_all)
    obtain ws where ws: "cs1 = apply_writes ws (ow_storage w)" "fst ` set ws \<subseteq> {i}"
      using Execute_writes [OF run facts(5), of "{i}"] own id by (auto simp: own_writes_def)
    have "cs.same_but i (ow_storage w) cs1"
      unfolding cs.same_but_def ws(1) using ws(2) apply_writes_other by fastforce
    then have same: "cs.same_but i (ow_storage w) (if b then snd (GameObject_ApplyOutputDelta v' out cs1) else cs1)"
      using GameObject_Apply_same_but [of v cs1 out] kept id by (auto intro: cs.same_but_trans)
    have eq: "ActorWithObject_InvokeModule (WasmEdgePlugin_ops env) ''room'' action input ao w =
        (ao\<lparr>ao_plugins := um_assign ''room'' (Some q') (ao_plugins ao)\<rparr>,
         w\<lparr>ow_storage := (if b then snd (GameObject_ApplyOutputDelta v' out cs1) else cs1), ow_backend := x\<rparr>)"
      by (rule InvokeModule_step [OF q v]) (simp add: WasmEdgePlugin_ops_def run)
    show ?thesis
      unfolding eq using facts kept same steady q by (simp add: room_ok_def room_keeps_def steady_def)
  qed
qed

lemma room_event:
  assumes "room_ok i handles st" and "own_writes env i"
  shows "room_ok i handles (apply_event (RoomActor_methods (WasmEdgePlugin_ops env)) e st) \<and>
     room_keeps i st (apply_event (RoomActor_methods (WasmEdgePlugin_ops env)) e st)"
  using room_invoke [OF _ assms(2), of handles "fst st" "snd st"] assms(1)
  by (cases e) (simp_all add: apply_event_def handle_one_def RoomActor_methods_def RoomActor_Tick_def
      RoomActor_HandleMessage_def Let_def)

lemma room_events:
  assumes "own_writes env i"
  shows "room_ok i handles st \<Longrightarrow>
     room_ok i handles (fold (apply_event (RoomActor_methods (WasmEdgePlugin_ops env))) es st) \<and>
     room_keeps i st (fold (apply_event (RoomActor_methods (WasmEdgePlugin_ops env))) es st)"
proof (induction es arbitrary: st)
  case (Cons e es)
  show ?case
    using room_event [OF Cons.prems assms, of e] Cons.IH room_keeps_trans by fastforce
qed (simp add: room_keeps_refl)

text \<open>A room actor that was just built starts in the invariant.\<close>

lemma room_start:
  assumes "world_good w"
    and "mm_run (WasmEdgePlugin_ops env) xs
        (ModuleManager_Initialize WasmEdgePluginFactory_Create ModuleManager_new, plugin_heap_new w) = Inr (mm, h)"
    and "RoomActor_new (WasmEdgePlugin_ops env) k i (mm, h) = (ra, mm', h')"
    and "ObjectRegistry_wf reg"
  shows "room_ok i (world_live (ph_backend h'))
     (ra_object ra, \<lparr>ow_registry = reg, ow_storage = cs, ow_backend = ph_backend h'\<rparr>)"
proof -
  have ok: "wasmedge.manager_ok (world_live w) (mm, h)"
    using wasmedge.manager_ok_run [OF wasmedge.manager_ok_start [OF assms(1) refl], of env xs] assms(2) by auto
  have new: "ActorWithObject_new (WasmEdgePlugin_ops env) i [''room''] (mm, h) = (ra_object ra, (mm', h'))"
    using assms(3) by (auto simp: RoomActor_new_def split: prod.splits)
  note facts = wasmedge.new_actor_one_module [OF ok new]
  have good: "world_good (ph_backend h')" using facts wasmedge.manager_ok_good by blast
  have "wasmedge.manager_with (world_live w \<union> wasmedge.plugins_owns (ao_plugins (ra_object ra))) {} {#} (mm, h')"
    using facts by (simp add: wasmedge.manager_ok_with)
  from wasmedge.with_good [OF this]
  have "world_live w \<union> wasmedge.plugins_owns (ao_plugins (ra_object ra)) \<subseteq> world_live (ph_backend h')" by blast
  then have "plugin_owns q \<subseteq> world_live (ph_backend h')" if "um_find (ao_plugins (ra_object ra)) ''room'' = Some (Some q)" for q
    using that by (auto simp: wasmedge.plugins_owns_def)
  then show ?thesis using facts good assms(4) by (simp add: room_ok_def)
qed

subsection \<open>A room with one plugin\<close>

text \<open>Its guest sets component 7 of object 5 on every call.\<close>

definition room_env :: wasm_env where
  "room_env = accepting_env (GSetComponent 5 7 0 0 (\<lambda>_. GReturn 0))"

definition room_config :: ModuleConfig where
  "room_config = \<lparr>mc_name = ''room'', mc_path = ''room.wasm'', mc_schema_version = 1\<rparr>"

lemma room_env_own: "own_writes room_env 5"
  by (simp add: own_writes_def room_env_def accepting_env_def)

lemma room_runs:
  "\<exists>mm h. mm_run (WasmEdgePlugin_ops room_env) [MLoad room_config]
     (ModuleManager_Initialize WasmEdgePluginFactory_Create ModuleManager_new, plugin_heap_new empty_world) = Inr (mm, h)"
  using wasmedge.manager_ok_run [OF wasmedge.manager_ok_start [OF world_good_empty refl], of room_env "[MLoad room_config]"] by auto

text \<open>One room actor alone.\<close>

lemma room_actor_confined:
  assumes "world_good w"
    and "mm_run (WasmEdgePlugin_ops env) xs
        (ModuleManager_Initialize WasmEdgePluginFactory_Create ModuleManager_new, plugin_heap_new w) = Inr (mm, h)"
    and "RoomActor_new (WasmEdgePlugin_ops env) k i (mm, h) = (ra, mm', h')"
    and "ObjectRegistry_wf reg" and "own_writes env i"
    and "actor_reachable (RoomActor_methods (WasmEdgePlugin_ops env)) k
        (ra_object ra, \<lparr>ow_registry = reg, ow_storage = cs, ow_backend = ph_backend h'\<rparr>) r"
  shows "(\<forall>j t. j \<noteq> i \<longrightarrow> component (ow_storage (snd (ar_state r))) j t = component cs j t) \<and>
      ow_registry (snd (ar_state r)) = reg \<and>
      no_misuse (ww_trace (ow_backend (snd (ar_state r)))) \<and>
      world_live (ow_backend (snd (ar_state r))) = world_live (ph_backend h') \<and>
      ar_state r = fold (apply_event (RoomActor_methods (WasmEdgePlugin_ops env))) (ar_log r)
        (ra_object ra, \<lparr>ow_registry = reg, ow_storage = cs, ow_backend = ph_backend h'\<rparr>)"
proof -
  have state: "ar_state r = fold (apply_event (RoomActor_methods (WasmEdgePlugin_ops env))) (ar_log r)
      (ra_object ra, \<lparr>ow_registry = reg, ow_storage = cs, ow_backend = ph_backend h'\<rparr>)"
    using actor_inv_reachable [OF assms(6)] by (simp add: actor_inv_def)
  show ?thesis
    using room_events [OF assms(5) room_start [OF assms(1-4), of cs], of "ar_log r"] unfolding state [symmetric]
    by (simp add: room_ok_def room_keeps_def cs.same_but_def world_good_def state [symmetric])
qed

end
