(* ===== verification/Actor_Runtime.thy ===== *)
theory Actor_Runtime
  imports Actor_Mailbox Unordered_Map
begin

section \<open>The actor runtime\<close>

text \<open>
  \<open>actor/actor_runtime.h\<close> and \<open>actor/actor_runtime.cpp\<close>: the table of live actors. Actors are shared
  objects, so the table holds addresses and the actors themselves are in a heap; a killed actor
  leaves the table, not the heap, and finishes what is posted on its strand.
\<close>

type_synonym actor_heap = "(nat, Actor) umap"

record ActorRuntime =
  art_io :: "nat option"
  art_actors :: "(u64, nat) umap"

definition ActorRuntime_new :: ActorRuntime where
  "ActorRuntime_new = \<lparr>art_io = None, art_actors = um_empty\<rparr>"

definition ActorRuntime_Initialize :: "nat \<Rightarrow> ActorRuntime \<Rightarrow> ActorRuntime" where
  "ActorRuntime_Initialize io rt = rt\<lparr>art_io := Some io\<rparr>"

text \<open>A method call through a pointer to an actor.\<close>

definition on_actor :: "(Actor \<Rightarrow> Actor) \<Rightarrow> nat \<Rightarrow> actor_heap \<Rightarrow> actor_heap" where
  "on_actor f a heap = (case um_find heap a of None \<Rightarrow> heap | Some x \<Rightarrow> um_assign a (f x) heap)"

definition ActorRuntime_Spawn :: "nat \<Rightarrow> actor_heap \<Rightarrow> ActorRuntime \<Rightarrow> ActorRuntime" where
  "ActorRuntime_Spawn a heap rt =
     (case um_find heap a of
        None \<Rightarrow> rt
      | Some actor \<Rightarrow> rt\<lparr>art_actors := um_assign (ac_actor_id actor) a (art_actors rt)\<rparr>)"

definition ActorRuntime_Kill :: "u64 \<Rightarrow> ActorRuntime \<Rightarrow> ActorRuntime" where
  "ActorRuntime_Kill actor_id rt = rt\<lparr>art_actors := um_erase actor_id (art_actors rt)\<rparr>"

definition ActorRuntime_Tick :: "u64 \<Rightarrow> ActorRuntime \<Rightarrow> actor_heap \<Rightarrow> actor_heap" where
  "ActorRuntime_Tick interval_ms rt heap =
     (let snapshot = map snd (um_entries (art_actors rt))
      in fold (on_actor (Actor_ScheduleTick interval_ms)) snapshot heap)"

definition ActorRuntime_SendMessage ::
  "u64 \<Rightarrow> u64 \<Rightarrow> bytes \<Rightarrow> ActorRuntime \<Rightarrow> actor_heap \<Rightarrow> actor_heap" where
  "ActorRuntime_SendMessage from_id to_id payload rt heap =
     (case um_find (art_actors rt) to_id of
        None \<Rightarrow> heap
      | Some a \<Rightarrow> on_actor (Actor_EnqueueMessage from_id payload) a heap)"

subsection \<open>Invariant: the table files an actor under its own id\<close>

definition runtime_ok :: "ActorRuntime \<Rightarrow> actor_heap \<Rightarrow> bool" where
  "runtime_ok rt heap \<longleftrightarrow> um_wf (art_actors rt) \<and> um_wf heap \<and>
     um.every (\<lambda>i a. \<exists>x. um_find heap a = Some x \<and> ac_actor_id x = i) (art_actors rt)"

lemma Actor_ops_id [simp]:
  "ac_actor_id (Actor_EnqueueMessage s p x) = ac_actor_id x"
  "ac_actor_id (Actor_ScheduleTick i x) = ac_actor_id x"
  by (simp_all add: Actor_EnqueueMessage_def Actor_ScheduleTick_def Let_def)

lemma find_on_actor: "um_find (on_actor f a heap) b = (if b = a then map_option f (um_find heap b) else um_find heap b)"
  by (auto simp: on_actor_def split: option.split)

lemma wf_on_actor: "um_wf heap \<Longrightarrow> um_wf (on_actor f a heap)"
  by (simp add: on_actor_def split: option.split)

lemma runtime_ok_new: "runtime_ok ActorRuntime_new um_empty"
  by (simp add: runtime_ok_def ActorRuntime_new_def um.every_empty)

lemma runtime_ok_Spawn: "runtime_ok rt heap \<Longrightarrow> runtime_ok (ActorRuntime_Spawn a heap rt) heap"
  by (auto simp: runtime_ok_def ActorRuntime_Spawn_def intro!: um.every_assign split: option.split)

lemma runtime_ok_Kill: "runtime_ok rt heap \<Longrightarrow> runtime_ok (ActorRuntime_Kill i rt) heap"
  by (auto simp: runtime_ok_def ActorRuntime_Kill_def intro: um.every_erase)

lemma runtime_ok_on_actor:
  assumes "runtime_ok rt heap" and "\<And>x. ac_actor_id (f x) = ac_actor_id x"
  shows "runtime_ok rt (on_actor f a heap)"
  using assms by (fastforce simp: runtime_ok_def um.every_def find_on_actor wf_on_actor)

lemma runtime_ok_Send: "runtime_ok rt heap \<Longrightarrow> runtime_ok rt (ActorRuntime_SendMessage s d p rt heap)"
  by (simp add: ActorRuntime_SendMessage_def runtime_ok_on_actor split: option.split)

lemma runtime_ok_find:
  assumes "runtime_ok rt heap" and "um_find (art_actors rt) i = Some a"
  shows "\<exists>x. um_find heap a = Some x \<and> ac_actor_id x = i"
  using assms um.every_find unfolding runtime_ok_def by fastforce

text \<open>Distinct ids are filed at distinct addresses, so the snapshot names every actor once.\<close>

lemma runtime_ok_snapshot:
  assumes "runtime_ok rt heap"
  shows "distinct (map snd (um_entries (art_actors rt)))"
proof -
  have wf: "um_wf (art_actors rt)" using assms by (simp add: runtime_ok_def)
  have inj: "inj_on snd (set (um_entries (art_actors rt)))"
  proof (rule inj_onI)
    fix x y assume x: "x \<in> set (um_entries (art_actors rt))" and y: "y \<in> set (um_entries (art_actors rt))"
      and eq: "snd x = snd y"
    have "um_find (art_actors rt) (fst x) = Some (snd x)" "um_find (art_actors rt) (fst y) = Some (snd y)"
      using x y um.entries_find [OF wf] by (metis prod.collapse)+
    then have "fst x = fst y"
      using runtime_ok_find [OF assms] eq by (metis option.inject)
    then show "x = y" using eq by (simp add: prod_eq_iff)
  qed
  have "distinct (um_entries (art_actors rt))"
    using um.entries_distinct [OF wf] by (simp add: distinct_map)
  then show ?thesis using inj by (simp add: distinct_map)
qed

lemma find_fold_on_actor:
  "distinct as \<Longrightarrow> um_find (fold (on_actor f) as heap) b =
     (if b \<in> set as then map_option f (um_find heap b) else um_find heap b)"
  by (induction as arbitrary: heap) (auto simp: find_on_actor)

lemma snapshot_member:
  assumes "runtime_ok rt heap" and "um_find heap a = Some x"
  shows "a \<in> set (map snd (um_entries (art_actors rt))) \<longleftrightarrow> um_find (art_actors rt) (ac_actor_id x) = Some a"
proof -
  have wf: "um_wf (art_actors rt)" using assms(1) by (simp add: runtime_ok_def)
  have "a \<in> set (map snd (um_entries (art_actors rt))) \<longleftrightarrow> (\<exists>i. um_find (art_actors rt) i = Some a)"
    using um.entries_find [OF wf] by force
  also have "\<dots> \<longleftrightarrow> um_find (art_actors rt) (ac_actor_id x) = Some a"
    using runtime_ok_find [OF assms(1)] assms(2) by (metis option.inject)
  finally show ?thesis .
qed

lemma find_Tick:
  assumes "runtime_ok rt heap"
  shows "um_find (ActorRuntime_Tick i rt heap) a =
     map_option (\<lambda>x. if um_find (art_actors rt) (ac_actor_id x) = Some a then Actor_ScheduleTick i x else x)
       (um_find heap a)"
proof (cases "um_find heap a")
  case None
  then show ?thesis
    using find_fold_on_actor [OF runtime_ok_snapshot [OF assms]] by (simp add: ActorRuntime_Tick_def)
next
  case (Some x)
  then show ?thesis
    using find_fold_on_actor [OF runtime_ok_snapshot [OF assms]] snapshot_member [OF assms Some]
    by (simp add: ActorRuntime_Tick_def)
qed

lemma runtime_ok_fold:
  "runtime_ok rt heap \<Longrightarrow> (\<And>x. ac_actor_id (f x) = ac_actor_id x) \<Longrightarrow> runtime_ok rt (fold (on_actor f) as heap)"
  by (induction as arbitrary: heap) (simp_all add: runtime_ok_on_actor)

lemma runtime_ok_Tick: "runtime_ok rt heap \<Longrightarrow> runtime_ok rt (ActorRuntime_Tick i rt heap)"
  by (simp add: ActorRuntime_Tick_def runtime_ok_fold)

lemma find_Send:
  "um_find (ActorRuntime_SendMessage s d p rt heap) a =
     map_option (\<lambda>x. if um_find (art_actors rt) d = Some a then Actor_EnqueueMessage s p x else x) (um_find heap a)"
  by (cases "um_find heap a")
    (auto simp: ActorRuntime_SendMessage_def find_on_actor split: option.split)

lemma Send_killed: "ActorRuntime_SendMessage s d p (ActorRuntime_Kill d rt) heap = heap"
  by (simp add: ActorRuntime_SendMessage_def ActorRuntime_Kill_def)

subsection \<open>A runtime with one actor\<close>

definition one_actor_heap :: actor_heap where
  "one_actor_heap = um_assign 0 (Actor_new 3) um_empty"

definition one_actor_runtime :: ActorRuntime where
  "one_actor_runtime = ActorRuntime_Spawn 0 one_actor_heap ActorRuntime_new"

lemma one_actor_ok: "runtime_ok one_actor_runtime one_actor_heap"
  unfolding one_actor_runtime_def
  by (rule runtime_ok_Spawn) (simp add: runtime_ok_def ActorRuntime_new_def um.every_empty one_actor_heap_def)

text \<open>One call with nothing in between.\<close>

lemma runtime_delivery:
  assumes "runtime_ok rt heap"
  shows "um_find (ActorRuntime_Tick i rt heap) a =
      map_option (\<lambda>x. if um_find (art_actors rt) (ac_actor_id x) = Some a then Actor_ScheduleTick i x else x)
        (um_find heap a) \<and>
      um_find (ActorRuntime_SendMessage s d p rt heap) a =
      map_option (\<lambda>x. if um_find (art_actors rt) d = Some a then Actor_EnqueueMessage s p x else x) (um_find heap a) \<and>
      ActorRuntime_SendMessage s d p (ActorRuntime_Kill d rt) heap = heap \<and>
      runtime_ok rt (ActorRuntime_Tick i rt heap) \<and> runtime_ok rt (ActorRuntime_SendMessage s d p rt heap)"
  using find_Tick [OF assms] find_Send Send_killed runtime_ok_Tick [OF assms] runtime_ok_Send [OF assms] by blast

end
