(* ===== verification/Actor_System.thy ===== *)
theory Actor_System
  imports Actor_Runtime Threads "HOL-Library.Multiset"
begin

section \<open>The actor system\<close>

text \<open>
  The parts of \<open>actor/\<close> together: the table of \<open>ActorRuntime\<close>, calls of \<open>Spawn\<close>, \<open>Kill\<close>, \<open>Tick\<close> and
  \<open>SendMessage\<close> from any number of threads, and the strands of all actors, run by any number of io
  threads. \<open>Tick\<close> copies the table under the lock and schedules the actors one by one without it;
  \<open>SendMessage\<close> looks the actor up under the lock and enqueues without it, so a \<open>Kill\<close> may come in
  between. The methods of actor \<open>a\<close> are \<open>vt a\<close>; they work on one shared state, and the field
  \<open>ar_state\<close> of a run is that state as of the last turn of its strand.
\<close>

datatype runtime_call = RSpawn nat | RKill u64 | RTick u64 | RSend u64 u64 bytes

text \<open>Where a caller is: at the call, in the loop over the snapshot (scheduled, to do), or holding the pointer.\<close>

datatype runtime_pc =
    R_call runtime_call
  | R_ticking u64 "nat list" "nat list"
  | R_sending u64 u64 bytes nat

text \<open>The history: the returned calls, each with the addresses of the actors it reached.\<close>

record 's Actor_system =
  sy_runtime :: ActorRuntime
  sy_runs :: "(nat, 's actor_run) umap"
  sy_state :: 's
  sy_log :: "(nat \<times> actor_event) list"
  sy_returned :: "(runtime_call \<times> nat list) list"

definition actor_heap_of :: "(nat, 's actor_run) umap \<Rightarrow> actor_heap" where
  "actor_heap_of runs = map (\<lambda>(a, r). (a, ar_actor r)) runs"

definition on_run :: "('s actor_run \<Rightarrow> 's actor_run) \<Rightarrow> nat \<Rightarrow> 's Actor_system \<Rightarrow> 's Actor_system" where
  "on_run f a S =
     (case um_find (sy_runs S) a of None \<Rightarrow> S | Some r \<Rightarrow> S\<lparr>sy_runs := um_assign a (f r) (sy_runs S)\<rparr>)"

definition returns :: "runtime_call \<Rightarrow> nat list \<Rightarrow> 's Actor_system \<Rightarrow> 's Actor_system" where
  "returns x as S = S\<lparr>sy_returned := sy_returned S @ [(x, as)]\<rparr>"

fun runtime_exec :: "runtime_pc \<Rightarrow> 's Actor_system \<Rightarrow> 's Actor_system \<times> runtime_pc option" where
  "runtime_exec (R_call (RSpawn a)) S =
     (returns (RSpawn a) [] (S\<lparr>sy_runtime := ActorRuntime_Spawn a (actor_heap_of (sy_runs S)) (sy_runtime S)\<rparr>), None)"
| "runtime_exec (R_call (RKill i)) S =
     (returns (RKill i) [] (S\<lparr>sy_runtime := ActorRuntime_Kill i (sy_runtime S)\<rparr>), None)"
| "runtime_exec (R_call (RTick i)) S = (S, Some (R_ticking i [] (map snd (um_entries (art_actors (sy_runtime S))))))"
| "runtime_exec (R_ticking i as []) S = (returns (RTick i) as S, None)"
| "runtime_exec (R_ticking i as (b # bs)) S = (on_run (env_schedule i) b S, Some (R_ticking i (as @ [b]) bs))"
| "runtime_exec (R_call (RSend from to p)) S =
     (case um_find (art_actors (sy_runtime S)) to of
        None \<Rightarrow> (returns (RSend from to p) [] S, None)
      | Some a \<Rightarrow> (S, Some (R_sending from to p a)))"
| "runtime_exec (R_sending from to p a) S =
     (returns (RSend from to p) [a] (on_run (env_enqueue from p) a S), None)"

text \<open>A turn of the strand of one actor.\<close>

definition strand_turn :: "(nat \<Rightarrow> 's ActorMethods) \<Rightarrow> nat \<Rightarrow> 's Actor_system \<Rightarrow> 's Actor_system" where
  "strand_turn vt a S =
     (case um_find (sy_runs S) a of
        None \<Rightarrow> S
      | Some r \<Rightarrow>
          (let r' = strand_next (vt a) (r\<lparr>ar_state := sy_state S\<rparr>)
           in S\<lparr>sy_runs := um_assign a r' (sy_runs S), sy_state := ar_state r',
                sy_log := sy_log S @ map (Pair a) (drop (length (ar_log r)) (ar_log r'))\<rparr>))"

inductive system_step ::
  "(nat \<Rightarrow> 's ActorMethods) \<Rightarrow> 's Actor_system \<times> runtime_pc list \<Rightarrow> 's Actor_system \<times> runtime_pc list \<Rightarrow> bool" for vt where
  call: "runtime_exec pc S = (S', t) \<Longrightarrow> system_step vt (S, before @ pc # after) (S', moved before t after)"
| turn: "um_find (sy_runs S) a = Some r \<Longrightarrow> \<not> quiescent r \<Longrightarrow> system_step vt (S, ths) (strand_turn vt a S, ths)"

text \<open>The actors have been constructed, with the ids \<open>ids\<close>; nothing has been spawned.\<close>

definition system_start :: "u64 list \<Rightarrow> 's \<Rightarrow> 's Actor_system" where
  "system_start ids s =
     \<lparr>sy_runtime = ActorRuntime_new, sy_runs = zip [0 ..< length ids] (map (\<lambda>i. actor_start (Actor_new i) s) ids),
      sy_state = s, sy_log = [], sy_returned = []\<rparr>"

definition system_reachable ::
  "(nat \<Rightarrow> 's ActorMethods) \<Rightarrow> u64 list \<Rightarrow> 's \<Rightarrow> runtime_call list \<Rightarrow> 's Actor_system \<Rightarrow> runtime_pc list \<Rightarrow> bool" where
  "system_reachable vt ids s xs S ths \<longleftrightarrow> (system_step vt)\<^sup>*\<^sup>* (system_start ids s, map R_call xs) (S, ths)"

subsection \<open>One actor alone\<close>

text \<open>What remains of a run when the state is forgotten: it is a run of a lone actor without effects.\<close>

definition erase :: "'s actor_run \<Rightarrow> unit actor_run" where
  "erase r = \<lparr>ar_actor = ar_actor r, ar_pc = ar_pc r, ar_state = (), ar_sent = ar_sent r,
     ar_scheduled = ar_scheduled r, ar_log = ar_log r\<rparr>"

definition no_methods :: "unit ActorMethods" where
  "no_methods = \<lparr>vt_HandleMessage = (\<lambda>i p s. s), vt_Tick = (\<lambda>i s. s)\<rparr>"

lemma erase_simps [simp]:
  "erase (r\<lparr>ar_state := s\<rparr>) = erase r" "ar_actor (erase r) = ar_actor r" "ar_log (erase r) = ar_log r"
  "ar_pc (erase r) = ar_pc r" "ar_sent (erase r) = ar_sent r" "ar_scheduled (erase r) = ar_scheduled r"
  by (simp_all add: erase_def)

lemma erase_start: "erase (actor_start (Actor_new i) s) = actor_start (Actor_new i) ()"
  by (simp add: erase_def actor_start_def)

lemma erase_enqueue: "erase (env_enqueue i p r) = env_enqueue i p (erase r)"
  by (simp add: erase_def env_enqueue_def)

lemma erase_schedule: "erase (env_schedule i r) = env_schedule i (erase r)"
  by (simp add: erase_def env_schedule_def)

lemma erase_strand: "erase (strand_next vt r) = strand_next no_methods (erase r)"
  by (auto simp: erase_def strand_next_def swap_mailbox_def split: actor_pc.split list.split option.split)

lemma erase_views [simp]:
  "handled (erase r) = handled r" "ticked (erase r) = ticked r" "quiescent (erase r) = quiescent r"
  by (simp_all add: handled_def ticked_def quiescent_def)

text \<open>A turn adds the events it is the effect of.\<close>

lemma strand_next_events:
  "\<exists>es. ar_log (strand_next vt r) = ar_log r @ es \<and> ar_state (strand_next vt r) = fold (apply_event vt) es (ar_state r)"
proof (cases "ar_pc r")
  case (Handling ms tick)
  then show ?thesis
    by (cases ms; cases tick)
      (auto simp: strand_next_def apply_event_def)
qed (auto simp: strand_next_def swap_mailbox_def split: list.split)

subsection \<open>What the history says an actor has been given\<close>

definition events_of :: "nat \<Rightarrow> (nat \<times> actor_event) list \<Rightarrow> actor_event list" where
  "events_of a log = map snd (filter (\<lambda>e. fst e = a) log)"

definition sends_to :: "nat \<Rightarrow> (runtime_call \<times> nat list) list \<Rightarrow> ActorMessage list" where
  "sends_to a hs =
     concat (map (\<lambda>(x, as). case x of
        RSend from to p \<Rightarrow> if as = [a] then [\<lparr>am_sender_id = from, am_payload = p\<rparr>] else []
      | _ \<Rightarrow> []) hs)"

definition ticks_to :: "nat \<Rightarrow> (runtime_call \<times> nat list) list \<Rightarrow> u64 multiset" where
  "ticks_to a hs =
     sum_list (map (\<lambda>(x, as). case x of RTick i \<Rightarrow> if a \<in> set as then {#i#} else {#} | _ \<Rightarrow> {#}) hs)"

text \<open>The ticks a \<open>Tick\<close> that is still running has scheduled already.\<close>

definition ticking :: "nat \<Rightarrow> runtime_pc \<Rightarrow> u64 multiset" where
  "ticking a pc = (case pc of R_ticking i as bs \<Rightarrow> if a \<in> set as then {#i#} else {#} | _ \<Rightarrow> {#})"

lemma history_simps [simp]:
  "events_of a [] = []" "events_of a (log @ log') = events_of a log @ events_of a log'"
  "sends_to a [] = []" "sends_to a (hs @ hs') = sends_to a hs @ sends_to a hs'"
  "sends_to a [(RSend from to p, as)] = (if as = [a] then [\<lparr>am_sender_id = from, am_payload = p\<rparr>] else [])"
  "sends_to a [(RTick i, as)] = []" "sends_to a [(RSpawn b, as)] = []" "sends_to a [(RKill k, as)] = []"
  "ticks_to a [] = {#}" "ticks_to a (hs @ hs') = ticks_to a hs + ticks_to a hs'"
  "ticks_to a [(RTick i, as)] = (if a \<in> set as then {#i#} else {#})"
  "ticks_to a [(RSend from to p, as)] = {#}" "ticks_to a [(RSpawn b, as)] = {#}" "ticks_to a [(RKill k, as)] = {#}"
  by (simp_all add: events_of_def sends_to_def ticks_to_def)

lemma events_of_map_Pair [simp]: "events_of a (map (Pair b) es) = (if a = b then es else [])"
  by (cases "a = b") (simp_all add: events_of_def filter_map comp_def)

lemma ticking_simps [simp]:
  "ticking a (R_call x) = {#}" "ticking a (R_sending from to p b) = {#}"
  "ticking a (R_ticking i as bs) = (if a \<in> set as then {#i#} else {#})"
  by (simp_all add: ticking_def)

lemma sum_list_moved:
  fixes f :: "'t \<Rightarrow> 'm::monoid_add"
  shows "sum_list (map f (moved before t after)) =
    sum_list (map f before) + (case t of None \<Rightarrow> 0 | Some q \<Rightarrow> f q) + sum_list (map f after)"
  by (simp add: add.assoc split: option.split)

subsection \<open>The invariant\<close>

definition actor_matches :: "u64 list \<Rightarrow> 's Actor_system \<Rightarrow> runtime_pc list \<Rightarrow> nat \<Rightarrow> 's actor_run \<Rightarrow> bool" where
  "actor_matches ids S ths a r \<longleftrightarrow>
     actor_reachable no_methods (ids ! a) () (erase r) \<and> ac_actor_id (ar_actor r) = ids ! a \<and>
     ar_log r = events_of a (sy_log S) \<and> ar_sent r = sends_to a (sy_returned S) \<and>
     mset (ar_scheduled r) = ticks_to a (sy_returned S) + sum_list (map (ticking a) ths)"

text \<open>A thread holds addresses of actors, those it still has to schedule without repetition.\<close>

definition thread_ok :: "u64 list \<Rightarrow> runtime_pc \<Rightarrow> bool" where
  "thread_ok ids pc \<longleftrightarrow>
     (case pc of
        R_call x \<Rightarrow> True
      | R_ticking i as bs \<Rightarrow> distinct (as @ bs) \<and> set (as @ bs) \<subseteq> {..< length ids}
      | R_sending from to p a \<Rightarrow> a < length ids \<and> ids ! a = to)"

definition call_ok :: "u64 list \<Rightarrow> runtime_call \<times> nat list \<Rightarrow> bool" where
  "call_ok ids h \<longleftrightarrow>
     (case h of
        (RSend from to p, as) \<Rightarrow> as = [] \<or> (\<exists>a < length ids. as = [a] \<and> ids ! a = to)
      | (RTick i, as) \<Rightarrow> distinct as \<and> set as \<subseteq> {..< length ids}
      | (_, as) \<Rightarrow> as = [])"

definition system_ok ::
  "(nat \<Rightarrow> 's ActorMethods) \<Rightarrow> u64 list \<Rightarrow> 's \<Rightarrow> runtime_call list \<Rightarrow> 's Actor_system \<times> runtime_pc list \<Rightarrow> bool" where
  "system_ok vt ids s xs sth \<longleftrightarrow>
     (let (S, ths) = sth
      in um_wf (sy_runs S) \<and> dom (um_find (sy_runs S)) = {..< length ids} \<and>
         runtime_ok (sy_runtime S) (actor_heap_of (sy_runs S)) \<and>
         (\<forall>a r. um_find (sy_runs S) a = Some r \<longrightarrow> actor_matches ids S ths a r) \<and>
         list_all (thread_ok ids) ths \<and> list_all (call_ok ids) (sy_returned S) \<and>
         length (sy_returned S) + length ths = length xs \<and>
         sy_state S = fold (\<lambda>(a, e). apply_event (vt a) e) (sy_log S) s)"

lemma find_actor_heap_of [simp]: "um_find (actor_heap_of runs) a = map_option ar_actor (um_find runs a)"
  by (simp add: actor_heap_of_def um_find_def map_of_map)

lemma wf_actor_heap_of [simp]: "um_wf (actor_heap_of runs) = um_wf runs"
  by (simp add: actor_heap_of_def um_wf_def comp_def case_prod_unfold)

lemma runtime_ok_cong:
  assumes "runtime_ok rt heap" and "um_wf heap'"
    and "\<And>a. map_option ac_actor_id (um_find heap' a) = map_option ac_actor_id (um_find heap a)"
  shows "runtime_ok rt heap'"
proof -
  have "\<exists>x. um_find heap' a = Some x \<and> ac_actor_id x = i" if "um_find (art_actors rt) i = Some a" for i a
    using runtime_ok_find [OF assms(1) that] assms(3) [of a] by (cases "um_find heap' a") auto
  then show ?thesis using assms(1,2) by (simp add: runtime_ok_def um.every_def)
qed

text \<open>Steps that change one run.\<close>

lemma on_run_simps [simp]:
  "sy_runtime (on_run f a S) = sy_runtime S" "sy_state (on_run f a S) = sy_state S"
  "sy_log (on_run f a S) = sy_log S" "sy_returned (on_run f a S) = sy_returned S"
  by (simp_all add: on_run_def split: option.split)

lemma find_on_run: "um_find (sy_runs (on_run f a S)) b = (if b = a then map_option f (um_find (sy_runs S) b) else um_find (sy_runs S) b)"
  by (auto simp: on_run_def split: option.split)

lemma wf_on_run: "um_wf (sy_runs S) \<Longrightarrow> um_wf (sy_runs (on_run f a S))"
  by (simp add: on_run_def split: option.split)

lemma returns_simps [simp]:
  "sy_runtime (returns x as S) = sy_runtime S" "sy_state (returns x as S) = sy_state S" "sy_log (returns x as S) = sy_log S"
  "sy_runs (returns x as S) = sy_runs S" "sy_returned (returns x as S) = sy_returned S @ [(x, as)]"
  by (simp_all add: returns_def)

text \<open>The invariant of a call in terms of what it changes.\<close>

lemma system_ok_call:
  assumes ok: "system_ok vt ids s xs (S, before @ pc # after)"
    and runs: "um_wf (sy_runs S')" "\<And>b. map_option (\<lambda>r. ac_actor_id (ar_actor r)) (um_find (sy_runs S') b) =
      map_option (\<lambda>r. ac_actor_id (ar_actor r)) (um_find (sy_runs S) b)"
    and table: "runtime_ok (sy_runtime S) (actor_heap_of (sy_runs S)) \<Longrightarrow> runtime_ok (sy_runtime S') (actor_heap_of (sy_runs S))"
    and same: "sy_state S' = sy_state S" "sy_log S' = sy_log S"
    and hist: "sy_returned S' = sy_returned S @ hs" "list_all (call_ok ids) hs" "length hs = (case t of None \<Rightarrow> 1 | Some q \<Rightarrow> 0)"
    and thread: "case t of None \<Rightarrow> True | Some q \<Rightarrow> thread_ok ids q"
    and matches: "\<And>b r r'. um_find (sy_runs S) b = Some r \<Longrightarrow> um_find (sy_runs S') b = Some r' \<Longrightarrow>
      actor_reachable no_methods (ids ! b) () (erase r) \<Longrightarrow>
      actor_reachable no_methods (ids ! b) () (erase r') \<and> ar_log r' = ar_log r \<and> ar_sent r' = ar_sent r @ sends_to b hs \<and>
      mset (ar_scheduled r') + ticking b pc =
        mset (ar_scheduled r) + ticks_to b hs + (case t of None \<Rightarrow> {#} | Some q \<Rightarrow> ticking b q)"
  shows "system_ok vt ids s xs (S', moved before t after)"
proof -
  let ?old = "before @ pc # after" and ?new = "moved before t after"
  have heap: "runtime_ok (sy_runtime S') (actor_heap_of (sy_runs S'))"
  proof (rule runtime_ok_cong [OF table])
    show "runtime_ok (sy_runtime S) (actor_heap_of (sy_runs S))" using ok by (simp add: system_ok_def)
    show "um_wf (actor_heap_of (sy_runs S'))" using runs(1) by simp
    show "map_option ac_actor_id (um_find (actor_heap_of (sy_runs S')) b) =
        map_option ac_actor_id (um_find (actor_heap_of (sy_runs S)) b)" for b
      using runs(2) [of b] by (simp add: option.map_comp comp_def)
  qed
  have some: "um_find (sy_runs S') b = None \<longleftrightarrow> um_find (sy_runs S) b = None" for b
    using runs(2) [of b] by (cases "um_find (sy_runs S) b"; cases "um_find (sy_runs S') b") simp_all
  have "actor_matches ids S' ?new b r'" if r': "um_find (sy_runs S') b = Some r'" for b r'
  proof -
    obtain r where r: "um_find (sy_runs S) b = Some r" using some [of b] r' by auto
    have m: "actor_matches ids S ?old b r" using ok r by (simp add: system_ok_def)
    have id: "ac_actor_id (ar_actor r') = ac_actor_id (ar_actor r)" using runs(2) [of b] r r' by simp
    have a: "actor_reachable no_methods (ids ! b) () (erase r)" using m by (simp add: actor_matches_def)
    have "mset (ar_scheduled r') + ticking b pc = ticks_to b (sy_returned S') + sum_list (map (ticking b) ?new) + ticking b pc"
      using matches [OF r r' a] m hist(1) by (simp add: actor_matches_def sum_list_moved ac_simps split: option.splits)
    then show ?thesis
      using matches [OF r r' a] m id hist(1) same(2) by (simp add: actor_matches_def)
  qed
  moreover have "dom (um_find (sy_runs S')) = dom (um_find (sy_runs S))"
    using some by (auto simp: dom_def)
  ultimately show ?thesis
    using ok runs(1) heap hist thread same by (simp add: system_ok_def split: option.splits)
qed

lemma reachable_enqueue: "actor_reachable vt i s r \<Longrightarrow> actor_reachable vt i s (env_enqueue f p r)"
  by (rule actor_reachable.step [OF _ actor_step.enqueue])

lemma reachable_schedule: "actor_reachable vt i s r \<Longrightarrow> actor_reachable vt i s (env_schedule k r)"
  by (rule actor_reachable.step [OF _ actor_step.schedule])

lemma reachable_strand: "actor_reachable vt i s r \<Longrightarrow> actor_reachable vt i s (strand_next vt r)"
  by (rule actor_reachable.step [OF _ actor_step.strand])

lemma env_fields [simp]:
  "ar_log (env_enqueue f p r) = ar_log r" "ar_log (env_schedule k r) = ar_log r"
  "ar_scheduled (env_enqueue f p r) = ar_scheduled r" "ar_scheduled (env_schedule k r) = ar_scheduled r @ [k]"
  "ar_sent (env_enqueue f p r) = ar_sent r @ [\<lparr>am_sender_id = f, am_payload = p\<rparr>]" "ar_sent (env_schedule k r) = ar_sent r"
  "ac_actor_id (ar_actor (env_enqueue f p r)) = ac_actor_id (ar_actor r)"
  "ac_actor_id (ar_actor (env_schedule k r)) = ac_actor_id (ar_actor r)"
  by (simp_all add: env_enqueue_def env_schedule_def)

lemma strand_next_id [simp]: "ac_actor_id (ar_actor (strand_next vt r)) = ac_actor_id (ar_actor r)"
  by (auto simp: strand_next_def swap_mailbox_def split: actor_pc.split list.split option.split)

text \<open>What the table names are actors of the system.\<close>

lemma system_table:
  assumes "system_ok vt ids s xs (S, ths)" and "um_find (art_actors (sy_runtime S)) i = Some a"
  shows "a < length ids" and "ids ! a = i"
proof -
  have ok: "runtime_ok (sy_runtime S) (actor_heap_of (sy_runs S))" and dom: "dom (um_find (sy_runs S)) = {..< length ids}"
    using assms(1) by (simp_all add: system_ok_def)
  obtain r where r: "um_find (sy_runs S) a = Some r" "ac_actor_id (ar_actor r) = i"
    using runtime_ok_find [OF ok assms(2)] by auto
  then show "a < length ids" using dom by blast
  have "actor_matches ids S ths a r" using assms(1) r(1) by (simp add: system_ok_def)
  then show "ids ! a = i" using r(2) by (simp add: actor_matches_def)
qed

lemma system_snapshot:
  assumes "system_ok vt ids s xs (S, ths)"
  shows "distinct (map snd (um_entries (art_actors (sy_runtime S))))"
    and "set (map snd (um_entries (art_actors (sy_runtime S)))) \<subseteq> {..< length ids}"
proof -
  have ok: "runtime_ok (sy_runtime S) (actor_heap_of (sy_runs S))" using assms by (simp add: system_ok_def)
  show "distinct (map snd (um_entries (art_actors (sy_runtime S))))" by (rule runtime_ok_snapshot [OF ok])
  have "um_wf (art_actors (sy_runtime S))" using ok by (simp add: runtime_ok_def)
  then show "set (map snd (um_entries (art_actors (sy_runtime S)))) \<subseteq> {..< length ids}"
    using system_table(1) [OF assms] um.entries_find by fastforce
qed

lemma system_ok_exec:
  assumes ok: "system_ok vt ids s xs (S, before @ pc # after)" and exec: "runtime_exec pc S = (S', t)"
  shows "system_ok vt ids s xs (S', moved before t after)"
proof -
  note rule = system_ok_call [OF ok, of S']
  have wf: "um_wf (sy_runs S)" and pc_ok: "thread_ok ids pc" using ok by (simp_all add: system_ok_def)
  show ?thesis
  proof (cases pc)
    case (R_call x)
    show ?thesis
    proof (cases x)
      case (RSpawn a)
      then show ?thesis
        using exec R_call by (intro rule [of "[(x, [])]"]) (auto simp: wf call_ok_def intro: runtime_ok_Spawn)
    next
      case (RKill i)
      then show ?thesis
        using exec R_call by (intro rule [of "[(x, [])]"]) (auto simp: wf call_ok_def intro: runtime_ok_Kill)
    next
      case (RTick i)
      then show ?thesis
        using exec R_call system_snapshot [OF ok] wf
        by (intro rule [of "[]"]) (auto simp: thread_ok_def)
    next
      case (RSend k d p)
      show ?thesis
      proof (cases "um_find (art_actors (sy_runtime S)) d")
        case None
        then show ?thesis
          using exec R_call RSend by (intro rule [of "[(x, [])]"]) (auto simp: wf call_ok_def)
      next
        case (Some a)
        then show ?thesis
          using exec R_call RSend system_table [OF ok Some] wf by (intro rule [of "[]"]) (auto simp: thread_ok_def)
      qed
    qed
  next
    case (R_ticking i as bs)
    show ?thesis
    proof (cases bs)
      case Nil
      then show ?thesis
        using exec R_ticking pc_ok by (intro rule [of "[(RTick i, as)]"]) (auto simp: wf call_ok_def thread_ok_def)
    next
      case (Cons b cs)
      then have S': "S' = on_run (env_schedule i) b S" and t: "t = Some (R_ticking i (as @ [b]) cs)"
        using exec R_ticking by simp_all
      show ?thesis
        unfolding S' t
        using R_ticking Cons pc_ok
        by (intro system_ok_call [OF ok, of _ "[]"])
          (auto simp: wf wf_on_run thread_ok_def find_on_run erase_schedule option.map_comp comp_def
            intro: reachable_schedule split: if_splits)
    qed
  next
    case (R_sending k d p a)
    then have S': "S' = returns (RSend k d p) [a] (on_run (env_enqueue k p) a S)" and t: "t = None"
      using exec by simp_all
    show ?thesis
      unfolding S' t
      using R_sending pc_ok
      by (intro system_ok_call [OF ok, of _ "[(RSend k d p, [a])]"])
        (auto simp: wf wf_on_run thread_ok_def call_ok_def find_on_run erase_enqueue option.map_comp comp_def
          intro: reachable_enqueue split: if_splits)
  qed
qed

lemma system_ok_turn:
  assumes ok: "system_ok vt ids s xs (S, ths)"
  shows "system_ok vt ids s xs (strand_turn vt a S, ths)"
proof (cases "um_find (sy_runs S) a")
  case None
  then show ?thesis using ok by (simp add: strand_turn_def)
next
  case (Some r)
  define r0 where "r0 = r\<lparr>ar_state := sy_state S\<rparr>"
  define r' where "r' = strand_next (vt a) r0"
  obtain es where es: "ar_log r' = ar_log r @ es" "ar_state r' = fold (apply_event (vt a)) es (sy_state S)"
    using strand_next_events [of "vt a" r0] by (auto simp: r0_def r'_def)
  have turn: "strand_turn vt a S = S\<lparr>sy_runs := um_assign a r' (sy_runs S), sy_state := ar_state r',
      sy_log := sy_log S @ map (Pair a) es\<rparr>"
    using Some es by (simp add: strand_turn_def Let_def r0_def [symmetric] r'_def [symmetric])
  have m: "actor_matches ids S ths a r" using ok Some by (simp add: system_ok_def)
  have "erase r' = strand_next no_methods (erase r)" by (simp add: r'_def erase_strand r0_def)
  then have "actor_matches ids (strand_turn vt a S) ths a r'"
    using m es(1) reachable_strand [of no_methods "ids ! a" "()" "erase r"]
    by (simp add: actor_matches_def turn) (simp add: r'_def r0_def)
  moreover have "actor_matches ids (strand_turn vt a S) ths b rb" if "b \<noteq> a" "um_find (sy_runs S) b = Some rb" for b rb
  proof -
    have "actor_matches ids S ths b rb" using ok that(2) by (simp add: system_ok_def)
    then show ?thesis using that(1) by (simp add: actor_matches_def turn)
  qed
  ultimately have all: "\<forall>b rb. um_find (um_assign a r' (sy_runs S)) b = Some rb \<longrightarrow> actor_matches ids (strand_turn vt a S) ths b rb"
    by (metis um_find_assign option.inject)
  have before: "runtime_ok (sy_runtime S) (actor_heap_of (sy_runs S))" "um_wf (sy_runs S)"
    using ok by (simp_all add: system_ok_def)
  have "map_option ac_actor_id (um_find (actor_heap_of (um_assign a r' (sy_runs S))) b) =
      map_option ac_actor_id (um_find (actor_heap_of (sy_runs S)) b)" for b
    using Some by (simp add: r'_def r0_def)
  then have heap: "runtime_ok (sy_runtime S) (actor_heap_of (um_assign a r' (sy_runs S)))"
    using before by (intro runtime_ok_cong [OF before(1)]) simp_all
  have state: "ar_state r' = fold (\<lambda>(a, e). apply_event (vt a) e) (sy_log S @ map (Pair a) es) s"
    using ok es(2) by (simp add: system_ok_def fold_map comp_def)
  have "dom (um_find (um_assign a r' (sy_runs S))) = {..< length ids}"
    using ok Some by (auto simp: system_ok_def dom_def)
  then show ?thesis
    using ok all heap state unfolding system_ok_def turn Let_def prod.case by simp
qed

lemma system_ok_step:
  assumes "system_ok vt ids s xs sth" and "system_step vt sth sth'"
  shows "system_ok vt ids s xs sth'"
  using assms(2,1) by cases (auto intro: system_ok_exec system_ok_turn)

lemma find_start: "um_find (zip [0 ..< length rs] rs) a = (if a < length rs then Some (rs ! a) else None)"
proof -
  have "distinct (map fst (zip [0 ..< length rs] rs))" by simp
  then show ?thesis
    by (auto simp: um_find_def map_of_eq_None_iff in_set_zip intro!: map_of_is_SomeI exI [of _ a])
qed

lemma system_ok_start: "system_ok vt ids s xs (system_start ids s, map R_call xs)"
proof -
  let ?rs = "map (\<lambda>i. actor_start (Actor_new i) s) ids"
  have find: "um_find (zip [0 ..< length ids] ?rs) a = (if a < length ids then Some (?rs ! a) else None)" for a
    using find_start [of ?rs a] by simp
  have "sum_list (map (ticking b) (map R_call xs)) = {#}" for b by (induction xs) simp_all
  moreover have "list_all (thread_ok ids) (map R_call xs)" by (simp add: list_all_iff thread_ok_def)
  moreover have "dom (um_find (zip [0 ..< length ids] ?rs)) = {..< length ids}" using find by (auto simp: dom_def split: if_splits)
  moreover have "um_wf (zip [0 ..< length ids] ?rs)" by (simp add: um_wf_def)
  ultimately show ?thesis
    by (auto simp: system_ok_def system_start_def find actor_matches_def erase_start runtime_ok_def
        ActorRuntime_new_def um.every_empty split: if_splits intro: actor_reachable.start)
      (simp_all add: actor_start_def Actor_new_def)
qed

lemma system_ok_reachable:
  assumes "system_reachable vt ids s xs S ths"
  shows "system_ok vt ids s xs (S, ths)"
proof -
  have "(system_step vt)\<^sup>*\<^sup>* sth sth' \<Longrightarrow> system_ok vt ids s xs sth \<Longrightarrow> system_ok vt ids s xs sth'" for sth sth'
    by (induction rule: rtranclp_induct) (auto intro: system_ok_step)
  from this [OF _ system_ok_start] show ?thesis using assms unfolding system_reachable_def by blast
qed

subsection \<open>Every schedule ends\<close>

text \<open>
  A message posts at most one closure (3 turns) and is handled in one more; a tick posts one closure.
  The snapshot of a \<open>Tick\<close> has at most as many actors as there are.
\<close>

definition call_work :: "nat \<Rightarrow> runtime_pc \<Rightarrow> nat" where
  "call_work n pc =
     (case pc of
        R_call (RTick i) \<Rightarrow> 2 + 4 * n
      | R_call (RSend from to p) \<Rightarrow> 6
      | R_call _ \<Rightarrow> 1
      | R_ticking i as bs \<Rightarrow> 1 + 4 * length bs
      | R_sending from to p a \<Rightarrow> 5)"

definition runs_work :: "nat \<Rightarrow> (nat, 's actor_run) umap \<Rightarrow> nat" where
  "runs_work n runs = (\<Sum>a < n. case um_find runs a of None \<Rightarrow> 0 | Some r \<Rightarrow> strand_work r)"

definition system_work :: "nat \<Rightarrow> 's Actor_system \<times> runtime_pc list \<Rightarrow> nat" where
  "system_work n sth = runs_work n (sy_runs (fst sth)) + sum_list (map (call_work n) (snd sth))"

lemma runs_work_assign:
  assumes "a < n" and "um_find runs a = Some r" and "um_find runs' = (um_find runs)(a := Some r')"
  shows "runs_work n runs' + strand_work r = runs_work n runs + strand_work r'"
proof -
  have "runs_work n runs' = strand_work r' + (\<Sum>b \<in> {..< n} - {a}. case um_find runs b of None \<Rightarrow> 0 | Some r \<Rightarrow> strand_work r)"
    using assms(1) unfolding runs_work_def assms(3) by (subst sum.remove [of _ a]) (auto intro!: sum.cong)
  moreover have "runs_work n runs = strand_work r + (\<Sum>b \<in> {..< n} - {a}. case um_find runs b of None \<Rightarrow> 0 | Some r \<Rightarrow> strand_work r)"
    using assms(1,2) unfolding runs_work_def by (subst sum.remove [of _ a]) auto
  ultimately show ?thesis by simp
qed

lemma env_work:
  "strand_work (env_enqueue f p r) \<le> strand_work r + 4" "strand_work (env_schedule k r) = strand_work r + 3"
  by (auto simp: strand_work_def env_enqueue_def env_schedule_def Actor_EnqueueMessage_def Actor_ScheduleTick_def Let_def
      split: actor_pc.split)

lemma on_run_work:
  assumes "\<And>r. strand_work (f r) \<le> strand_work r + k"
  shows "runs_work n (sy_runs (on_run f a S)) \<le> runs_work n (sy_runs S) + k"
proof (cases "a < n \<and> um_find (sy_runs S) a \<noteq> None")
  case True
  then obtain r where r: "a < n" "um_find (sy_runs S) a = Some r" by auto
  have "um_find (sy_runs (on_run f a S)) = (um_find (sy_runs S))(a := Some (f r))"
    using r(2) by (auto simp: find_on_run)
  from runs_work_assign [OF r this] show ?thesis using assms [of r] by simp
next
  case False
  then have "runs_work n (sy_runs (on_run f a S)) = runs_work n (sy_runs S)"
    unfolding runs_work_def by (intro sum.cong) (auto simp: find_on_run split: option.split)
  then show ?thesis by simp
qed

lemma exec_work:
  assumes "system_ok vt ids s xs (S, before @ pc # after)" and "runtime_exec pc S = (S', t)"
  shows "runs_work (length ids) (sy_runs S') + (case t of None \<Rightarrow> 0 | Some q \<Rightarrow> call_work (length ids) q) <
    runs_work (length ids) (sy_runs S) + call_work (length ids) pc"
proof -
  note snap = system_snapshot [OF assms(1)]
  have "length (um_entries (art_actors (sy_runtime S))) = card (set (map snd (um_entries (art_actors (sy_runtime S)))))"
    using distinct_card [OF snap(1)] by simp
  also have "\<dots> \<le> card {..< length ids}" by (rule card_mono) (use snap(2) in auto)
  finally have len: "length (um_entries (art_actors (sy_runtime S))) \<le> length ids" by simp
  have tick: "runs_work n (sy_runs (on_run (env_schedule i) b S)) \<le> runs_work n (sy_runs S) + 3" for n i b
    by (rule on_run_work) (simp add: env_work)
  have send: "runs_work n (sy_runs (on_run (env_enqueue f p) b S)) \<le> runs_work n (sy_runs S) + 4" for n f p b
    by (rule on_run_work) (rule env_work)
  show ?thesis
  proof (cases pc)
    case (R_call x)
    then show ?thesis
      using assms(2) len by (cases x) (auto simp: call_work_def split: option.splits)
  next
    case (R_ticking i as bs)
    then show ?thesis
      using assms(2) tick [of "length ids" i "hd bs"] by (cases bs) (auto simp: call_work_def)
  next
    case (R_sending k d p a)
    then show ?thesis
      using assms(2) send [of "length ids" k p a] by (auto simp: call_work_def)
  qed
qed

lemma system_step_work:
  assumes "system_ok vt ids s xs sth" and "system_step vt sth sth'"
  shows "system_work (length ids) sth' < system_work (length ids) sth"
  using assms(2)
proof cases
  case (call pc S S' t before after)
  show ?thesis
    using exec_work [OF assms(1) [unfolded call(1)] call(3)]
    by (simp add: call(1,2) system_work_def sum_list_moved split: option.splits)
next
  case (turn S a r ths)
  have "a < length ids" using assms(1) turn by (auto simp: system_ok_def)
  moreover have "strand_work (r\<lparr>ar_state := sy_state S\<rparr>) = strand_work r" "quiescent (r\<lparr>ar_state := sy_state S\<rparr>) = quiescent r"
    by (simp_all add: strand_work_def quiescent_def)
  ultimately show ?thesis
    using turn runs_work_assign [OF _ turn(3) um_find_assign_fun, of "length ids" "strand_next (vt a) (r\<lparr>ar_state := sy_state S\<rparr>)"]
      strand_next_work [of "r\<lparr>ar_state := sy_state S\<rparr>" "vt a"]
    by (simp add: system_work_def strand_turn_def Let_def)
qed

text \<open>The end: all calls have returned and all strands are at rest.\<close>

definition system_done :: "'s Actor_system \<times> runtime_pc list \<Rightarrow> bool" where
  "system_done sth \<longleftrightarrow> snd sth = [] \<and> (\<forall>a r. um_find (sy_runs (fst sth)) a = Some r \<longrightarrow> quiescent r)"

lemma system_not_stuck:
  assumes "\<not> system_done sth"
  shows "\<exists>sth'. system_step vt sth sth'"
proof -
  obtain S ths where sth: "sth = (S, ths)" by fastforce
  show ?thesis
  proof (cases ths)
    case Nil
    then obtain a r where "um_find (sy_runs S) a = Some r" "\<not> quiescent r"
      using assms sth by (auto simp: system_done_def)
    then show ?thesis using system_step.turn sth by blast
  next
    case (Cons pc rest)
    obtain S' t where "runtime_exec pc S = (S', t)" by fastforce
    from system_step.call [OF this, of vt "[]" rest] show ?thesis using sth Cons by auto
  qed
qed

interpretation actor_system: progress "system_step vt" "system_ok vt ids s xs" "system_work (length ids)" system_done
  for vt ids s xs
  by unfold_locales (blast intro: system_ok_step system_step_work system_not_stuck)+

lemma system_ok_run:
  assumes "system_ok vt ids s xs (S, ths)" and "a < length ids"
  shows "\<exists>r. um_find (sy_runs S) a = Some r \<and> actor_matches ids S ths a r"
proof -
  have "a \<in> dom (um_find (sy_runs S))" using assms by (simp add: system_ok_def)
  then obtain r where r: "um_find (sy_runs S) a = Some r" by blast
  then show ?thesis using assms(1) by (simp add: system_ok_def)
qed

text \<open>At the end an actor has handled what it was sent.\<close>

lemma system_done_actor:
  assumes "system_ok vt ids s xs (S, ths)" and "system_done (S, ths)" and "a < length ids"
  shows "\<exists>r. um_find (sy_runs S) a = Some r \<and> handled r = sends_to a (sy_returned S) \<and>
    mset (ticked r) = ticks_to a (sy_returned S) \<and> ac_mailbox (ar_actor r) = []"
proof -
  obtain r where r: "um_find (sy_runs S) a = Some r" and m: "actor_matches ids S ths a r"
    using system_ok_run [OF assms(1,3)] by blast
  have q: "quiescent r" "ths = []" using assms(2) r by (simp_all add: system_done_def)
  have "actor_reachable no_methods (ids ! a) () (erase r)" using m by (simp add: actor_matches_def)
  then have "actor_inv no_methods () (erase r)" by (rule actor_inv_reachable)
  from quiescent_all_done [OF this] show ?thesis
    using m q r by (auto simp: actor_matches_def)
qed

lemma system_done_all:
  assumes "system_ok vt ids s xs sth" and "system_done sth"
  shows "snd sth = [] \<and> length (sy_returned (fst sth)) = length xs \<and>
    (\<forall>a < length ids. \<exists>r. um_find (sy_runs (fst sth)) a = Some r \<and> handled r = sends_to a (sy_returned (fst sth)) \<and>
       mset (ticked r) = ticks_to a (sy_returned (fst sth)) \<and> ac_mailbox (ar_actor r) = [])"
proof -
  obtain S ths where sth: "sth = (S, ths)" by fastforce
  show ?thesis
    using assms system_done_actor [OF assms [unfolded sth]] by (simp add: sth system_done_def system_ok_def)
qed

subsection \<open>Schedules\<close>

text \<open>An executable form of runs: the thread at a position moves, or the strand of an actor turns.\<close>

datatype system_choice = Move nat | Turn nat

fun system_schedule ::
  "(nat \<Rightarrow> 's ActorMethods) \<Rightarrow> system_choice list \<Rightarrow> 's Actor_system \<times> runtime_pc list \<Rightarrow> 's Actor_system \<times> runtime_pc list" where
  "system_schedule vt [] sth = sth"
| "system_schedule vt (Move n # cs) (S, ths) =
     (if n < length ths then
        (case runtime_exec (ths ! n) S of
           (S', t) \<Rightarrow> system_schedule vt cs (S', moved (take n ths) t (drop (Suc n) ths)))
      else system_schedule vt cs (S, ths))"
| "system_schedule vt (Turn a # cs) (S, ths) =
     (case um_find (sy_runs S) a of
        None \<Rightarrow> system_schedule vt cs (S, ths)
      | Some r \<Rightarrow> system_schedule vt cs (if quiescent r then S else strand_turn vt a S, ths))"

lemma system_schedule_steps: "(system_step vt)\<^sup>*\<^sup>* sth (system_schedule vt cs sth)"
proof (induction vt cs sth rule: system_schedule.induct)
  case (2 vt n cs S ths)
  show ?case
  proof (cases "n < length ths")
    case True
    obtain S' t where exec: "runtime_exec (ths ! n) S = (S', t)" by fastforce
    have "system_step vt (S, ths) (S', moved (take n ths) t (drop (Suc n) ths))"
      using system_step.call [OF exec, of vt "take n ths" "drop (Suc n) ths"] id_take_nth_drop [OF True] by simp
    then show ?thesis using "2.IH"(1) [OF True exec [symmetric]] True exec by (simp add: converse_rtranclp_into_rtranclp)
  next
    case False
    then show ?thesis using "2.IH"(2) by simp
  qed
next
  case (3 vt a cs S ths)
  show ?case
  proof (cases "um_find (sy_runs S) a")
    case (Some r)
    then show ?thesis
      using "3.IH"(2) [OF Some] system_step.turn [OF Some, of vt ths] by (auto intro: converse_rtranclp_into_rtranclp)
  qed (use "3.IH"(1) in simp)
qed simp

lemma system_schedule_reachable:
  "system_schedule vt cs (system_start ids s, map R_call xs) = (S, ths) \<Longrightarrow> system_reachable vt ids s xs S ths"
  using system_schedule_steps [of vt "(system_start ids s, map R_call xs)" cs] by (simp add: system_reachable_def)

text \<open>Two actors; the second one is killed while a message to it is on its way.\<close>

definition pair_calls :: "runtime_call list" where
  "pair_calls = [RSpawn 0, RSpawn 1, RTick 16, RSend 9 3 [1], RSend 9 4 [2], RKill 4, RSend 9 4 [7]]"

definition pair_choices :: "system_choice list" where
  "pair_choices = [Move 0, Move 0, Move 0, Move 1, Move 2, Move 3, Move 3, Move 2, Move 1, Move 0, Move 0, Move 0,
     Turn 1, Turn 0, Turn 1, Turn 0, Turn 1, Turn 0, Turn 1, Turn 0, Turn 1, Turn 0, Turn 1, Turn 0, Turn 1, Turn 0, Turn 1, Turn 0]"

lemma pair_run:
  "\<exists>S. system_reachable (\<lambda>a. append_methods) [3, 4] [] pair_calls S [] \<and>
     sends_to 1 (sy_returned S) = [\<lparr>am_sender_id = 9, am_payload = [2]\<rparr>]"
proof -
  define S where "S = fst (system_schedule (\<lambda>a. append_methods) pair_choices (system_start [3, 4] [], map R_call pair_calls))"
  have "snd (system_schedule (\<lambda>a. append_methods) pair_choices (system_start [3, 4] [], map R_call pair_calls)) = []"
    by code_simp
  moreover have "sends_to 1 (sy_returned S) = [\<lparr>am_sender_id = 9, am_payload = [2]\<rparr>]"
    unfolding S_def by code_simp
  ultimately show ?thesis
    using system_schedule_reachable [of "\<lambda>a. append_methods" pair_choices "[3, 4]" "[]" pair_calls S "[]"]
    by (metis S_def prod.collapse)
qed

section \<open>Properties\<close>

text \<open>C13: Actor system. Calls of \<open>Spawn\<close>, \<open>Kill\<close>, \<open>Tick\<close> and \<open>SendMessage\<close> on any number of threads interleave
  with the strands of all actors. When the state is forgotten the run of each actor is a run of a lone
  actor, so all that holds for one mailbox holds for each of them. The messages sent to an actor are those
  of the returned sends that reached it, in order, and a send reaches at most one actor, which has the
  destination id. The shared state is the result of what all actors handled and ticked, in order.\<close>

theorem actor_system_refines:
  assumes "system_reachable vt ids s xs S ths"
  shows "(\<forall>a < length ids. \<exists>r. um_find (sy_runs S) a = Some r \<and>
        actor_reachable no_methods (ids ! a) () (erase r) \<and>
        ar_log r = events_of a (sy_log S) \<and> ar_sent r = sends_to a (sy_returned S)) \<and>
      (\<forall>k d p as. (RSend k d p, as) \<in> set (sy_returned S) \<longrightarrow> as = [] \<or> (\<exists>a < length ids. as = [a] \<and> ids ! a = d)) \<and>
      sy_state S = fold (\<lambda>(a, e). apply_event (vt a) e) (sy_log S) s"
proof (intro conjI allI impI)
  note ok = system_ok_reachable [OF assms]
  show "\<exists>r. um_find (sy_runs S) a = Some r \<and> actor_reachable no_methods (ids ! a) () (erase r) \<and>
      ar_log r = events_of a (sy_log S) \<and> ar_sent r = sends_to a (sy_returned S)" if "a < length ids" for a
    using system_ok_run [OF ok that] by (auto simp: actor_matches_def)
  show "as = [] \<or> (\<exists>a < length ids. as = [a] \<and> ids ! a = d)" if "(RSend k d p, as) \<in> set (sy_returned S)" for k d p as
    using ok that by (fastforce simp: system_ok_def list_all_iff call_ok_def)
  show "sy_state S = fold (\<lambda>(a, e). apply_event (vt a) e) (sy_log S) s" using ok by (simp add: system_ok_def)
qed

theorem actor_system_refines_witness:
  "\<exists>S. system_reachable (\<lambda>a. append_methods) [3, 4] [] pair_calls S [] \<and>
      sends_to 1 (sy_returned S) = [\<lparr>am_sender_id = 9, am_payload = [2]\<rparr>] \<and>
      sy_state S = fold (\<lambda>(a, e). apply_event append_methods e) (sy_log S) []"
proof -
  obtain S where reach: "system_reachable (\<lambda>a. append_methods) [3, 4] [] pair_calls S []"
    and sent: "sends_to 1 (sy_returned S) = [\<lparr>am_sender_id = 9, am_payload = [2]\<rparr>]"
    using pair_run by blast
  show ?thesis
    by (intro exI [of _ S] conjI reach sent conjunct2 [OF conjunct2 [OF actor_system_refines [OF reach]]])
qed

text \<open>C14: Actor system: delivery. From every state of the system every schedule ends after a bounded number of
  steps, whatever the order of threads and strands. It can only end when all calls have returned, and then
  every actor has handled the messages of the sends that reached it, each once and in order, and one
  tick for each \<open>Tick\<close> whose snapshot contained it, killed or not, and its mailbox is empty.\<close>

theorem actor_system_delivers:
  assumes "system_reachable vt ids s xs S ths"
  shows "\<exists>bound. \<forall>k sth. (system_step vt ^^ k) (S, ths) sth \<longrightarrow>
      k \<le> bound \<and> ((\<nexists>sth'. system_step vt sth sth') \<longrightarrow>
        snd sth = [] \<and> length (sy_returned (fst sth)) = length xs \<and>
        (\<forall>a < length ids. \<exists>r. um_find (sy_runs (fst sth)) a = Some r \<and> handled r = sends_to a (sy_returned (fst sth)) \<and>
           mset (ticked r) = ticks_to a (sy_returned (fst sth)) \<and> ac_mailbox (ar_actor r) = []))"
proof (intro exI allI impI)
  note ok = system_ok_reachable [OF assms]
  fix k sth assume steps: "(system_step vt ^^ k) (S, ths) sth"
  note bound = actor_system.bounded [OF steps ok]
  have "snd sth = [] \<and> length (sy_returned (fst sth)) = length xs \<and>
      (\<forall>a < length ids. \<exists>r. um_find (sy_runs (fst sth)) a = Some r \<and> handled r = sends_to a (sy_returned (fst sth)) \<and>
         mset (ticked r) = ticks_to a (sy_returned (fst sth)) \<and> ac_mailbox (ar_actor r) = [])"
    if "\<nexists>sth'. system_step vt sth sth'"
    by (rule system_done_all [OF _ actor_system.maximal_finished [OF ok relpowp_imp_rtranclp [OF steps] that]]) (use bound in blast)
  then show "k \<le> system_work (length ids) (S, ths) \<and> ((\<nexists>sth'. system_step vt sth sth') \<longrightarrow>
        snd sth = [] \<and> length (sy_returned (fst sth)) = length xs \<and>
        (\<forall>a < length ids. \<exists>r. um_find (sy_runs (fst sth)) a = Some r \<and> handled r = sends_to a (sy_returned (fst sth)) \<and>
           mset (ticked r) = ticks_to a (sy_returned (fst sth)) \<and> ac_mailbox (ar_actor r) = []))"
    using bound by auto
qed

theorem actor_system_delivers_witness:
  "\<exists>bound. \<forall>k sth. (system_step (\<lambda>a. append_methods) ^^ k) (system_start [3, 4] [], map R_call pair_calls) sth \<longrightarrow>
      k \<le> bound \<and> ((\<nexists>sth'. system_step (\<lambda>a. append_methods) sth sth') \<longrightarrow>
        snd sth = [] \<and> length (sy_returned (fst sth)) = length pair_calls \<and>
        (\<forall>a < length [3, 4 :: u64]. \<exists>r. um_find (sy_runs (fst sth)) a = Some r \<and> handled r = sends_to a (sy_returned (fst sth)) \<and>
           mset (ticked r) = ticks_to a (sy_returned (fst sth)) \<and> ac_mailbox (ar_actor r) = []))"
  by (rule actor_system_delivers [where s = "[]"]) (simp add: system_reachable_def)

end
