(* ===== verification/Room_System.thy ===== *)
theory Room_System
  imports Room_Confinement Actor_System
begin

section \<open>Many room actors\<close>








subsection \<open>What the constructors give\<close>








subsection \<open>The invariant of all rooms\<close>













subsection \<open>Two rooms\<close>






section \<open>Properties\<close>



end
