(* ===== verification/Gateway_Session.thy ===== *)
theory Gateway_Session
  imports Prelude
begin

section \<open>Gateway sessions: framing, reading and writing\<close>

text \<open>
  The class \<open>Gateway::Session\<close> of \<open>core/gateway.cpp\<close>. A frame is a little-endian 32-bit length and
  then that many bytes. \<open>asio::async_read\<close> completes when the buffer it was given is full, so the
  reader is a state machine over the bytes that have arrived and were not consumed yet: it waits
  for four header bytes, then for the announced number of body bytes.
\<close>

subsection \<open>The read loop\<close>

datatype read_pc = ReadHeader | ReadBody | ReadClosed

record Reader =
  rd_pc :: read_pc
  rd_length :: u32
  rd_body_buf :: bytes
  rd_input :: bytes

text \<open>\<open>Start\<close>: the first \<open>DoReadHeader\<close>.\<close>

definition Reader_start :: Reader where
  "Reader_start = \<lparr>rd_pc = ReadHeader, rd_length = 0, rd_body_buf = [], rd_input = []\<rparr>"

text \<open>\<open>body_buf_.resize(length_)\<close>.\<close>

definition resize_buf :: "nat \<Rightarrow> bytes \<Rightarrow> bytes" where
  "resize_buf n xs = take n xs @ replicate (n - length xs) 0"

text \<open>
  One completed read, if enough bytes are there: the handler of \<open>DoReadHeader\<close> or of \<open>DoReadBody\<close>,
  with the message it passes to \<open>OnReceive\<close>. A length below four closes the session.
\<close>

definition read_step :: "Reader \<Rightarrow> (Reader \<times> bytes option) option" where
  "read_step r =
     (case rd_pc r of
        ReadHeader \<Rightarrow>
          if length (rd_input r) < 4 then None
          else let len = load_u32 (rd_input r);
                   r1 = r\<lparr>rd_length := len, rd_input := drop 4 (rd_input r)\<rparr>
               in if len < 4 then Some (r1\<lparr>rd_pc := ReadClosed\<rparr>, None)
                  else Some (r1\<lparr>rd_body_buf := resize_buf (unat len) (rd_body_buf r1), rd_pc := ReadBody\<rparr>, None)
      | ReadBody \<Rightarrow>
          if length (rd_input r) < length (rd_body_buf r) then None
          else let n = length (rd_body_buf r);
                   body = take n (rd_input r)
               in Some (r\<lparr>rd_body_buf := body, rd_input := drop n (rd_input r), rd_pc := ReadHeader\<rparr>, Some body)
      | ReadClosed \<Rightarrow> None)"

text \<open>
  All reads that can complete, with the messages delivered. The body buffer of a waiting body read
  is never empty, so each turn consumes input; \<open>reader_wf\<close> is the invariant that says so.
\<close>

definition reader_wf :: "Reader \<Rightarrow> bool" where
  "reader_wf r \<longleftrightarrow> (rd_pc r = ReadBody \<longrightarrow> 4 \<le> length (rd_body_buf r) \<and> length (rd_body_buf r) = unat (rd_length r))"

lemma length_resize_buf [simp]: "length (resize_buf n xs) = n"
  by (simp add: resize_buf_def)

lemma reader_wf_start: "reader_wf Reader_start"
  by (simp add: reader_wf_def Reader_start_def)

lemma reader_wf_step: "read_step r = Some (r', m) \<Longrightarrow> reader_wf r'"
  by (auto simp: read_step_def reader_wf_def Let_def word_less_nat_alt split: read_pc.splits if_splits)

lemma read_step_shorter:
  "read_step r = Some (r', m) \<Longrightarrow> reader_wf r \<Longrightarrow> length (rd_input r') < length (rd_input r)"
  by (auto simp: read_step_def reader_wf_def Let_def split: read_pc.splits if_splits)

text \<open>With as many turns as input bytes the loop gets as far as it can.\<close>

fun read_turns :: "nat \<Rightarrow> Reader \<Rightarrow> Reader \<times> bytes list" where
  "read_turns 0 r = (r, [])"
| "read_turns (Suc n) r =
     (case read_step r of
        None \<Rightarrow> (r, [])
      | Some (r', m) \<Rightarrow>
          (case read_turns n r' of (r'', ms) \<Rightarrow> (r'', (case m of None \<Rightarrow> [] | Some b \<Rightarrow> [b]) @ ms)))"

definition read_all :: "Reader \<Rightarrow> Reader \<times> bytes list" where
  "read_all r = read_turns (length (rd_input r)) r"

text \<open>More turns change nothing, and the loop obeys its natural recursion equation.\<close>

lemma read_turns_more:
  "reader_wf r \<Longrightarrow> length (rd_input r) \<le> n \<Longrightarrow> read_turns n r = read_turns (length (rd_input r)) r"
proof (induction n arbitrary: r rule: less_induct)
  case (less n)
  show ?case
  proof (cases "read_step r")
    case None
    then show ?thesis by (cases n; cases "length (rd_input r)") auto
  next
    case (Some x)
    obtain r' m where x: "x = (r', m)" by fastforce
    have wf: "reader_wf r'" and shorter: "length (rd_input r') < length (rd_input r)"
      using Some x reader_wf_step read_step_shorter less.prems(1) by blast+
    obtain k l where k: "n = Suc k" and l: "length (rd_input r) = Suc l"
      using shorter less.prems(2) by (cases n; cases "length (rd_input r)") auto
    have "read_turns k r' = read_turns (length (rd_input r')) r'"
      and "read_turns l r' = read_turns (length (rd_input r')) r'"
      using less.IH [of k r'] less.IH [of l r'] wf shorter less.prems(2) k l by auto
    then show ?thesis using Some x k l by simp
  qed
qed

lemma read_all_step:
  assumes "reader_wf r"
  shows "read_all r =
     (case read_step r of
        None \<Rightarrow> (r, [])
      | Some (r', m) \<Rightarrow> (case read_all r' of (r'', ms) \<Rightarrow> (r'', (case m of None \<Rightarrow> [] | Some b \<Rightarrow> [b]) @ ms)))"
proof (cases "read_step r")
  case None
  then show ?thesis by (cases "length (rd_input r)") (simp_all add: read_all_def)
next
  case (Some x)
  obtain r' m where x: "x = (r', m)" by fastforce
  have wf: "reader_wf r'" and shorter: "length (rd_input r') < length (rd_input r)"
    using Some x reader_wf_step read_step_shorter assms by blast+
  obtain l where l: "length (rd_input r) = Suc l" using shorter by (cases "length (rd_input r)") auto
  have "read_turns l r' = read_all r'"
    using read_turns_more [OF wf, of l] shorter l by (simp add: read_all_def)
  then show ?thesis using Some x l by (simp add: read_all_def)
qed

lemma read_all_induct [consumes 1, case_names step]:
  assumes "reader_wf r"
    and "\<And>r. reader_wf r \<Longrightarrow> (\<And>r' m. read_step r = Some (r', m) \<Longrightarrow> P r') \<Longrightarrow> P r"
  shows "P r"
  using assms(1)
proof (induction "length (rd_input r)" arbitrary: r rule: less_induct)
  case less
  show ?case
    using less.hyps less.prems assms(2) reader_wf_step read_step_shorter by meson
qed

lemma reader_wf_read_all: "reader_wf r \<Longrightarrow> reader_wf (fst (read_all r))"
proof (induction r rule: read_all_induct)
  case (step r)
  then show ?case by (subst read_all_step) (auto split: option.split prod.split)
qed

text \<open>The loop stops only when no read can complete.\<close>

lemma read_all_stuck: "reader_wf r \<Longrightarrow> read_step (fst (read_all r)) = None"
proof (induction r rule: read_all_induct)
  case (step r)
  then show ?case by (subst read_all_step) (auto split: option.split prod.split)
qed

subsection \<open>Arrival of bytes\<close>

definition arrive :: "bytes \<Rightarrow> Reader \<Rightarrow> Reader" where
  "arrive xs r = r\<lparr>rd_input := rd_input r @ xs\<rparr>"

lemma arrive_simps [simp]:
  "arrive [] r = r" "arrive ys (arrive xs r) = arrive (xs @ ys) r" "rd_input (arrive xs r) = rd_input r @ xs"
  "reader_wf (arrive xs r) = reader_wf r"
  by (simp_all add: arrive_def reader_wf_def)

definition receive :: "bytes \<Rightarrow> Reader \<Rightarrow> Reader \<times> bytes list" where
  "receive xs r = read_all (arrive xs r)"

fun receive_chunks :: "bytes list \<Rightarrow> Reader \<Rightarrow> Reader \<times> bytes list" where
  "receive_chunks [] r = (r, [])"
| "receive_chunks (xs # xss) r =
     (case receive xs r of (r1, ms1) \<Rightarrow> case receive_chunks xss r1 of (r2, ms2) \<Rightarrow> (r2, ms1 @ ms2))"

lemma read_step_arrive:
  "read_step r = Some (r', m) \<Longrightarrow> reader_wf r \<Longrightarrow> read_step (arrive xs r) = Some (arrive xs r', m)"
  by (auto simp: read_step_def arrive_def load_u32_def Let_def split: read_pc.splits if_splits)

lemma read_all_arrive:
  "reader_wf r \<Longrightarrow>
     read_all (arrive xs r) =
       (case read_all r of (r1, ms1) \<Rightarrow> case read_all (arrive xs r1) of (r2, ms2) \<Rightarrow> (r2, ms1 @ ms2))"
proof (induction r rule: read_all_induct)
  case (step r)
  show ?case
  proof (cases "read_step r")
    case None
    then have "read_all r = (r, [])" using step(1) by (simp add: read_all_step)
    then show ?thesis by (simp split: prod.split)
  next
    case (Some x)
    obtain r' m where x: "x = (r', m)" by fastforce
    have "reader_wf r'" using reader_wf_step Some x by blast
    then show ?thesis
      using step Some x read_step_arrive [of r r' m xs]
      by (simp add: read_all_step [of r] read_all_step [of "arrive xs r"] split: prod.split)
  qed
qed

lemma receive_chunks_concat:
  assumes "reader_wf r" and "read_step r = None"
  shows "receive_chunks xss r = receive (concat xss) r"
  using assms
proof (induction xss arbitrary: r)
  case Nil
  then show ?case by (simp add: receive_def read_all_step)
next
  case (Cons xs xss)
  obtain r1 ms1 where first: "receive xs r = (r1, ms1)" by fastforce
  have r1: "reader_wf r1" "read_step r1 = None"
    using first Cons.prems(1) reader_wf_read_all [of "arrive xs r"] read_all_stuck [of "arrive xs r"]
    by (simp_all add: receive_def)
  have "receive (concat (xs # xss)) r =
      (case read_all (arrive xs r) of (r1, ms1) \<Rightarrow>
        case read_all (arrive (concat xss) r1) of (r2, ms2) \<Rightarrow> (r2, ms1 @ ms2))"
    using read_all_arrive [of "arrive xs r" "concat xss"] Cons.prems(1) by (simp add: receive_def)
  then show ?case
    using first Cons.IH [OF r1] by (simp add: receive_def split: prod.split)
qed

text \<open>Nothing is read once the session is closed.\<close>

lemma receive_closed: "rd_pc r = ReadClosed \<Longrightarrow> receive xs r = (arrive xs r, [])"
proof -
  assume "rd_pc r = ReadClosed"
  then have "read_step (arrive xs r) = None" and "reader_wf (arrive xs r)"
    by (simp_all add: read_step_def arrive_def reader_wf_def)
  then show ?thesis by (simp add: receive_def read_all_step)
qed

subsection \<open>Frames\<close>

text \<open>The buffer \<open>DoWrite\<close> builds: the length as four bytes, then the message.\<close>

definition Session_frame :: "bytes \<Rightarrow> bytes" where
  "Session_frame msg = store_u32 (size_u32 msg) @ msg"

text \<open>A message the reader accepts: it carries a type, and its length fits the header.\<close>

definition framable :: "bytes \<Rightarrow> bool" where
  "framable msg \<longleftrightarrow> 4 \<le> length msg \<and> length msg < 2 ^ 32"

text \<open>A session between two messages.\<close>

definition at_header :: "Reader \<Rightarrow> bool" where
  "at_header r \<longleftrightarrow> rd_pc r = ReadHeader \<and> rd_input r = []"

lemma at_header_start: "at_header Reader_start"
  by (simp add: at_header_def Reader_start_def)

lemma at_header_idle: "at_header r \<Longrightarrow> reader_wf r \<and> read_step r = None"
  by (simp add: at_header_def reader_wf_def read_step_def)

lemma read_header:
  assumes "at_header r" and "framable msg"
  shows "read_step (arrive (Session_frame msg @ rest) r) =
     Some (r\<lparr>rd_length := size_u32 msg, rd_input := msg @ rest,
       rd_body_buf := resize_buf (length msg) (rd_body_buf r), rd_pc := ReadBody\<rparr>, None)"
proof -
  have exact: "unat (size_u32 msg) = length msg"
    using assms(2) by (simp add: framable_def codec_simps)
  then have "\<not> size_u32 msg < 4"
    using assms(2) by (simp add: framable_def word_less_nat_alt)
  then show ?thesis
    using assms exact by (simp add: read_step_def at_header_def arrive_def Session_frame_def codec_simps)
qed

lemma read_body:
  "rd_pc r = ReadBody \<Longrightarrow> rd_input r = msg @ rest \<Longrightarrow> length (rd_body_buf r) = length msg \<Longrightarrow>
     read_step r = Some (r\<lparr>rd_body_buf := msg, rd_input := rest, rd_pc := ReadHeader\<rparr>, Some msg)"
  by (simp add: read_step_def)

lemma receive_frame:
  assumes r: "at_header r" and msg: "framable msg"
  shows "receive (Session_frame msg @ rest) r =
     (case receive rest (r\<lparr>rd_length := size_u32 msg, rd_body_buf := msg\<rparr>) of (r', ms) \<Rightarrow> (r', msg # ms))"
proof -
  define r1 where "r1 = r\<lparr>rd_length := size_u32 msg, rd_input := msg @ rest,
       rd_body_buf := resize_buf (length msg) (rd_body_buf r), rd_pc := ReadBody\<rparr>"
  define r2 where "r2 = arrive rest (r\<lparr>rd_length := size_u32 msg, rd_body_buf := msg\<rparr>)"
  have wf: "reader_wf (arrive (Session_frame msg @ rest) r)" using at_header_idle [OF r] by simp
  have s1: "read_step (arrive (Session_frame msg @ rest) r) = Some (r1, None)"
    using read_header [OF r msg] by (simp add: r1_def)
  then have wf1: "reader_wf r1" by (rule reader_wf_step)
  have s2: "read_step r1 = Some (r2, Some msg)"
    using read_body [of r1 msg rest] r by (simp add: r1_def r2_def arrive_def at_header_def)
  show ?thesis
    unfolding receive_def r2_def [symmetric]
    using read_all_step [OF wf] read_all_step [OF wf1] s1 s2 by (simp split: prod.split)
qed

lemma receive_frames:
  assumes "at_header r" and "list_all framable msgs"
  shows "snd (receive (concat (map Session_frame msgs)) r) = msgs"
    and "at_header (fst (receive (concat (map Session_frame msgs)) r))"
proof -
  have "snd (receive (concat (map Session_frame msgs)) r) = msgs \<and>
      at_header (fst (receive (concat (map Session_frame msgs)) r))"
    using assms
  proof (induction msgs arbitrary: r)
    case Nil
    then show ?case using at_header_idle [of r] by (simp add: receive_def read_all_step)
  next
    case (Cons msg msgs)
    have "at_header (r\<lparr>rd_length := size_u32 msg, rd_body_buf := msg\<rparr>)"
      using Cons.prems(1) by (simp add: at_header_def)
    then show ?case
      using Cons.IH Cons.prems receive_frame [of r msg "concat (map Session_frame msgs)"]
      by (simp split: prod.split) fastforce
  qed
  then show "snd (receive (concat (map Session_frame msgs)) r) = msgs"
    and "at_header (fst (receive (concat (map Session_frame msgs)) r))" by simp_all
qed

text \<open>A length below four closes the session and nothing more is delivered.\<close>

lemma receive_short_length:
  assumes "at_header r" and "len < 4"
  shows "receive (store_u32 len @ rest) r =
     (r\<lparr>rd_length := len, rd_input := rest, rd_pc := ReadClosed\<rparr>, [])"
proof -
  have wf: "reader_wf (arrive (store_u32 len @ rest) r)" using at_header_idle assms(1) by simp
  define r1 where "r1 = r\<lparr>rd_length := len, rd_input := rest, rd_pc := ReadClosed\<rparr>"
  have s1: "read_step (arrive (store_u32 len @ rest) r) = Some (r1, None)"
    using assms by (simp add: read_step_def at_header_def arrive_def codec_simps r1_def)
  have "reader_wf r1" "read_step r1 = None"
    by (simp_all add: r1_def reader_wf_def read_step_def)
  then show ?thesis
    using read_all_step [OF wf] read_all_step [of r1] s1 by (simp add: receive_def r1_def)
qed

section \<open>Properties\<close>

text \<open>C29: Session reader. However a byte stream is cut into arrivals, the messages delivered and the state
  the reader ends in are those of the whole stream arriving at once.\<close>

theorem reader_chunk_independence:
  "receive_chunks xss Reader_start = receive (concat xss) Reader_start"
  by (rule receive_chunks_concat [OF reader_wf_start]) (simp add: at_header_idle [OF at_header_start])

text \<open>C30: Framing. When a stream is the concatenation of the frames of messages of at least four bytes, then
  in any cutting the reader delivers exactly these messages in order and ends at the next header.\<close>

theorem framing_round_trip:
  assumes "list_all framable msgs" and "concat chunks = concat (map Session_frame msgs)"
  shows "snd (receive_chunks chunks Reader_start) = msgs \<and> at_header (fst (receive_chunks chunks Reader_start))"
  using receive_frames [OF at_header_start assms(1)] receive_chunks_concat [OF reader_wf_start, of chunks]
    at_header_idle [OF at_header_start] assms(2) by simp

theorem framing_round_trip_witness:
  "snd (receive_chunks [[4, 0], [0, 0, 1, 2], [3, 4]] Reader_start) = [[1, 2, 3, 4]] \<and>
    at_header (fst (receive_chunks [[4, 0], [0, 0, 1, 2], [3, 4]] Reader_start))"
  by (rule framing_round_trip)
    (simp_all add: framable_def Session_frame_def store_u32_def size_u32_def le_encode_four)

end
