(* ===== verification/Session_Writer.thy ===== *)
theory Session_Writer
  imports Gateway_Session
begin

section \<open>Gateway sessions: the send queue\<close>

text \<open>
  The sending half of \<open>Gateway::Session\<close> (\<open>core/gateway.cpp\<close>): \<open>Send\<close> posts a closure to the
  executor of the socket, the closure appends to \<open>send_queue_\<close> and starts \<open>DoWrite\<close> unless a write is
  in progress, and every completed \<open>async_write\<close> calls \<open>DoWrite\<close> again. Here each handler runs as a
  whole, as it does when the \<open>io_context\<close> has one thread; \<open>Session_Race\<close> treats several threads.

  \<open>DoWrite\<close> passes \<open>asio::buffer(framed)\<close> and a lambda that captures \<open>std::move(framed)\<close> as arguments
  of one call. C++ leaves the order in which the two are evaluated unspecified, so the model takes
  it as a parameter: when the lambda comes first, \<open>framed\<close> is moved-from, hence empty, by the time
  \<open>asio::buffer\<close> looks at it. When the buffer comes first it keeps pointing at the bytes, which the
  move leaves in place.
\<close>

datatype arg_order = Buffer_first | Handler_first

record Writer =
  wr_send_queue :: "bytes list"
  wr_send_in_progress :: bool

definition Writer_new :: Writer where
  "Writer_new = \<lparr>wr_send_queue = [], wr_send_in_progress = False\<rparr>"

text \<open>\<open>DoWrite\<close>, with the buffer of the \<open>async_write\<close> it starts, if it starts one.\<close>

definition Session_DoWrite :: "arg_order \<Rightarrow> Writer \<Rightarrow> Writer \<times> bytes option" where
  "Session_DoWrite order w =
     (case wr_send_queue w of
        [] \<Rightarrow> (w\<lparr>wr_send_in_progress := False\<rparr>, None)
      | msg # queue \<Rightarrow>
          (w\<lparr>wr_send_queue := queue\<rparr>,
           Some (case order of Buffer_first \<Rightarrow> Session_frame msg | Handler_first \<Rightarrow> [])))"

text \<open>The closure \<open>Send\<close> posts.\<close>

definition Session_Send_task :: "arg_order \<Rightarrow> bytes \<Rightarrow> Writer \<Rightarrow> Writer \<times> bytes option" where
  "Session_Send_task order msg w =
     (let w1 = w\<lparr>wr_send_queue := wr_send_queue w @ [msg]\<rparr>
      in if \<not> wr_send_in_progress w1 then Session_DoWrite order (w1\<lparr>wr_send_in_progress := True\<rparr>)
         else (w1, None))"

text \<open>The completion handler of \<open>async_write\<close>; an error leaves the writer as it is.\<close>

definition Session_write_handler :: "arg_order \<Rightarrow> bool \<Rightarrow> Writer \<Rightarrow> Writer \<times> bytes option" where
  "Session_write_handler order ok w = (if \<not> ok then (w, None) else Session_DoWrite order w)"

subsection \<open>A session with its socket\<close>

text \<open>
  \<open>wn_posted\<close> are the messages of the closures posted and not run, \<open>wn_pending\<close> the buffers of the
  outstanding \<open>async_write\<close>s, \<open>wn_wire\<close> the bytes the socket has taken; \<open>wn_sent\<close> records every
  message \<open>Send\<close> was called with.
\<close>

record Writer_run =
  wn_writer :: Writer
  wn_posted :: "bytes list"
  wn_pending :: "bytes list"
  wn_wire :: bytes
  wn_failed :: bool
  wn_sent :: "bytes list"

definition Writer_run_new :: Writer_run where
  "Writer_run_new = \<lparr>wn_writer = Writer_new, wn_posted = [], wn_pending = [], wn_wire = [],
     wn_failed = False, wn_sent = []\<rparr>"

definition Session_Send :: "bytes \<Rightarrow> Writer_run \<Rightarrow> Writer_run" where
  "Session_Send msg s = s\<lparr>wn_posted := wn_posted s @ [msg], wn_sent := wn_sent s @ [msg]\<rparr>"

text \<open>Storing what a handler returned: the writer, and the write it started.\<close>

definition started :: "Writer \<times> bytes option \<Rightarrow> Writer_run \<Rightarrow> Writer_run" where
  "started r s = s\<lparr>wn_writer := fst r,
     wn_pending := wn_pending s @ (case snd r of None \<Rightarrow> [] | Some buf \<Rightarrow> [buf])\<rparr>"

text \<open>The turns of the executor: a posted closure, a write that completes.\<close>

inductive writer_turn :: "arg_order \<Rightarrow> Writer_run \<Rightarrow> Writer_run \<Rightarrow> bool" for order where
  run: "wn_posted s = msg # posted \<Longrightarrow>
     writer_turn order s (started (Session_Send_task order msg (wn_writer s)) (s\<lparr>wn_posted := posted\<rparr>))"
| complete: "wn_pending s = buf # bufs \<Longrightarrow>
     writer_turn order s (started (Session_write_handler order True (wn_writer s))
       (s\<lparr>wn_pending := bufs, wn_wire := wn_wire s @ buf\<rparr>))"

text \<open>All steps: also \<open>Send\<close>, and a write that fails after any number of its bytes.\<close>

inductive writer_step :: "arg_order \<Rightarrow> Writer_run \<Rightarrow> Writer_run \<Rightarrow> bool" for order where
  turn: "writer_turn order s s' \<Longrightarrow> writer_step order s s'"
| send: "writer_step order s (Session_Send msg s)"
| fail: "wn_pending s = buf # bufs \<Longrightarrow>
     writer_step order s (started (Session_write_handler order False (wn_writer s))
       (s\<lparr>wn_pending := bufs, wn_wire := wn_wire s @ take n buf, wn_failed := True\<rparr>))"

inductive_cases writer_turnE: "writer_turn order s s'"

inductive writer_reachable :: "arg_order \<Rightarrow> Writer_run \<Rightarrow> bool" for order where
  start: "writer_reachable order Writer_run_new"
| step: "writer_reachable order s \<Longrightarrow> writer_step order s s' \<Longrightarrow> writer_reachable order s'"

lemmas writer_handlers = Session_DoWrite_def Session_Send_task_def Session_write_handler_def started_def Let_def

subsection \<open>The buffer is evaluated first\<close>

abbreviation frames :: "bytes list \<Rightarrow> bytes" where
  "frames msgs \<equiv> concat (map Session_frame msgs)"

text \<open>Without a failure at most one write is outstanding and no byte is lost, added or reordered.\<close>

definition writer_ok :: "Writer_run \<Rightarrow> bool" where
  "writer_ok s \<longleftrightarrow>
     length (wn_pending s) = (if wr_send_in_progress (wn_writer s) then 1 else 0) \<and>
     (\<not> wr_send_in_progress (wn_writer s) \<longrightarrow> wr_send_queue (wn_writer s) = []) \<and>
     wn_wire s @ concat (wn_pending s) @ frames (wr_send_queue (wn_writer s)) @ frames (wn_posted s) = frames (wn_sent s)"

text \<open>After a failure nothing is written any more, and what was is a prefix of what was to be sent.\<close>

definition writer_stopped :: "Writer_run \<Rightarrow> bool" where
  "writer_stopped s \<longleftrightarrow> wn_pending s = [] \<and> wr_send_in_progress (wn_writer s) \<and>
     (\<exists>lost. wn_wire s @ lost = frames (wn_sent s))"

definition writer_inv :: "Writer_run \<Rightarrow> bool" where
  "writer_inv s \<longleftrightarrow> (if wn_failed s then writer_stopped s else writer_ok s)"

lemma one_pending: "length xs = (if c then 1 else 0) \<Longrightarrow> xs = b # bs \<Longrightarrow> c \<and> bs = []"
  by (simp split: if_splits)

lemma writer_ok_run:
  assumes "writer_ok s" and "wn_posted s = msg # posted"
  shows "writer_ok (started (Session_Send_task Buffer_first msg (wn_writer s)) (s\<lparr>wn_posted := posted\<rparr>))"
  using assms by (auto simp: writer_ok_def writer_handlers split: if_splits)

lemma writer_ok_complete:
  assumes "writer_ok s" and "wn_pending s = buf # bufs"
  shows "writer_ok (started (Session_write_handler Buffer_first True (wn_writer s))
       (s\<lparr>wn_pending := bufs, wn_wire := wn_wire s @ buf\<rparr>))"
  using assms by (auto simp: writer_ok_def writer_handlers split: if_splits list.split)

lemma writer_ok_send: "writer_ok s \<Longrightarrow> writer_ok (Session_Send msg s)"
  by (simp add: writer_ok_def Session_Send_def flip: append_assoc)

lemma writer_ok_fail:
  assumes "writer_ok s" and "wn_pending s = buf # bufs"
  shows "writer_stopped (started (Session_write_handler Buffer_first False (wn_writer s))
       (s\<lparr>wn_pending := bufs, wn_wire := wn_wire s @ take n buf, wn_failed := True\<rparr>))"
proof -
  have "wn_wire s @ buf @ frames (wr_send_queue (wn_writer s)) @ frames (wn_posted s) = frames (wn_sent s)"
    using assms by (auto simp: writer_ok_def split: if_splits)
  then have "(wn_wire s @ take n buf) @ drop n buf @ frames (wr_send_queue (wn_writer s)) @ frames (wn_posted s)
      = frames (wn_sent s)"
    by (metis append.assoc append_take_drop_id)
  then show ?thesis
    using assms by (auto simp: writer_stopped_def writer_ok_def writer_handlers split: if_splits)
qed

lemma writer_stopped_run:
  "writer_stopped s \<Longrightarrow> writer_stopped (started (Session_Send_task Buffer_first msg (wn_writer s)) (s\<lparr>wn_posted := posted\<rparr>))"
  by (simp add: writer_stopped_def writer_handlers)

lemma writer_stopped_send:
  assumes "writer_stopped s"
  shows "writer_stopped (Session_Send msg s)"
proof -
  obtain lost where "wn_wire s @ lost = frames (wn_sent s)" using assms by (auto simp: writer_stopped_def)
  then have "wn_wire s @ lost @ Session_frame msg = frames (wn_sent s @ [msg])" by (simp flip: append_assoc)
  then have "\<exists>lost. wn_wire s @ lost = frames (wn_sent s @ [msg])" by blast
  then show ?thesis using assms unfolding writer_stopped_def Session_Send_def by simp
qed

lemma failed_started [simp]: "wn_failed (started r s) = wn_failed s" "wn_failed (Session_Send msg s) = wn_failed s"
  "wn_sent (started r s) = wn_sent s"
  by (simp_all add: started_def Session_Send_def)

lemma writer_stopped_pending: "writer_stopped s \<Longrightarrow> wn_pending s = []"
  by (simp add: writer_stopped_def)

lemma writer_inv_turn:
  assumes inv: "writer_inv s" and step: "writer_turn Buffer_first s s'"
  shows "writer_inv s'"
  using step
proof (cases rule: writer_turn.cases)
  case (run msg posted)
  then show ?thesis using inv writer_ok_run writer_stopped_run by (simp add: writer_inv_def)
next
  case (complete buf bufs)
  then have "\<not> wn_failed s" using inv writer_stopped_pending by (auto simp: writer_inv_def)
  then show ?thesis using complete inv writer_ok_complete by (simp add: writer_inv_def)
qed

lemma writer_inv_step:
  assumes inv: "writer_inv s" and step: "writer_step Buffer_first s s'"
  shows "writer_inv s'"
  using step
proof (cases rule: writer_step.cases)
  case turn
  then show ?thesis using inv writer_inv_turn by blast
next
  case (send msg)
  then show ?thesis using inv writer_ok_send writer_stopped_send by (simp add: writer_inv_def)
next
  case (fail buf bufs n)
  then have "\<not> wn_failed s" using inv writer_stopped_pending by (auto simp: writer_inv_def)
  then show ?thesis using fail inv writer_ok_fail by (simp add: writer_inv_def)
qed

lemma writer_inv_reachable: "writer_reachable Buffer_first s \<Longrightarrow> writer_inv s"
proof (induction rule: writer_reachable.induct)
  case start
  then show ?case by (simp add: writer_inv_def writer_ok_def Writer_run_new_def Writer_new_def)
qed (rule writer_inv_step)

subsection \<open>The queue drains\<close>

definition writer_work :: "Writer_run \<Rightarrow> nat" where
  "writer_work s = 3 * length (wn_posted s) + 2 * length (wr_send_queue (wn_writer s)) + length (wn_pending s)"

lemma append_singleton_length: "xs @ [x] = y # ys \<Longrightarrow> length ys = length xs"
  by (drule arg_cong [of _ _ length]) simp

lemma writer_turn_decreases: "writer_turn order s s' \<Longrightarrow> writer_work s' < writer_work s"
  by (erule writer_turnE) (auto simp: writer_work_def writer_handlers dest: append_singleton_length split: list.split)

lemma writer_turn_sent: "writer_turn order s s' \<Longrightarrow> wn_sent s' = wn_sent s \<and> wn_failed s' = wn_failed s"
  by (erule writer_turnE) simp_all

definition writer_idle :: "Writer_run \<Rightarrow> bool" where
  "writer_idle s \<longleftrightarrow> wn_posted s = [] \<and> wn_pending s = []"

lemma writer_turn_exists: "\<not> writer_idle s \<Longrightarrow> \<exists>s'. writer_turn order s s'"
  by (cases "wn_posted s"; cases "wn_pending s") (auto simp: writer_idle_def intro: writer_turn.intros)

lemma writer_drains:
  "\<exists>s'. (writer_turn order)\<^sup>*\<^sup>* s s' \<and> writer_idle s'"
proof (induction "writer_work s" arbitrary: s rule: less_induct)
  case less
  show ?case
  proof (cases "writer_idle s")
    case False
    then obtain s1 where s1: "writer_turn order s s1" using writer_turn_exists by blast
    then obtain s' where "(writer_turn order)\<^sup>*\<^sup>* s1 s'" "writer_idle s'"
      using less writer_turn_decreases by blast
    then show ?thesis using s1 by (meson converse_rtranclp_into_rtranclp)
  qed auto
qed

lemma writer_turns_keep:
  "(writer_turn order)\<^sup>*\<^sup>* s s' \<Longrightarrow> wn_sent s' = wn_sent s \<and> wn_failed s' = wn_failed s"
  by (induction rule: rtranclp_induct) (simp_all add: writer_turn_sent)

lemma writer_turns_reachable:
  "(writer_turn order)\<^sup>*\<^sup>* s s' \<Longrightarrow> writer_reachable order s \<Longrightarrow> writer_reachable order s'"
  by (induction rule: rtranclp_induct) (auto intro: writer_reachable.step writer_step.turn)

lemma writer_idle_wire:
  "writer_ok s \<Longrightarrow> writer_idle s \<Longrightarrow> wn_wire s = frames (wn_sent s)"
  by (auto simp: writer_ok_def writer_idle_def split: if_splits)

lemma writer_flush:
  assumes "writer_reachable Buffer_first s" and "\<not> wn_failed s"
  shows "\<exists>s'. (writer_turn Buffer_first)\<^sup>*\<^sup>* s s' \<and> writer_idle s' \<and> wn_wire s' = frames (wn_sent s)"
proof -
  obtain s' where s': "(writer_turn Buffer_first)\<^sup>*\<^sup>* s s'" "writer_idle s'"
    using writer_drains by blast
  have keep: "wn_sent s' = wn_sent s" "\<not> wn_failed s'" using writer_turns_keep [OF s'(1)] assms(2) by simp_all
  then have "writer_ok s'"
    using writer_inv_reachable [OF writer_turns_reachable [OF s'(1) assms(1)]] by (simp add: writer_inv_def)
  then show ?thesis using writer_idle_wire [of s'] s' keep by auto
qed

subsection \<open>The handler is evaluated first\<close>




section \<open>Properties\<close>

text \<open>C31: Session writer, on one thread and with the buffer of \<open>async_write\<close> evaluated before the lambda. Until
  a write fails, at most one write is outstanding; the bytes on the wire, then those outstanding,
  queued and posted are the frames of the messages sent, in order; and the executor can always run
  on until all of them are on the wire.\<close>

theorem writer_delivers:
  assumes "writer_reachable Buffer_first s" and "\<not> wn_failed s"
  shows "length (wn_pending s) \<le> 1 \<and>
      wn_wire s @ concat (wn_pending s) @ concat (map Session_frame (wr_send_queue (wn_writer s) @ wn_posted s)) =
        concat (map Session_frame (wn_sent s)) \<and>
      (\<exists>s'. (writer_turn Buffer_first)\<^sup>*\<^sup>* s s' \<and> writer_idle s' \<and>
         wn_wire s' = concat (map Session_frame (wn_sent s)))"
  using writer_inv_reachable [OF assms(1)] writer_flush [OF assms] assms(2) by (simp add: writer_inv_def writer_ok_def)

theorem writer_delivers_witness:
  "let s = Session_Send [1, 2, 3, 4] Writer_run_new in
      length (wn_pending s) \<le> 1 \<and>
      wn_wire s @ concat (wn_pending s) @ concat (map Session_frame (wr_send_queue (wn_writer s) @ wn_posted s)) =
        concat (map Session_frame (wn_sent s)) \<and>
      (\<exists>s'. (writer_turn Buffer_first)\<^sup>*\<^sup>* s s' \<and> writer_idle s' \<and>
         wn_wire s' = concat (map Session_frame (wn_sent s)))"
  unfolding Let_def
  by (rule writer_delivers [OF writer_reachable.step [OF writer_reachable.start writer_step.send]])
    (simp add: Session_Send_def Writer_run_new_def)



end
