(* ===== verification/Session_Race.thy ===== *)
theory Session_Race
  imports Session_Writer
begin

section \<open>Gateway sessions: the send queue with several io threads\<close>

text \<open>
  \<open>Gateway::Session::Send\<close> posts to \<open>socket_.get_executor()\<close>, the executor of the \<open>io_context\<close>
  itself and not a strand, and \<open>main\<close> runs that context on \<open>thread_num\<close> threads. Two handlers of one
  session may therefore run at once. Here the handlers of \<open>Session_Writer\<close> are cut at the accesses to
  \<open>send_queue_\<close> and \<open>send_in_progress_\<close>, and up to \<open>n\<close> of them are active at a time. (Unsynchronised
  access is undefined behaviour in C++; interleaving whole accesses is the mildest reading of it.)
\<close>

datatype race_pc = At_push bytes | At_check | At_set | At_write

record Race =
  ra_queue :: "bytes list"
  ra_flag :: bool
  ra_posted :: "bytes list"
  ra_active :: "race_pc list"
  ra_pending :: "bytes list"

definition Race_new :: Race where
  "Race_new = \<lparr>ra_queue = [], ra_flag = False, ra_posted = [], ra_active = [], ra_pending = []\<rparr>"

text \<open>One access of an active handler, and where it is afterwards.\<close>

fun race_exec :: "race_pc \<Rightarrow> Race \<Rightarrow> Race \<times> race_pc list" where
  "race_exec (At_push msg) s = (s\<lparr>ra_queue := ra_queue s @ [msg]\<rparr>, [At_check])"
| "race_exec At_check s = (s, if \<not> ra_flag s then [At_set] else [])"
| "race_exec At_set s = (s\<lparr>ra_flag := True\<rparr>, [At_write])"
| "race_exec At_write s =
     (case ra_queue s of
        [] \<Rightarrow> (s\<lparr>ra_flag := False\<rparr>, [])
      | msg # queue \<Rightarrow>
          (s\<lparr>ra_queue := queue, ra_pending := ra_pending s @ [Session_frame msg]\<rparr>, []))"

inductive race_step :: "nat \<Rightarrow> Race \<Rightarrow> Race \<Rightarrow> bool" for n where
  post: "race_step n s (s\<lparr>ra_posted := ra_posted s @ [msg]\<rparr>)"
| pick: "ra_posted s = msg # posted \<Longrightarrow> length (ra_active s) < n \<Longrightarrow>
     race_step n s (s\<lparr>ra_posted := posted, ra_active := ra_active s @ [At_push msg]\<rparr>)"
| written: "ra_pending s = buf # bufs \<Longrightarrow> length (ra_active s) < n \<Longrightarrow>
     race_step n s (s\<lparr>ra_pending := bufs, ra_active := ra_active s @ [At_write]\<rparr>)"
| exec: "ra_active s = before @ pc # after \<Longrightarrow> race_exec pc s = (s', pcs) \<Longrightarrow>
     race_step n s (s'\<lparr>ra_active := before @ pcs @ after\<rparr>)"

inductive_cases race_stepE: "race_step n s s'"

inductive race_reachable :: "nat \<Rightarrow> Race \<Rightarrow> bool" for n where
  start: "race_reachable n Race_new"
| step: "race_reachable n s \<Longrightarrow> race_step n s s' \<Longrightarrow> race_reachable n s'"

subsection \<open>One thread: handlers run one after the other\<close>

text \<open>What the flag says, by the point the only active handler has reached.\<close>

definition race_point_ok :: "Race \<Rightarrow> race_pc \<Rightarrow> bool" where
  "race_point_ok s pc \<longleftrightarrow>
     (case pc of
        At_set \<Rightarrow> \<not> ra_flag s \<and> ra_pending s = []
      | At_write \<Rightarrow> ra_flag s \<and> ra_pending s = []
      | _ \<Rightarrow> length (ra_pending s) = (if ra_flag s then 1 else 0))"

definition race_inv :: "Race \<Rightarrow> bool" where
  "race_inv s \<longleftrightarrow>
     (case ra_active s of
        [] \<Rightarrow> length (ra_pending s) = (if ra_flag s then 1 else 0)
      | [pc] \<Rightarrow> race_point_ok s pc
      | _ \<Rightarrow> False)"

lemma race_inv_exec:
  "race_inv s \<Longrightarrow> ra_active s = before @ pc # after \<Longrightarrow> race_exec pc s = (s', pcs) \<Longrightarrow>
     race_inv (s'\<lparr>ra_active := before @ pcs @ after\<rparr>)"
  by (cases pc; cases before; cases after)
    (auto simp: race_inv_def race_point_ok_def split: list.splits if_splits)

lemma race_inv_step:
  assumes inv: "race_inv s" and step: "race_step 1 s s'"
  shows "race_inv s'"
  using step
proof (cases rule: race_step.cases)
  case (post msg)
  then show ?thesis
    using inv by (cases "ra_active s") (auto simp: race_inv_def race_point_ok_def split: list.splits race_pc.splits)
next
  case (pick msg posted)
  then show ?thesis using inv by (simp add: race_inv_def race_point_ok_def split: if_splits)
next
  case (written buf bufs)
  then show ?thesis using inv by (simp add: race_inv_def race_point_ok_def split: if_splits)
next
  case (exec before pc after s1 pcs)
  then show ?thesis using inv race_inv_exec by simp
qed

lemma race_inv_reachable: "race_reachable 1 s \<Longrightarrow> race_inv s"
proof (induction rule: race_reachable.induct)
  case start
  then show ?case by (simp add: race_inv_def Race_new_def)
qed (rule race_inv_step)

lemma race_inv_pending: "race_inv s \<Longrightarrow> length (ra_pending s) \<le> 1"
  by (auto simp: race_inv_def race_point_ok_def split: list.splits race_pc.splits if_splits)

lemma race_none: "race_reachable 0 s \<Longrightarrow> ra_active s = [] \<and> ra_pending s = []"
proof (induction rule: race_reachable.induct)
  case start
  then show ?case by (simp add: Race_new_def)
next
  case (step s s')
  then show ?case by (auto elim!: race_stepE)
qed

subsection \<open>Two threads: both see the flag down\<close>

text \<open>
  Two closures push, both test \<open>send_in_progress_\<close> before either sets it, and both start a write.
\<close>

definition race_both :: "race_pc list \<Rightarrow> Race" where
  "race_both pcs = \<lparr>ra_queue = [[0], [1]], ra_flag = False, ra_posted = [], ra_active = pcs, ra_pending = []\<rparr>"

definition race_two_writes :: Race where
  "race_two_writes = \<lparr>ra_queue = [], ra_flag = True, ra_posted = [], ra_active = [],
     ra_pending = [Session_frame [0], Session_frame [1]]\<rparr>"

lemma race_exec_at:
  assumes "race_reachable n s" and "ra_active s = before @ pc # after"
    and "(fst (race_exec pc s))\<lparr>ra_active := before @ snd (race_exec pc s) @ after\<rparr> = s'"
  shows "race_reachable n s'"
  using race_reachable.step [OF assms(1) race_step.exec [OF assms(2) prod.collapse [symmetric]]] assms(3) by simp

lemma race_pushed:
  assumes "2 \<le> n"
  shows "race_reachable n (race_both [At_check, At_check])"
proof -
  have r1: "race_reachable n (Race_new\<lparr>ra_posted := [[0]]\<rparr>)"
    using race_reachable.step [OF race_reachable.start race_step.post [of n Race_new "[0]"]]
    by (simp add: Race_new_def)
  have r2: "race_reachable n (Race_new\<lparr>ra_posted := [[0], [1]]\<rparr>)"
    using race_reachable.step [OF r1 race_step.post [of n _ "[1]"]] by simp
  have r3: "race_reachable n (Race_new\<lparr>ra_posted := [[1]], ra_active := [At_push [0]]\<rparr>)"
    using race_reachable.step [OF r2 race_step.pick [of _ "[0]" "[[1]]"]] assms by (simp add: Race_new_def)
  have r4: "race_reachable n (Race_new\<lparr>ra_posted := [], ra_active := [At_push [0], At_push [1]]\<rparr>)"
    using race_reachable.step [OF r3 race_step.pick [of _ "[1]" "[]"]] assms by (simp add: Race_new_def)
  have r5: "race_reachable n (Race_new\<lparr>ra_posted := [], ra_queue := [[0]], ra_active := [At_check, At_push [1]]\<rparr>)"
    by (rule race_exec_at [OF r4, where before = "[]"], simp add: Race_new_def, simp add: Race_new_def)
  show ?thesis
    by (rule race_exec_at [OF r5, where before = "[At_check]"], simp add: Race_new_def race_both_def, simp add: Race_new_def race_both_def)
qed

lemma race_collides:
  assumes "2 \<le> n"
  shows "race_reachable n race_two_writes"
proof -
  have r1: "race_reachable n (race_both [At_set, At_check])"
    by (rule race_exec_at [OF race_pushed [OF assms], where before = "[]"], simp add: race_both_def, simp add: race_both_def)
  have r2: "race_reachable n (race_both [At_set, At_set])"
    by (rule race_exec_at [OF r1, where before = "[At_set]"], simp add: race_both_def, simp add: race_both_def)
  have r3: "race_reachable n ((race_both [At_write, At_set])\<lparr>ra_flag := True\<rparr>)"
    by (rule race_exec_at [OF r2, where before = "[]"], simp add: race_both_def, simp add: race_both_def)
  have r4: "race_reachable n ((race_both [At_write, At_write])\<lparr>ra_flag := True\<rparr>)"
    by (rule race_exec_at [OF r3, where before = "[At_write]"], simp add: race_both_def, simp add: race_both_def)
  have r5: "race_reachable n ((race_both [At_write])\<lparr>ra_flag := True, ra_queue := [[1]],
      ra_pending := [Session_frame [0]]\<rparr>)"
    by (rule race_exec_at [OF r4, where before = "[]"], simp add: race_both_def, simp add: race_both_def)
  show ?thesis
    by (rule race_exec_at [OF r5, where before = "[]"], simp add: race_both_def race_two_writes_def, simp add: race_both_def race_two_writes_def)
qed

lemma race_free_iff:
  "(\<forall>s. race_reachable n s \<longrightarrow> length (ra_pending s) \<le> 1) \<longleftrightarrow> n \<le> 1"
proof
  assume single: "\<forall>s. race_reachable n s \<longrightarrow> length (ra_pending s) \<le> 1"
  show "n \<le> 1"
  proof (rule ccontr)
    assume "\<not> n \<le> 1"
    then have "race_reachable n race_two_writes" using race_collides by simp
    then show False using single by (fastforce simp: race_two_writes_def)
  qed
next
  assume "n \<le> 1"
  then consider "n = 0" | "n = 1" by linarith
  then show "\<forall>s. race_reachable n s \<longrightarrow> length (ra_pending s) \<le> 1"
    using race_inv_pending race_inv_reachable by cases (auto simp: race_none)
qed

section \<open>Properties\<close>

text \<open>C33: Session writer on several threads. The rule that a socket has at most one outstanding
  \<open>async_write\<close> holds in every interleaving of the handlers exactly when at most one thread runs
  them: \<open>Send\<close> posts to the executor of the \<open>io_context\<close> and not to a strand, and two threads can both
  see \<open>send_in_progress_\<close> false.\<close>

theorem writer_single_write_iff:
  "(\<forall>s. race_reachable n s \<longrightarrow> length (ra_pending s) \<le> 1) \<longleftrightarrow> n \<le> 1"
  by (rule race_free_iff)

theorem writer_single_write_iff_witness: "\<not> (\<forall>s. race_reachable 4 s \<longrightarrow> length (ra_pending s) \<le> 1)"
  using writer_single_write_iff [of 4] by simp

end
