(* ===== verification/Storage_Locking.thy ===== *)
theory Storage_Locking
  imports Component_Storage Threads "HOL-Library.Multiset"
begin

section \<open>The component storage: locking\<close>

text \<open>
  The methods of \<open>core/component_storage.cpp\<close> cut at their lock operations, run by any number of
  threads. \<open>map_mutex_\<close> is shared by \<open>Read\<close>, \<open>Write\<close> and \<open>Remove\<close> and exclusive in \<open>RemoveAll\<close> and
  in the part of \<open>Write\<close> that creates an entry. Entries are owned by \<open>unique_ptr\<close>s in the table, so
  they have an address, and erasing one frees it.

  An access to an entry happens under its own mutex and is one step here, with the release of the
  locks that follows it. The point of the model is the map lock: \<open>Write\<close> releases it after it has
  created an entry and before it uses the entry, and \<open>RemoveAll\<close> may free the entry in between.
\<close>

datatype locked_op =
    L_Read u64 ComponentType
  | L_Write u64 ComponentType ComponentData
  | L_Remove u64 ComponentType
  | L_RemoveAll u64

datatype op_result = Got "ComponentData option" | Wrote | Removed bool | Cleared

primrec op_id :: "locked_op \<Rightarrow> u64" where
  "op_id (L_Read i t) = i"
| "op_id (L_Write i t d) = i"
| "op_id (L_Remove i t) = i"
| "op_id (L_RemoveAll i) = i"

primrec is_write :: "locked_op \<Rightarrow> bool" where
  "is_write (L_Read i t) = False"
| "is_write (L_Write i t d) = True"
| "is_write (L_Remove i t) = False"
| "is_write (L_RemoveAll i) = False"

primrec is_remove_all :: "locked_op \<Rightarrow> bool" where
  "is_remove_all (L_Read i t) = False"
| "is_remove_all (L_Write i t d) = False"
| "is_remove_all (L_Remove i t) = False"
| "is_remove_all (L_RemoveAll i) = True"

text \<open>The sequential meaning of a call, by the methods of \<open>Component_Storage\<close>.\<close>

fun op_run :: "locked_op \<Rightarrow> ComponentStorage \<Rightarrow> op_result \<times> ComponentStorage" where
  "op_run (L_Read i t) cs = (Got (ComponentStorage_Read cs i t (\<lambda>data. data)), cs)"
| "op_run (L_Write i t d) cs = (Wrote, ComponentStorage_Write i t d cs)"
| "op_run (L_Remove i t) cs = (case ComponentStorage_Remove i t cs of (found, cs') \<Rightarrow> (Removed found, cs'))"
| "op_run (L_RemoveAll i) cs = (Cleared, ComponentStorage_RemoveAll i cs)"

subsection \<open>Threads\<close>

text \<open>
  Where a call is: before taking \<open>map_mutex_\<close>, before \<open>store_.find\<close>, before retaking the mutex to
  create an entry, creating it, at an entry (with or without the shared lock), erasing an entry.
\<close>

datatype lock_pc = Lock_map | Find | Lock_unique | Insert | Access nat bool | Erase nat

type_synonym storage_thread = "locked_op \<times> lock_pc"

record Locked_storage =
  lk_store :: "(u64, nat) umap"
  lk_heap :: "(nat, ObjectComponents) umap"
  lk_fresh :: nat
  lk_shared :: nat
  lk_unique :: bool
  lk_bad :: bool
  lk_history :: "(locked_op \<times> op_result) list"

definition Locked_new :: Locked_storage where
  "Locked_new = \<lparr>lk_store = um_empty, lk_heap = um_empty, lk_fresh = 0, lk_shared = 0, lk_unique = False,
     lk_bad = False, lk_history = []\<rparr>"

text \<open>A call returns: its result is recorded and the map lock released.\<close>

definition finish_shared :: "locked_op \<Rightarrow> op_result \<Rightarrow> Locked_storage \<Rightarrow> Locked_storage" where
  "finish_shared x r s = s\<lparr>lk_shared := lk_shared s - 1, lk_history := lk_history s @ [(x, r)]\<rparr>"

definition finish_unique :: "locked_op \<Rightarrow> op_result \<Rightarrow> Locked_storage \<Rightarrow> Locked_storage" where
  "finish_unique x r s = s\<lparr>lk_unique := False, lk_history := lk_history s @ [(x, r)]\<rparr>"

definition finish_free :: "locked_op \<Rightarrow> op_result \<Rightarrow> Locked_storage \<Rightarrow> Locked_storage" where
  "finish_free x r s = s\<lparr>lk_history := lk_history s @ [(x, r)]\<rparr>"

definition finish :: "bool \<Rightarrow> locked_op \<Rightarrow> op_result \<Rightarrow> Locked_storage \<Rightarrow> Locked_storage" where
  "finish shared x r s = (if shared then finish_shared x r s else finish_free x r s)"

definition lock_map :: "locked_op \<Rightarrow> Locked_storage \<Rightarrow> (Locked_storage \<times> lock_pc option) option" where
  "lock_map x s =
     (if is_remove_all x then
        (if lk_unique s \<or> 0 < lk_shared s then None else Some (s\<lparr>lk_unique := True\<rparr>, Some Find))
      else if lk_unique s then None else Some (s\<lparr>lk_shared := lk_shared s + 1\<rparr>, Some Find))"

definition find_entry :: "locked_op \<Rightarrow> Locked_storage \<Rightarrow> Locked_storage \<times> lock_pc option" where
  "find_entry x s =
     (case um_find (lk_store s) (op_id x) of
        None \<Rightarrow>
          (case x of
             L_Read _ _ \<Rightarrow> (finish_shared x (Got None) s, None)
           | L_Write _ _ _ \<Rightarrow> (s\<lparr>lk_shared := lk_shared s - 1\<rparr>, Some Lock_unique)
           | L_Remove _ _ \<Rightarrow> (finish_shared x (Removed False) s, None)
           | L_RemoveAll _ \<Rightarrow> (finish_unique x Cleared s, None))
      | Some a \<Rightarrow> (s, Some (if is_remove_all x then Erase a else Access a True)))"

definition insert_entry :: "locked_op \<Rightarrow> Locked_storage \<Rightarrow> Locked_storage \<times> lock_pc option" where
  "insert_entry x s =
     (case um_find (lk_store s) (op_id x) of
        None \<Rightarrow>
          (s\<lparr>lk_store := um_assign (op_id x) (lk_fresh s) (lk_store s),
             lk_heap := um_assign (lk_fresh s) ObjectComponents_new (lk_heap s),
             lk_fresh := Suc (lk_fresh s), lk_unique := False\<rparr>, Some (Access (lk_fresh s) False))
      | Some a \<Rightarrow> (s\<lparr>lk_unique := False\<rparr>, Some (Access a False)))"

text \<open>An access to a freed entry is recorded in \<open>lk_bad\<close>; C++ gives it no meaning.\<close>

definition access_entry :: "locked_op \<Rightarrow> nat \<Rightarrow> bool \<Rightarrow> Locked_storage \<Rightarrow> Locked_storage" where
  "access_entry x a shared s =
     (case um_find (lk_heap s) a of
        None \<Rightarrow> (if shared then s\<lparr>lk_bad := True, lk_shared := lk_shared s - 1\<rparr> else s\<lparr>lk_bad := True\<rparr>)
      | Some obj \<Rightarrow>
          (case x of
             L_Read i t \<Rightarrow> finish shared x (Got (um_find (oc_components obj) t)) s
           | L_Write i t d \<Rightarrow>
               finish shared x Wrote (s\<lparr>lk_heap := um_assign a (obj\<lparr>oc_components := um_assign t d (oc_components obj)\<rparr>) (lk_heap s)\<rparr>)
           | L_Remove i t \<Rightarrow>
               finish shared x (Removed (um_find (oc_components obj) t \<noteq> None))
                 (s\<lparr>lk_heap := um_assign a (obj\<lparr>oc_components := um_erase t (oc_components obj)\<rparr>) (lk_heap s)\<rparr>)
           | L_RemoveAll i \<Rightarrow> s))"

definition erase_entry :: "locked_op \<Rightarrow> nat \<Rightarrow> Locked_storage \<Rightarrow> Locked_storage" where
  "erase_entry x a s =
     finish_unique x Cleared (s\<lparr>lk_store := um_erase (op_id x) (lk_store s), lk_heap := um_erase a (lk_heap s)\<rparr>)"

text \<open>One step of a thread; \<open>None\<close> when it has to wait for \<open>map_mutex_\<close>.\<close>

fun lock_exec :: "locked_op \<Rightarrow> lock_pc \<Rightarrow> Locked_storage \<Rightarrow> (Locked_storage \<times> lock_pc option) option" where
  "lock_exec x Lock_map s = lock_map x s"
| "lock_exec x Find s = Some (find_entry x s)"
| "lock_exec x Lock_unique s =
     (if lk_unique s \<or> 0 < lk_shared s then None else Some (s\<lparr>lk_unique := True\<rparr>, Some Insert))"
| "lock_exec x Insert s = Some (insert_entry x s)"
| "lock_exec x (Access a shared) s = Some (access_entry x a shared s, None)"
| "lock_exec x (Erase a) s = Some (erase_entry x a s, None)"

inductive lock_step ::
  "Locked_storage \<times> storage_thread list \<Rightarrow> Locked_storage \<times> storage_thread list \<Rightarrow> bool" where
  "lock_exec x pc s = Some (s', pc') \<Longrightarrow>
     lock_step (s, before @ (x, pc) # after)
       (s', before @ (case pc' of None \<Rightarrow> [] | Some q \<Rightarrow> [(x, q)]) @ after)"

definition lock_start :: "locked_op list \<Rightarrow> Locked_storage \<times> storage_thread list" where
  "lock_start xs = (Locked_new, map (\<lambda>x. (x, Lock_map)) xs)"

definition lock_reachable :: "locked_op list \<Rightarrow> Locked_storage \<Rightarrow> storage_thread list \<Rightarrow> bool" where
  "lock_reachable xs s ths \<longleftrightarrow> lock_step\<^sup>*\<^sup>* (lock_start xs) (s, ths)"

subsection \<open>Who holds the lock\<close>

definition holds_shared :: "storage_thread \<Rightarrow> bool" where
  "holds_shared th \<longleftrightarrow>
     (case snd th of Find \<Rightarrow> \<not> is_remove_all (fst th) | Access _ shared \<Rightarrow> shared | _ \<Rightarrow> False)"

definition holds_unique :: "storage_thread \<Rightarrow> bool" where
  "holds_unique th \<longleftrightarrow>
     (case snd th of Find \<Rightarrow> is_remove_all (fst th) | Insert \<Rightarrow> True | Erase _ \<Rightarrow> True | _ \<Rightarrow> False)"

definition lock_counts :: "Locked_storage \<Rightarrow> storage_thread list \<Rightarrow> bool" where
  "lock_counts s ths \<longleftrightarrow> rw_counts holds_shared holds_unique ths (lk_shared s) (lk_unique s)"

lemmas lock_counts_unfold = lock_counts_def rw_counts_def

definition entry_live :: "Locked_storage \<Rightarrow> nat \<Rightarrow> bool" where
  "entry_live s a \<longleftrightarrow> um_find (lk_heap s) a \<noteq> None"

text \<open>What a thread knows; \<open>kept\<close> says that no call of the run erases entries.\<close>

definition lock_thread_ok :: "bool \<Rightarrow> Locked_storage \<Rightarrow> storage_thread \<Rightarrow> bool" where
  "lock_thread_ok kept s th \<longleftrightarrow>
     (kept \<longrightarrow> \<not> is_remove_all (fst th)) \<and>
     (case snd th of
        Lock_map \<Rightarrow> True
      | Find \<Rightarrow> True
      | Lock_unique \<Rightarrow> is_write (fst th)
      | Insert \<Rightarrow> is_write (fst th)
      | Access a shared \<Rightarrow>
          \<not> is_remove_all (fst th) \<and> a < lk_fresh s \<and> (shared \<or> is_write (fst th)) \<and>
          (entry_live s a \<longrightarrow> um_find (lk_store s) (op_id (fst th)) = Some a) \<and>
          (shared \<or> kept \<longrightarrow> entry_live s a)
      | Erase a \<Rightarrow> is_remove_all (fst th) \<and> um_find (lk_store s) (op_id (fst th)) = Some a)"

definition injective :: "(u64, nat) umap \<Rightarrow> bool" where
  "injective m \<longleftrightarrow> (\<forall>i j a. um_find m i = Some a \<longrightarrow> um_find m j = Some a \<longrightarrow> i = j)"

lemma injectiveI: "(\<And>i j a. um_find m i = Some a \<Longrightarrow> um_find m j = Some a \<Longrightarrow> i = j) \<Longrightarrow> injective m"
  unfolding injective_def by blast

definition table_ok :: "Locked_storage \<Rightarrow> bool" where
  "table_ok s \<longleftrightarrow>
     um_wf (lk_store s) \<and> um_wf (lk_heap s) \<and>
     um.every (\<lambda>i a. a < lk_fresh s \<and> entry_live s a) (lk_store s) \<and>
     injective (lk_store s)"

definition lock_inv :: "bool \<Rightarrow> Locked_storage \<Rightarrow> storage_thread list \<Rightarrow> bool" where
  "lock_inv kept s ths \<longleftrightarrow> lock_counts s ths \<and> table_ok s \<and> list_all (lock_thread_ok kept s) ths"

lemmas lock_finish = finish_def finish_shared_def finish_unique_def finish_free_def

lemmas lock_exec_defs = lock_map_def find_entry_def insert_entry_def access_entry_def erase_entry_def lock_finish

subsection \<open>The invariant of a step\<close>

lemma lock_thread_ok_mono:
  assumes "lock_thread_ok kept s th" and "lk_fresh s \<le> lk_fresh s'"
    and "\<And>b. b < lk_fresh s \<Longrightarrow> entry_live s' b \<Longrightarrow> entry_live s b"
    and "\<And>i b. um_find (lk_store s) i = Some b \<Longrightarrow> entry_live s' b \<Longrightarrow> um_find (lk_store s') i = Some b"
    and "(\<forall>b. entry_live s b \<longrightarrow> entry_live s' b) \<or> (\<not> holds_shared th \<and> \<not> kept)"
    and "lk_store s' = lk_store s \<or> \<not> holds_unique th"
  shows "lock_thread_ok kept s' th"
proof (cases "snd th")
  case (Access a shared)
  have a: "a < lk_fresh s" and live: "entry_live s' a \<Longrightarrow> entry_live s a"
    using assms(1,3) Access by (auto simp: lock_thread_ok_def)
  have "shared \<or> kept \<longrightarrow> entry_live s' a"
    using assms(1,5) Access by (auto simp: lock_thread_ok_def holds_shared_def)
  then show ?thesis
    using assms(1,2) a live assms(4) Access by (auto simp: lock_thread_ok_def)
next
  case (Erase a)
  then have "lk_store s' = lk_store s" using assms(6) by (simp add: holds_unique_def)
  then show ?thesis using assms(1) Erase by (auto simp: lock_thread_ok_def)
qed (use assms(1) in \<open>simp_all add: lock_thread_ok_def\<close>)

text \<open>A step that changes neither the table nor which entries are live.\<close>

definition same_entries :: "Locked_storage \<Rightarrow> Locked_storage \<Rightarrow> bool" where
  "same_entries s s' \<longleftrightarrow> lk_store s' = lk_store s \<and> lk_fresh s' = lk_fresh s \<and> (um_wf (lk_heap s) \<longrightarrow> um_wf (lk_heap s')) \<and>
     (\<forall>a. entry_live s' a \<longleftrightarrow> entry_live s a)"

lemma same_entries_table: "same_entries s s' \<Longrightarrow> table_ok s \<Longrightarrow> table_ok s'"
  by (simp add: same_entries_def table_ok_def um.every_def)

lemma same_entries_thread: "same_entries s s' \<Longrightarrow> lock_thread_ok kept s th \<Longrightarrow> lock_thread_ok kept s' th"
  by (rule lock_thread_ok_mono) (auto simp: same_entries_def)

lemma same_entries_access: "same_entries s (access_entry x a shared s)"
  by (cases x) (auto simp: same_entries_def access_entry_def lock_finish entry_live_def split: option.split)

lemma same_entries_find: "same_entries s (fst (find_entry x s))"
  by (cases x) (auto simp: same_entries_def find_entry_def lock_finish entry_live_def split: option.split)

text \<open>The exclusive holder is alone.\<close>

lemma lock_alone:
  assumes "lock_counts s (before @ th # after)" and "holds_unique th"
  shows "lk_unique s" "lk_shared s = 0" "\<forall>t \<in> set (before @ after). \<not> holds_unique t \<and> \<not> holds_shared t"
  using rw_alone [OF assms(1) [unfolded lock_counts_def] assms(2)] by blast+

lemma table_live:
  assumes "table_ok s" and "um_find (lk_store s) i = Some a"
  shows "entry_live s a" and "a < lk_fresh s"
  using assms um.every_find [OF _ assms(2)] unfolding table_ok_def by blast+

lemma table_inject:
  "table_ok s \<Longrightarrow> um_find (lk_store s) i = Some a \<Longrightarrow> um_find (lk_store s) j = Some a \<Longrightarrow> i = j"
  unfolding table_ok_def injective_def by blast

definition created :: "locked_op \<Rightarrow> Locked_storage \<Rightarrow> Locked_storage" where
  "created x s = s\<lparr>lk_store := um_assign (op_id x) (lk_fresh s) (lk_store s),
     lk_heap := um_assign (lk_fresh s) ObjectComponents_new (lk_heap s),
     lk_fresh := Suc (lk_fresh s), lk_unique := False\<rparr>"

lemma created_simps [simp]:
  "lk_store (created x s) = um_assign (op_id x) (lk_fresh s) (lk_store s)"
  "lk_fresh (created x s) = Suc (lk_fresh s)" "um_wf (lk_heap (created x s)) = um_wf (um_assign (lk_fresh s) ObjectComponents_new (lk_heap s))"
  "entry_live (created x s) a \<longleftrightarrow> a = lk_fresh s \<or> entry_live s a"
  by (simp_all add: created_def entry_live_def)

lemma insert_entry_cases:
  "insert_entry x s =
     (case um_find (lk_store s) (op_id x) of
        None \<Rightarrow> (created x s, Some (Access (lk_fresh s) False))
      | Some a \<Rightarrow> (s\<lparr>lk_unique := False\<rparr>, Some (Access a False)))"
  by (cases "um_find (lk_store s) (op_id x)") (simp_all add: insert_entry_def created_def)

lemma table_ok_created:
  assumes "table_ok s"
  shows "table_ok (created x s)"
proof -
  have old: "um_find (lk_store s) i \<noteq> Some (lk_fresh s)" for i
    using table_live(2) [OF assms, of i "lk_fresh s"] by auto
  have "um.every (\<lambda>i a. a < Suc (lk_fresh s) \<and> entry_live (created x s) a) (lk_store s)"
    unfolding um.every_def created_simps using table_live [OF assms] less_SucI by metis
  then have "um.every (\<lambda>i a. a < Suc (lk_fresh s) \<and> entry_live (created x s) a) (lk_store (created x s))"
    by (simp add: um.every_assign)
  moreover
  have "i = j" if "um_find (lk_store (created x s)) i = Some a" "um_find (lk_store (created x s)) j = Some a" for i j a
  proof (cases "a = lk_fresh s")
    case True
    then show ?thesis using that old by (simp split: if_splits)
  next
    case False
    then show ?thesis using that table_inject [OF assms, of i a j] by (simp split: if_splits)
  qed
  then have "injective (lk_store (created x s))" by (rule injectiveI)
  ultimately show ?thesis using assms by (simp add: table_ok_def)
qed

lemma same_entries_unique: "same_entries s (s\<lparr>lk_unique := u\<rparr>)"
  by (simp add: same_entries_def entry_live_def)

lemma insert_entry_ok:
  assumes table: "table_ok s" and x: "is_write x" and kept: "kept \<longrightarrow> \<not> is_remove_all x"
    and fin: "insert_entry x s = (s', pc')"
  shows "table_ok s'" "pc' = Some q \<Longrightarrow> lock_thread_ok kept s' (x, q)"
    and "lock_thread_ok kept s th \<Longrightarrow> \<not> holds_unique th \<Longrightarrow> lock_thread_ok kept s' th"
proof -
  have wrt: "\<not> is_remove_all x" using x by (cases x) simp_all
  have all: "table_ok s' \<and> (pc' = Some q \<longrightarrow> lock_thread_ok kept s' (x, q)) \<and>
      (lock_thread_ok kept s th \<longrightarrow> \<not> holds_unique th \<longrightarrow> lock_thread_ok kept s' th)" for q th
  proof (cases "um_find (lk_store s) (op_id x)")
    case None
    then have s': "s' = created x s" "pc' = Some (Access (lk_fresh s) False)"
      using fin by (simp_all add: insert_entry_cases)
    have "lock_thread_ok kept s' th" if "lock_thread_ok kept s th" "\<not> holds_unique th"
      using that(1) by (rule lock_thread_ok_mono) (use s' None that(2) in \<open>auto split: if_splits\<close>)
    then show ?thesis
      using s' table_ok_created [OF table] x wrt by (auto simp: lock_thread_ok_def)
  next
    case (Some a)
    then have s': "s' = s\<lparr>lk_unique := False\<rparr>" "pc' = Some (Access a False)"
      using fin by (simp_all add: insert_entry_cases)
    then show ?thesis
      using same_entries_table [OF same_entries_unique table] same_entries_thread [OF same_entries_unique]
        table_live [OF table Some] Some x wrt
      by (auto simp: lock_thread_ok_def entry_live_def)
  qed
  then show "table_ok s'" "pc' = Some q \<Longrightarrow> lock_thread_ok kept s' (x, q)"
    and "lock_thread_ok kept s th \<Longrightarrow> \<not> holds_unique th \<Longrightarrow> lock_thread_ok kept s' th" by blast+
qed

lemma erase_entry_ok:
  assumes table: "table_ok s" and a: "um_find (lk_store s) (op_id x) = Some a"
  shows "table_ok (erase_entry x a s)"
    and "lock_thread_ok kept s th \<Longrightarrow> \<not> holds_unique th \<Longrightarrow> \<not> holds_shared th \<Longrightarrow> \<not> kept \<Longrightarrow>
      lock_thread_ok kept (erase_entry x a s) th"
proof -
  have eq: "lk_store (erase_entry x a s) = um_erase (op_id x) (lk_store s)"
    "lk_heap (erase_entry x a s) = um_erase a (lk_heap s)" "lk_fresh (erase_entry x a s) = lk_fresh s"
    by (simp_all add: erase_entry_def lock_finish)
  then have live: "entry_live (erase_entry x a s) b \<longleftrightarrow> b \<noteq> a \<and> entry_live s b" for b
    by (simp add: entry_live_def)
  have other: "i = op_id x" if "um_find (lk_store s) i = Some a" for i
    using table_inject [OF table that a] .
  have "um.every (\<lambda>i a'. a' < lk_fresh s \<and> a' \<noteq> a \<and> entry_live s a') (um_erase (op_id x) (lk_store s))"
    unfolding um.every_def um_find_erase using table_live [OF table] other by (metis option.distinct(1))
  moreover
  have "i = j" if "um_find (um_erase (op_id x) (lk_store s)) i = Some b" "um_find (um_erase (op_id x) (lk_store s)) j = Some b" for i j b
    using that table_inject [OF table, of i b j] by (simp split: if_splits)
  then have "injective (um_erase (op_id x) (lk_store s))" by (rule injectiveI)
  ultimately show "table_ok (erase_entry x a s)"
    using table by (simp add: table_ok_def eq live)
  show "lock_thread_ok kept (erase_entry x a s) th"
    if th: "lock_thread_ok kept s th" "\<not> holds_unique th" "\<not> holds_shared th" "\<not> kept"
  proof (rule lock_thread_ok_mono [OF th(1)])
    show "um_find (lk_store (erase_entry x a s)) i = Some b"
      if "um_find (lk_store s) i = Some b" "entry_live (erase_entry x a s) b" for i b
      using that a by (auto simp: eq live)
  qed (use th eq live in simp_all)
qed

text \<open>Counting the holders after a step.\<close>

lemma lock_counts_exec:
  assumes "lock_counts s (before @ (x, pc) # after)" and "lock_exec x pc s = Some (s', pc')"
    and "lock_thread_ok kept s (x, pc)"
  shows "lock_counts s' (before @ (case pc' of None \<Rightarrow> [] | Some q \<Rightarrow> [(x, q)]) @ after)"
proof (cases pc)
  case Lock_map
  then show ?thesis using assms
    by (auto simp: lock_counts_unfold lock_map_def holds_shared_def holds_unique_def split: if_splits)
next
  case Find
  then show ?thesis using assms
    by (cases x; cases "um_find (lk_store s) (op_id x)")
      (auto simp: lock_counts_unfold find_entry_def lock_finish holds_shared_def holds_unique_def split: if_splits)
next
  case Lock_unique
  then show ?thesis using assms
    by (auto simp: lock_counts_unfold holds_shared_def holds_unique_def split: if_splits)
next
  case Insert
  then show ?thesis using assms
    by (auto simp: lock_counts_unfold insert_entry_def holds_shared_def holds_unique_def split: if_splits option.splits)
next
  case (Access a shared)
  then show ?thesis using assms
    by (cases x; cases "um_find (lk_heap s) a")
      (auto simp: lock_counts_unfold access_entry_def lock_finish lock_thread_ok_def holds_shared_def holds_unique_def split: if_splits)
next
  case (Erase a)
  then show ?thesis using assms
    by (auto simp: lock_counts_unfold erase_entry_def lock_finish holds_shared_def holds_unique_def split: if_splits)
qed

lemma lock_exec_ok:
  assumes counts: "lock_counts s (before @ (x, pc) # after)" and table: "table_ok s"
    and self: "lock_thread_ok kept s (x, pc)" and exec: "lock_exec x pc s = Some (s', pc')"
  shows "table_ok s'" and "pc' = Some q \<Longrightarrow> lock_thread_ok kept s' (x, q)"
    and "th \<in> set (before @ after) \<Longrightarrow> lock_thread_ok kept s th \<Longrightarrow> lock_thread_ok kept s' th"
proof -
  have kept: "kept \<longrightarrow> \<not> is_remove_all x" using self by (auto simp: lock_thread_ok_def)
  have all: "table_ok s' \<and> (pc' = Some q \<longrightarrow> lock_thread_ok kept s' (x, q)) \<and>
      (th \<in> set (before @ after) \<longrightarrow> lock_thread_ok kept s th \<longrightarrow> lock_thread_ok kept s' th)" for q th
  proof -
    have same: ?thesis if "same_entries s s'" "pc' = Some q \<longrightarrow> lock_thread_ok kept s (x, q)"
      using that same_entries_table [OF that(1) table] same_entries_thread [OF that(1)] by blast
    show ?thesis
    proof (cases pc)
      case Lock_map
      then have "same_entries s s'" "pc' = Some Find"
        using exec by (auto simp: lock_map_def same_entries_def entry_live_def split: if_splits)
      then show ?thesis using same kept by (auto simp: lock_thread_ok_def)
    next
      case Find
      then have s': "find_entry x s = (s', pc')" using exec by simp
      have "pc' = Some q \<longrightarrow> lock_thread_ok kept s (x, q)"
        using s' kept table_live [OF table, of "op_id x"]
        by (cases x) (auto simp: find_entry_def lock_thread_ok_def split: option.splits if_splits)
      then show ?thesis using same same_entries_find [of s x] s' by simp
    next
      case Lock_unique
      then have "same_entries s s'" "pc' = Some Insert"
        using exec by (auto simp: same_entries_def entry_live_def split: if_splits)
      then show ?thesis using same self Lock_unique by (auto simp: lock_thread_ok_def)
    next
      case Insert
      then have ins: "insert_entry x s = (s', pc')" "is_write x"
        using exec self by (auto simp: lock_thread_ok_def)
      have "\<forall>t \<in> set (before @ after). \<not> holds_unique t"
        using lock_alone(3) [OF counts] Insert by (simp add: holds_unique_def)
      then show ?thesis using insert_entry_ok [OF table ins(2) kept ins(1)] by blast
    next
      case (Access a shared)
      then show ?thesis using same same_entries_access [of s x a shared] exec by simp
    next
      case (Erase a)
      then have s': "s' = erase_entry x a s" "pc' = None" "\<not> kept" "um_find (lk_store s) (op_id x) = Some a"
        using exec self by (auto simp: lock_thread_ok_def)
      have "\<forall>t \<in> set (before @ after). \<not> holds_unique t \<and> \<not> holds_shared t"
        using lock_alone(3) [OF counts] Erase by (simp add: holds_unique_def)
      then show ?thesis using erase_entry_ok [OF table s'(4)] s'(1-3) by blast
    qed
  qed
  show "table_ok s'" and "pc' = Some q \<Longrightarrow> lock_thread_ok kept s' (x, q)"
    and "th \<in> set (before @ after) \<Longrightarrow> lock_thread_ok kept s th \<Longrightarrow> lock_thread_ok kept s' th"
    using all by blast+
qed

lemma lock_inv_exec:
  assumes inv: "lock_inv kept s (before @ (x, pc) # after)" and exec: "lock_exec x pc s = Some (s', pc')"
  shows "lock_inv kept s' (before @ (case pc' of None \<Rightarrow> [] | Some q \<Rightarrow> [(x, q)]) @ after)"
proof -
  have parts: "lock_counts s (before @ (x, pc) # after)" "table_ok s" "lock_thread_ok kept s (x, pc)"
    "\<forall>th \<in> set (before @ after). lock_thread_ok kept s th"
    using inv by (auto simp: lock_inv_def list_all_iff)
  note ok = lock_exec_ok [OF parts(1-3) exec]
  have "\<forall>th \<in> set (before @ after). lock_thread_ok kept s' th" using ok(3) parts(4) by blast
  then have "list_all (lock_thread_ok kept s') (before @ (case pc' of None \<Rightarrow> [] | Some q \<Rightarrow> [(x, q)]) @ after)"
    using ok(2) by (auto simp: list_all_iff split: option.splits)
  then show ?thesis
    using ok(1) lock_counts_exec [OF parts(1) exec parts(3)] by (simp add: lock_inv_def)
qed

subsection \<open>Every run is a sequence of whole calls\<close>

text \<open>What a reader would see in the table.\<close>

definition locked_view :: "Locked_storage \<Rightarrow> flat_store" where
  "locked_view s = (\<lambda>(i, t).
     case um_find (lk_store s) i of
       None \<Rightarrow> None
     | Some a \<Rightarrow> (case um_find (lk_heap s) a of None \<Rightarrow> None | Some obj \<Rightarrow> um_find (oc_components obj) t))"

fun op_spec :: "locked_op \<Rightarrow> flat_store \<Rightarrow> op_result \<times> flat_store" where
  "op_spec (L_Read i t) m = (Got (m (i, t)), m)"
| "op_spec (L_Write i t d) m = (Wrote, m((i, t) \<mapsto> d))"
| "op_spec (L_Remove i t) m = (Removed (m (i, t) \<noteq> None), m((i, t) := None))"
| "op_spec (L_RemoveAll i) m = (Cleared, \<lambda>(i', t). if i' = i then None else m (i', t))"

lemma op_run_spec: "op_spec x (flat cs) = map_prod (\<lambda>r. r) flat (op_run x cs)"
  using storage_exec_flat [of "case x of L_Read i t \<Rightarrow> OpRemoveAll i | L_Write i t d \<Rightarrow> OpWrite i t d
      | L_Remove i t \<Rightarrow> OpRemove i t | L_RemoveAll i \<Rightarrow> OpRemoveAll i" cs]
  by (cases x) (auto simp: flat_def component_def split: prod.splits)

lemma view_cong: "lk_store s' = lk_store s \<Longrightarrow> lk_heap s' = lk_heap s \<Longrightarrow> locked_view s' = locked_view s"
  by (simp add: locked_view_def fun_eq_iff split: option.split)

lemma view_locks [simp]:
  "locked_view (s\<lparr>lk_unique := u\<rparr>) = locked_view s" "locked_view (s\<lparr>lk_shared := n\<rparr>) = locked_view s"
  by (rule view_cong; simp)+

lemma view_put:
  assumes store: "um_find (lk_store s) i0 = Some a" and inj: "injective (lk_store s)"
    and s': "lk_store s' = lk_store s" "lk_heap s' = um_assign a obj (lk_heap s)"
  shows "locked_view s' (i, t) = (if i = i0 then um_find (oc_components obj) t else locked_view s (i, t))"
proof (cases "i = i0")
  case True
  then show ?thesis using store s' by (simp add: locked_view_def)
next
  case False
  then have "um_find (lk_store s) i \<noteq> Some a" using inj store unfolding injective_def by blast
  then show ?thesis using False s' by (auto simp: locked_view_def split: option.split)
qed

lemma view_access:
  assumes store: "um_find (lk_store s) (op_id x) = Some a" and obj: "um_find (lk_heap s) a = Some obj"
    and inj: "injective (lk_store s)" and x: "\<not> is_remove_all x"
  shows "\<exists>r. lk_history (access_entry x a shared s) = lk_history s @ [(x, r)] \<and>
     lk_bad (access_entry x a shared s) = lk_bad s \<and>
     op_spec x (locked_view s) = (r, locked_view (access_entry x a shared s))"
proof -
  have here: "locked_view s (op_id x, t) = um_find (oc_components obj) t" for t
    using store obj by (simp add: locked_view_def)
  have put: "locked_view s' = (\<lambda>(i, t). if i = op_id x then um_find cs t else locked_view s (i, t))"
    if "lk_store s' = lk_store s" "lk_heap s' = um_assign a (obj\<lparr>oc_components := cs\<rparr>) (lk_heap s)" for s' cs
    using view_put [OF store inj that] by auto
  have same: "locked_view (finish shared y r s) = locked_view s" for y r
    by (rule view_cong) (simp_all add: lock_finish)
  show ?thesis
  proof (cases x)
    case (L_Read i t)
    then show ?thesis using obj here same by (auto simp: access_entry_def lock_finish)
  next
    case (L_Write i t d)
    then show ?thesis
      using obj here put [of "access_entry x a shared s" "um_assign t d (oc_components obj)"]
      by (auto simp: access_entry_def lock_finish fun_eq_iff)
  next
    case (L_Remove i t)
    then show ?thesis
      using obj here put [of "access_entry x a shared s" "um_erase t (oc_components obj)"]
      by (auto simp: access_entry_def lock_finish fun_eq_iff)
  qed (use x in simp)
qed

lemma view_erase:
  assumes store: "um_find (lk_store s) i = Some a" and inj: "injective (lk_store s)"
    and s': "lk_store s' = um_erase i (lk_store s)" "lk_heap s' = um_erase a (lk_heap s)"
  shows "locked_view s' (j, t) = (if j = i then None else locked_view s (j, t))"
proof (cases "j = i")
  case True
  then show ?thesis using s' by (simp add: locked_view_def)
next
  case False
  then have "um_find (lk_store s) j \<noteq> Some a" using inj store unfolding injective_def by blast
  then show ?thesis using False s' by (auto simp: locked_view_def split: option.split)
qed

lemma view_created:
  assumes table: "table_ok s" and new: "um_find (lk_store s) (op_id x) = None"
  shows "locked_view (created x s) = locked_view s"
proof (rule ext)
  fix it :: "u64 \<times> ComponentType"
  obtain i t where it: "it = (i, t)" by fastforce
  have "um_find (lk_store s) i \<noteq> Some (lk_fresh s)" using table_live(2) [OF table] by fastforce
  then show "locked_view (created x s) it = locked_view s it"
    using new it by (auto simp: locked_view_def created_def ObjectComponents_new_def split: option.split)
qed

text \<open>One step is invisible, or it is a whole call, or it touches a freed entry.\<close>

definition step_kind :: "locked_op \<Rightarrow> Locked_storage \<Rightarrow> Locked_storage \<Rightarrow> lock_pc option \<Rightarrow> bool" where
  "step_kind x s s' pc' \<longleftrightarrow>
     (lk_history s' = lk_history s \<and> lk_bad s' = lk_bad s \<and> locked_view s' = locked_view s \<and> pc' \<noteq> None) \<or>
     (\<exists>r. lk_history s' = lk_history s @ [(x, r)] \<and> lk_bad s' = lk_bad s \<and>
        op_spec x (locked_view s) = (r, locked_view s') \<and> pc' = None)"

lemma step_kind_find:
  assumes "um_find (lk_store s) (op_id x) = None" and "find_entry x s = (s', pc')"
  shows "step_kind x s s' pc'"
proof -
  have none: "locked_view s (op_id x, t) = None" for t using assms(1) by (simp add: locked_view_def)
  have same: "locked_view s' = locked_view s"
    using assms(2) by (intro view_cong; cases x) (auto simp: find_entry_def lock_finish split: option.splits)
  show ?thesis
  proof (cases x)
    case (L_Remove i t)
    then have "(locked_view s)((i, t) := None) = locked_view s" using none by (auto simp: fun_eq_iff)
    then show ?thesis
      using assms none same L_Remove by (auto simp: step_kind_def find_entry_def finish_shared_def)
  next
    case (L_RemoveAll i)
    then have "(\<lambda>(j, t). if j = i then None else locked_view s (j, t)) = locked_view s"
      using none by (auto simp: fun_eq_iff)
    then show ?thesis
      using assms same L_RemoveAll by (auto simp: step_kind_def find_entry_def finish_unique_def)
  qed (use assms none same in \<open>auto simp: step_kind_def find_entry_def finish_shared_def\<close>)
qed

lemma step_kind_exec:
  assumes counts: "lock_counts s (before @ (x, pc) # after)" and table: "table_ok s"
    and self: "lock_thread_ok kept s (x, pc)" and exec: "lock_exec x pc s = Some (s', pc')"
  shows "step_kind x s s' pc' \<or> (\<exists>a. pc = Access a False \<and> \<not> kept \<and> lk_bad s' \<and> pc' = None)"
proof (cases pc)
  case Lock_map
  then show ?thesis
    using exec by (auto simp: step_kind_def lock_map_def split: if_splits)
next
  case Find
  then have s': "find_entry x s = (s', pc')" using exec by simp
  show ?thesis
    using step_kind_find [OF _ s'] s'
    by (cases "um_find (lk_store s) (op_id x)") (auto simp: step_kind_def find_entry_def)
next
  case Lock_unique
  then show ?thesis using exec by (auto simp: step_kind_def split: if_splits)
next
  case Insert
  then show ?thesis
    using Insert exec view_created [OF table, of x]
    by (auto simp: step_kind_def insert_entry_cases created_def split: option.splits)
next
  case (Access a shared)
  then have s': "s' = access_entry x a shared s" "pc' = None" using exec by simp_all
  show ?thesis
  proof (cases "um_find (lk_heap s) a")
    case None
    then have "\<not> shared" "\<not> kept" using self Access by (auto simp: lock_thread_ok_def entry_live_def)
    then show ?thesis using s' None Access by (simp add: access_entry_def)
  next
    case (Some obj)
    then have "um_find (lk_store s) (op_id x) = Some a" "\<not> is_remove_all x"
      using self Access by (auto simp: lock_thread_ok_def entry_live_def)
    from view_access [OF this(1) Some _ this(2)] table s' show ?thesis
      by (simp add: step_kind_def table_ok_def)
  qed
next
  case (Erase a)
  then have s': "s' = erase_entry x a s" "pc' = None" and x: "is_remove_all x"
    and store: "um_find (lk_store s) (op_id x) = Some a"
    using exec self by (auto simp: lock_thread_ok_def)
  have inj: "injective (lk_store s)" using table by (simp add: table_ok_def)
  have "locked_view s' = (\<lambda>(j, t). if j = op_id x then None else locked_view s (j, t))"
    using view_erase [OF store inj, of s'] s' by (auto simp: erase_entry_def finish_unique_def)
  then show ?thesis
    using s' x by (cases x) (auto simp: step_kind_def erase_entry_def finish_unique_def)
qed

text \<open>A history replayed on the sequential storage, every recorded result checked.\<close>

fun replay :: "(locked_op \<times> op_result) list \<Rightarrow> ComponentStorage \<Rightarrow> ComponentStorage option" where
  "replay [] cs = Some cs"
| "replay ((x, r) # h) cs = (case op_run x cs of (r', cs') \<Rightarrow> if r' = r then replay h cs' else None)"

lemma replay_append:
  "replay (h @ [(x, r)]) cs =
     (case replay h cs of None \<Rightarrow> None
      | Some cs' \<Rightarrow> (case op_run x cs' of (r', cs'') \<Rightarrow> if r' = r then Some cs'' else None))"
  by (induction h arbitrary: cs) (auto split: prod.split)

definition linear :: "Locked_storage \<Rightarrow> bool" where
  "linear s \<longleftrightarrow> (\<exists>cs. replay (lk_history s) ComponentStorage_new = Some cs \<and> flat cs = locked_view s)"

lemma linear_step: "linear s \<Longrightarrow> step_kind x s s' pc' \<Longrightarrow> linear s'"
proof -
  assume lin: "linear s" and kind: "step_kind x s s' pc'"
  obtain cs where cs: "replay (lk_history s) ComponentStorage_new = Some cs" "flat cs = locked_view s"
    using lin by (auto simp: linear_def)
  from kind consider "lk_history s' = lk_history s" "locked_view s' = locked_view s"
    | r where "lk_history s' = lk_history s @ [(x, r)]" "op_spec x (locked_view s) = (r, locked_view s')"
    by (auto simp: step_kind_def)
  then show ?thesis
  proof cases
    case 1
    then show ?thesis using cs by (auto simp: linear_def)
  next
    case 2
    then show ?thesis using cs op_run_spec [of x cs] by (auto simp: linear_def replay_append split: prod.split)
  qed
qed

text \<open>The invariant of a run of the calls \<open>xs\<close>.\<close>

definition keeps_entries :: "locked_op list \<Rightarrow> bool" where
  "keeps_entries xs \<longleftrightarrow> \<not> list_ex is_remove_all xs"

definition run_inv :: "locked_op list \<Rightarrow> Locked_storage \<times> storage_thread list \<Rightarrow> bool" where
  "run_inv xs sth \<longleftrightarrow>
     (case sth of (s, ths) \<Rightarrow>
        lock_inv (keeps_entries xs) s ths \<and> set (map fst ths) \<subseteq> set xs \<and>
        (lk_bad s \<longrightarrow> list_ex is_remove_all xs \<and> list_ex is_write xs) \<and>
        (\<not> lk_bad s \<longrightarrow> linear s \<and> mset (map fst (lk_history s)) + mset (map fst ths) = mset xs))"

lemma run_inv_start: "run_inv xs (lock_start xs)"
proof -
  have "count_if holds_shared (map (\<lambda>x. (x, Lock_map)) xs) = 0" "count_if holds_unique (map (\<lambda>x. (x, Lock_map)) xs) = 0"
    by (auto simp: count_if_0 holds_shared_def holds_unique_def)
  moreover have "list_all (lock_thread_ok (keeps_entries xs) Locked_new) (map (\<lambda>x. (x, Lock_map)) xs)"
    by (auto simp: list_all_iff list_ex_iff lock_thread_ok_def keeps_entries_def)
  moreover have "linear Locked_new"
    by (auto simp: linear_def Locked_new_def flat_def locked_view_def fun_eq_iff)
  moreover have "map fst (map (\<lambda>x. (x, Lock_map)) xs) = xs" by (simp add: comp_def)
  ultimately show ?thesis
    unfolding run_inv_def lock_start_def prod.case
    by (simp add: lock_inv_def lock_counts_unfold table_ok_def injective_def
        Locked_new_def um.every_empty del: map_map)
qed

lemma lock_bad_mono: "lock_exec x pc s = Some (s', pc') \<Longrightarrow> lk_bad s \<Longrightarrow> lk_bad s'"
  by (cases pc; cases x)
    (auto simp: lock_exec_defs split: if_splits option.splits)

lemma run_inv_step:
  assumes inv: "run_inv xs sth" and step: "lock_step sth sth'"
  shows "run_inv xs sth'"
  using step
proof cases
  case (1 x pc s s' pc' before after)
  have parts: "lock_inv (keeps_entries xs) s (before @ (x, pc) # after)" "x \<in> set xs"
    "set (map fst (before @ after)) \<subseteq> set xs"
    "lk_bad s \<Longrightarrow> list_ex is_remove_all xs \<and> list_ex is_write xs"
    "\<not> lk_bad s \<Longrightarrow> linear s \<and> mset (map fst (lk_history s)) + mset (map fst (before @ (x, pc) # after)) = mset xs"
    using inv 1 by (auto simp: run_inv_def)
  define ths' where "ths' = before @ (case pc' of None \<Rightarrow> [] | Some q \<Rightarrow> [(x, q)]) @ after"
  have eq: "sth' = (s', ths')" using 1(2) by (simp add: ths'_def)
  have inv': "lock_inv (keeps_entries xs) s' ths'"
    unfolding ths'_def using parts(1) 1(3) by (rule lock_inv_exec)
  have self: "lock_counts s (before @ (x, pc) # after)" "table_ok s" "lock_thread_ok (keeps_entries xs) s (x, pc)"
    using parts(1) by (simp_all add: lock_inv_def)
  have sub: "set (map fst ths') \<subseteq> set xs"
    using parts(2,3) by (cases pc') (auto simp: ths'_def)
  from step_kind_exec [OF self 1(3)] show ?thesis
  proof
    assume kind: "step_kind x s s' pc'"
    then have bad: "lk_bad s' = lk_bad s" by (auto simp: step_kind_def)
    have "mset (map fst (lk_history s')) + mset (map fst ths') = mset xs" if "\<not> lk_bad s"
      using parts(5) [OF that] kind by (auto simp: step_kind_def ths'_def)
    then show ?thesis
      unfolding eq run_inv_def prod.case using inv' sub bad parts(4,5) linear_step [OF _ kind] by simp
  next
    assume freed: "\<exists>a. pc = Access a False \<and> \<not> keeps_entries xs \<and> lk_bad s' \<and> pc' = None"
    then have "list_ex is_remove_all xs" "list_ex is_write xs"
      using self(3) parts(2) by (auto simp: keeps_entries_def lock_thread_ok_def list_ex_iff)
    then show ?thesis unfolding eq run_inv_def prod.case using inv' sub freed by simp
  qed
qed

lemma run_inv_reachable: "lock_reachable xs s ths \<Longrightarrow> run_inv xs (s, ths)"
  unfolding lock_reachable_def
  by (induction rule: rtranclp_induct) (auto intro: run_inv_start run_inv_step)


lemma locked_bad:
  "lock_reachable xs s ths \<Longrightarrow> lk_bad s \<Longrightarrow> list_ex is_remove_all xs \<and> list_ex is_write xs"
  using run_inv_reachable [of xs s ths] by (simp add: run_inv_def)

subsection \<open>No deadlock\<close>

primrec pc_rank :: "lock_pc \<Rightarrow> nat" where
  "pc_rank Lock_map = 5"
| "pc_rank Find = 4"
| "pc_rank Lock_unique = 3"
| "pc_rank Insert = 2"
| "pc_rank (Access a shared) = 1"
| "pc_rank (Erase a) = 1"

definition lock_work :: "Locked_storage \<times> storage_thread list \<Rightarrow> nat" where
  "lock_work sth = sum_list (map (\<lambda>th. pc_rank (snd th)) (snd sth))"

lemma lock_exec_rank: "lock_exec x pc s = Some (s', Some q) \<Longrightarrow> pc_rank q < pc_rank pc"
  by (cases pc; cases x) (auto simp: lock_exec_defs split: if_splits option.splits)

lemma pc_rank_pos: "0 < pc_rank pc"
  by (cases pc) simp_all

lemma lock_step_work: "lock_step sth sth' \<Longrightarrow> lock_work sth' < lock_work sth"
  by (induction rule: lock_step.induct)
    (auto simp: lock_work_def pc_rank_pos lock_exec_rank split: option.split)

definition waiting :: "storage_thread \<Rightarrow> bool" where
  "waiting th \<longleftrightarrow> snd th = Lock_map \<or> snd th = Lock_unique"

lemma not_waiting_exec: "\<not> waiting (x, pc) \<Longrightarrow> lock_exec x pc s \<noteq> None"
  by (cases pc) (simp_all add: waiting_def)

lemma waiting_exec: "waiting (x, pc) \<Longrightarrow> \<not> lk_unique s \<Longrightarrow> lk_shared s = 0 \<Longrightarrow> lock_exec x pc s \<noteq> None"
  by (auto simp: waiting_def lock_map_def)

lemma waiting_holds: "waiting th \<Longrightarrow> \<not> holds_shared th \<and> \<not> holds_unique th"
  by (auto simp: waiting_def holds_shared_def holds_unique_def)

lemma lock_progress:
  assumes "lock_counts s ths" and "ths \<noteq> []"
  shows "\<exists>sth'. lock_step (s, ths) sth'"
proof -
  have "\<exists>x pc. (x, pc) \<in> set ths \<and> lock_exec x pc s \<noteq> None"
  proof (cases "list_all waiting ths")
    case True
    then have "count_if holds_shared ths = 0" "count_if holds_unique ths = 0"
      using waiting_holds by (auto simp: count_if_0 list_all_iff)
    then have "\<not> lk_unique s" "lk_shared s = 0" using assms(1) by (auto simp: lock_counts_unfold split: if_splits)
    moreover obtain x pc where "(x, pc) \<in> set ths" using assms(2) by (metis list.set_intros(1) neq_Nil_conv surj_pair)
    ultimately show ?thesis using waiting_exec [of x pc s] True by (auto simp: list_all_iff)
  next
    case False
    then show ?thesis using not_waiting_exec by (fastforce simp: list_all_iff)
  qed
  then obtain x pc s' pc' before after where "ths = before @ (x, pc) # after" "lock_exec x pc s = Some (s', pc')"
    by (metis in_set_conv_decomp not_None_eq surj_pair)
  then show ?thesis using lock_step.intros [of x pc s s' pc' before after] by blast
qed

lemma run_inv_progress: "run_inv xs sth \<Longrightarrow> snd sth \<noteq> [] \<Longrightarrow> \<exists>sth'. lock_step sth sth'"
  using lock_progress [of "fst sth" "snd sth"] by (auto simp: run_inv_def lock_inv_def split: prod.splits)

interpretation storage_calls: progress lock_step "run_inv xs" lock_work "\<lambda>sth. snd sth = []" for xs
  by unfold_locales (blast intro: run_inv_step lock_step_work run_inv_progress)+

lemma locked_drains: "lock_reachable xs s ths \<Longrightarrow> \<exists>s'. lock_step\<^sup>*\<^sup>* (s, ths) (s', [])"
  using storage_calls.drains [OF run_inv_reachable, of xs s ths] by fastforce

subsection \<open>A write that creates its entry races with \<open>RemoveAll\<close>\<close>

lemma lock_reachable_exec:
  assumes "lock_reachable xs s ths" and "ths = before @ (x, pc) # after" and "lock_exec x pc s = Some (s', pc')"
  shows "lock_reachable xs s' (before @ (case pc' of None \<Rightarrow> [] | Some q \<Rightarrow> [(x, q)]) @ after)"
  using assms lock_step.intros [of x pc s s' pc' before after] unfolding lock_reachable_def
  by (metis rtranclp.rtrancl_into_rtrancl)

definition write_race :: "nat \<Rightarrow> u64 \<Rightarrow> Locked_storage" where
  "write_race n i =
     (let s0 = Locked_new; s1 = s0\<lparr>lk_shared := 1\<rparr>; s2 = s0; s3 = s0\<lparr>lk_unique := True\<rparr>;
          s4 = s0\<lparr>lk_store := um_assign i 0 um_empty, lk_heap := um_assign 0 ObjectComponents_new um_empty, lk_fresh := 1\<rparr>;
          s5 = s4\<lparr>lk_unique := True\<rparr>;
          s6 = s4\<lparr>lk_store := um_empty, lk_heap := um_empty, lk_history := [(L_RemoveAll i, Cleared)]\<rparr>
      in [s0, s1, s2, s3, s4, s5, s6, s6\<lparr>lk_bad := True\<rparr>] ! n)"

lemma write_race_reachable:
  "lock_reachable [L_Write i t d, L_RemoveAll i] (write_race 7 i) []"
proof -
  define x where "x = L_Write i t d"
  define y where "y = L_RemoveAll i"
  have xy: "is_remove_all x = False" "op_id x = i" "is_remove_all y" "op_id y = i" "\<And>a b c. y \<noteq> L_Write a b c"
    by (simp_all add: x_def y_def)
  have erased: "um_erase k (um_assign k v um_empty) = um_empty" for k :: 'k and v :: 'v
    by (simp add: um_defs)
  have r0: "lock_reachable [x, y] Locked_new [(x, Lock_map), (y, Lock_map)]"
    by (simp add: lock_reachable_def lock_start_def)
  have r1: "lock_reachable [x, y] (write_race 1 i) [(x, Find), (y, Lock_map)]"
    using lock_reachable_exec [OF r0, of "[]" x] by (simp add: lock_map_def xy Locked_new_def write_race_def)
  have r2: "lock_reachable [x, y] (write_race 2 i) [(x, Lock_unique), (y, Lock_map)]"
    using lock_reachable_exec [OF r1, of "[]" x] by (simp add: find_entry_def x_def Locked_new_def write_race_def)
  have r3: "lock_reachable [x, y] (write_race 3 i) [(x, Insert), (y, Lock_map)]"
    using lock_reachable_exec [OF r2, of "[]" x] by (simp add: Locked_new_def write_race_def)
  have r4: "lock_reachable [x, y] (write_race 4 i) [(x, Access 0 False), (y, Lock_map)]"
    using lock_reachable_exec [OF r3, of "[]" x] by (simp add: insert_entry_def xy Locked_new_def write_race_def)
  have r5: "lock_reachable [x, y] (write_race 5 i) [(x, Access 0 False), (y, Find)]"
    using lock_reachable_exec [OF r4, of "[(x, Access 0 False)]" y]
    by (simp add: lock_map_def xy Locked_new_def write_race_def)
  have r6: "lock_reachable [x, y] (write_race 5 i) [(x, Access 0 False), (y, Erase 0)]"
    using lock_reachable_exec [OF r5, of "[(x, Access 0 False)]" y]
    by (simp add: find_entry_def xy Locked_new_def write_race_def)
  have r7: "lock_reachable [x, y] (write_race 6 i) [(x, Access 0 False)]"
    using lock_reachable_exec [OF r6, of "[(x, Access 0 False)]" y "Erase 0" "[]"]
    by (simp add: erase_entry_def finish_unique_def xy(4) erased Locked_new_def write_race_def flip: y_def)
  have "lock_reachable [x, y] (write_race 7 i) []"
    using lock_reachable_exec [OF r7, of "[]" x "Access 0 False" "[]"] by (simp add: access_entry_def Locked_new_def write_race_def)
  then show ?thesis by (simp add: x_def y_def)
qed

lemma write_race_bad: "lk_bad (write_race 7 i)"
  by (simp add: write_race_def)

subsection \<open>A run of one call\<close>

definition read_alone :: "nat \<Rightarrow> Locked_storage" where
  "read_alone n =
     [Locked_new, Locked_new\<lparr>lk_shared := 1\<rparr>, Locked_new\<lparr>lk_history := [(L_Read 1 2, Got None)]\<rparr>] ! n"

lemma read_alone_reachable_1: "lock_reachable [L_Read 1 2] (read_alone 1) [(L_Read 1 2, Find)]"
proof -
  have "lock_reachable [L_Read 1 2] Locked_new [(L_Read 1 2, Lock_map)]"
    by (simp add: lock_reachable_def lock_start_def)
  from lock_reachable_exec [OF this, of "[]" "L_Read 1 2" Lock_map "[]"] show ?thesis
    by (simp add: lock_map_def Locked_new_def read_alone_def)
qed


section \<open>Properties\<close>



text \<open>C5: Component storage under threads. A set of concurrent calls without \<open>RemoveAll\<close>, or without
  \<open>Write\<close>, never touches the entry of an object after it was freed, in any interleaving.\<close>

theorem storage_race_free:
  assumes "lock_reachable xs s ths" and "\<not> (list_ex is_remove_all xs \<and> list_ex is_write xs)"
  shows "\<not> lk_bad s"
  using locked_bad [OF assms(1)] assms(2) by blast

theorem storage_race_free_witness: "\<not> lk_bad (read_alone 1)"
  by (rule storage_race_free [OF read_alone_reachable_1]) simp

text \<open>C6: Component storage under threads, the gap in \<open>Write\<close>: it releases \<open>map_mutex_\<close> after creating the
  entry and locks the entry only then. For every object, component and value there is an
  interleaving with \<open>RemoveAll\<close> of the same object in which \<open>Write\<close> uses the entry after it was freed.\<close>

theorem storage_write_race:
  "\<exists>s. lock_reachable [L_Write i t d, L_RemoveAll i] s [] \<and> lk_bad s"
  using write_race_reachable write_race_bad by blast

text \<open>C7: Component storage under threads: no deadlock. From every state of a concurrent run the calls that
  have not returned yet can be run to their end.\<close>

theorem storage_no_deadlock:
  assumes "lock_reachable xs s ths"
  shows "\<exists>s'. lock_step\<^sup>*\<^sup>* (s, ths) (s', [])"
  using assms by (rule locked_drains)

theorem storage_no_deadlock_witness:
  "\<exists>s'. lock_step\<^sup>*\<^sup>* (read_alone 1, [(L_Read 1 2, Find)]) (s', [])"
  by (rule storage_no_deadlock [OF read_alone_reachable_1])

end
