(* ===== verification/Registry_Locking.thy ===== *)
theory Registry_Locking
  imports Object_Registry Threads "HOL-Library.Multiset"
begin

section \<open>The object registry: locking\<close>

text \<open>
  The methods of \<open>core/object_registry.cpp\<close> cut at their lock operations, run by any number of threads
  beside threads that write components. \<open>map_mutex_\<close> is exclusive in \<open>Create\<close> and \<open>Destroy\<close> and shared
  in \<open>Get\<close> and \<open>Migrate\<close>; an entry has an address and a mutex of its own, which \<open>Migrate\<close> holds while it
  walks from version to version, one step of this model per migration function, so other threads run
  in between. \<open>Destroy\<close> erases the entry first and removes the components after it has released the
  map lock. \<open>Create\<close> is a single exclusive section and one step.
\<close>

datatype registry_op =
    R_Create ObjectHeader
  | R_Get u64
  | R_Destroy u64
  | R_Migrate u64 u32
  | R_Write u64 ComponentType ComponentData

datatype registry_result =
    Made u64
  | Viewed "GameObject option"
  | Destroyed
  | Migrated bool
  | Stored

text \<open>
  Where a call is: before its first lock, before \<open>objects_.find\<close>, before taking the mutex of an entry
  (to copy its header, to wait for its users, to migrate it), in the migration loop with the view, and
  after \<open>Destroy\<close> has released the map lock.
\<close>

datatype registry_pc = Start | Look | Copy nat | Sync nat | Cleanup | Begin nat | Walk nat GameObject u32

type_synonym registry_thread = "registry_op \<times> registry_pc"

record Locked_registry =
  lr_objects :: "(u64, nat) umap"
  lr_heap :: "(nat, ObjectHeader) umap"
  lr_fresh :: nat
  lr_shared :: nat
  lr_unique :: bool
  lr_locked :: "nat set"
  lr_ptr :: storage_ptr
  lr_storage :: ComponentStorage
  lr_bad :: bool
  lr_history :: "(registry_op \<times> registry_result) list"

definition Locked_registry_new :: Locked_registry where
  "Locked_registry_new =
     \<lparr>lr_objects = um_empty, lr_heap = um_empty, lr_fresh = 0, lr_shared = 0, lr_unique = False, lr_locked = {},
      lr_ptr = the_storage, lr_storage = ComponentStorage_new, lr_bad = False, lr_history = []\<rparr>"

text \<open>The call takes effect with this result.\<close>

definition record_result :: "registry_op \<Rightarrow> registry_result \<Rightarrow> Locked_registry \<Rightarrow> Locked_registry" where
  "record_result x r s = s\<lparr>lr_history := lr_history s @ [(x, r)]\<rparr>"

definition unlock_shared :: "Locked_registry \<Rightarrow> Locked_registry" where
  "unlock_shared s = s\<lparr>lr_shared := lr_shared s - 1\<rparr>"

text \<open>\<open>Create\<close>: the new entry replaces, and frees, an entry that is already there.\<close>

definition locked_create :: "ObjectHeader \<Rightarrow> Locked_registry \<Rightarrow> Locked_registry" where
  "locked_create header s =
     (let heap = (case um_find (lr_objects s) (oh_object_id header) of
                    None \<Rightarrow> lr_heap s | Some old \<Rightarrow> um_erase old (lr_heap s))
      in s\<lparr>lr_heap := um_assign (lr_fresh s) header heap,
           lr_objects := um_assign (oh_object_id header) (lr_fresh s) (lr_objects s),
           lr_fresh := Suc (lr_fresh s)\<rparr>)"

definition registry_start :: "registry_op \<Rightarrow> Locked_registry \<Rightarrow> (Locked_registry \<times> registry_pc option) option" where
  "registry_start x s =
     (case x of
        R_Create header \<Rightarrow>
          (if lr_unique s \<or> 0 < lr_shared s then None
           else Some (record_result x (Made (oh_object_id header)) (locked_create header s), None))
      | R_Get _ \<Rightarrow> (if lr_unique s then None else Some (s\<lparr>lr_shared := lr_shared s + 1\<rparr>, Some Look))
      | R_Migrate _ _ \<Rightarrow> (if lr_unique s then None else Some (s\<lparr>lr_shared := lr_shared s + 1\<rparr>, Some Look))
      | R_Destroy _ \<Rightarrow>
          (if lr_unique s \<or> 0 < lr_shared s then None else Some (s\<lparr>lr_unique := True\<rparr>, Some Look))
      | R_Write i t d \<Rightarrow>
          Some (record_result x Stored (s\<lparr>lr_storage := ComponentStorage_Write i t d (lr_storage s)\<rparr>), None))"

definition registry_look :: "registry_op \<Rightarrow> Locked_registry \<Rightarrow> Locked_registry \<times> registry_pc option" where
  "registry_look x s =
     (case x of
        R_Get i \<Rightarrow>
          (case um_find (lr_objects s) i of
             None \<Rightarrow> (unlock_shared (record_result x (Viewed None) s), None)
           | Some a \<Rightarrow> (s, Some (Copy a)))
      | R_Destroy i \<Rightarrow>
          (case um_find (lr_objects s) i of
             None \<Rightarrow> (record_result x Destroyed (s\<lparr>lr_unique := False\<rparr>), None)
           | Some a \<Rightarrow> (s, Some (Sync a)))
      | R_Migrate i target \<Rightarrow>
          (case um_find (lr_objects s) i of
             None \<Rightarrow> (unlock_shared (record_result x (Migrated False) s), None)
           | Some a \<Rightarrow> (s, Some (Begin a)))
      | _ \<Rightarrow> (s, None))"

text \<open>An access to a freed entry is recorded in \<open>lr_bad\<close>.\<close>

definition registry_copy :: "registry_op \<Rightarrow> nat \<Rightarrow> Locked_registry \<Rightarrow> Locked_registry \<times> registry_pc option" where
  "registry_copy x a s =
     (case um_find (lr_heap s) a of
        None \<Rightarrow> (s\<lparr>lr_bad := True\<rparr>, None)
      | Some header \<Rightarrow>
          (unlock_shared (record_result x (Viewed (Some \<lparr>go_header = header, go_storage = lr_ptr s\<rparr>)) s), None))"

definition registry_erase :: "registry_op \<Rightarrow> u64 \<Rightarrow> nat \<Rightarrow> Locked_registry \<Rightarrow> Locked_registry \<times> registry_pc option" where
  "registry_erase x i a s =
     (record_result x Destroyed
        (s\<lparr>lr_objects := um_erase i (lr_objects s), lr_heap := um_erase a (lr_heap s), lr_unique := False,
           lr_bad := lr_bad s \<or> um_find (lr_heap s) a = None\<rparr>),
      if lr_ptr s \<noteq> nullptr then Some Cleanup else None)"

definition registry_begin :: "nat \<Rightarrow> Locked_registry \<Rightarrow> Locked_registry \<times> registry_pc option" where
  "registry_begin a s =
     (case um_find (lr_heap s) a of
        None \<Rightarrow> (s\<lparr>lr_bad := True\<rparr>, None)
      | Some header \<Rightarrow>
          (s\<lparr>lr_locked := insert a (lr_locked s)\<rparr>,
           Some (Walk a \<lparr>go_header = header, go_storage = lr_ptr s\<rparr> (oh_schema_version header))))"

text \<open>One turn of the loop of \<open>MigrationEngine::Migrate\<close>, or its end with the commit of the header.\<close>

definition registry_walk ::
  "MigrationEngine \<Rightarrow> registry_op \<Rightarrow> u32 \<Rightarrow> nat \<Rightarrow> GameObject \<Rightarrow> u32 \<Rightarrow> Locked_registry \<Rightarrow>
     Locked_registry \<times> registry_pc option" where
  "registry_walk me x target a view current s =
     (if current = target then
        (unlock_shared (record_result x (Migrated True)
           (s\<lparr>lr_heap := um_assign a (go_header view) (lr_heap s), lr_locked := lr_locked s - {a},
              lr_bad := lr_bad s \<or> um_find (lr_heap s) a = None\<rparr>)), None)
      else
        let next = next_version current target in
        (case MigrationEngine_MigrateStep me view current next (lr_storage s) of
           (ok, view', cs') \<Rightarrow>
             if ok then (s\<lparr>lr_storage := cs'\<rparr>, Some (Walk a (set_version next view') next))
             else (unlock_shared (record_result x (Migrated False)
                     (s\<lparr>lr_storage := cs', lr_locked := lr_locked s - {a}\<rparr>)), None)))"

fun op_object :: "registry_op \<Rightarrow> u64" where
  "op_object (R_Create header) = oh_object_id header"
| "op_object (R_Get i) = i"
| "op_object (R_Destroy i) = i"
| "op_object (R_Migrate i target) = i"
| "op_object (R_Write i t d) = i"

fun op_target :: "registry_op \<Rightarrow> u32" where
  "op_target (R_Migrate i target) = target"
| "op_target _ = 0"

text \<open>One step of a thread; \<open>None\<close> when it has to wait for a mutex.\<close>

fun registry_exec ::
  "MigrationEngine \<Rightarrow> registry_op \<Rightarrow> registry_pc \<Rightarrow> Locked_registry \<Rightarrow> (Locked_registry \<times> registry_pc option) option" where
  "registry_exec me x Start s = registry_start x s"
| "registry_exec me x Look s = Some (registry_look x s)"
| "registry_exec me x (Copy a) s = (if a \<in> lr_locked s then None else Some (registry_copy x a s))"
| "registry_exec me x (Sync a) s = (if a \<in> lr_locked s then None else Some (registry_erase x (op_object x) a s))"
| "registry_exec me x Cleanup s = Some (s\<lparr>lr_storage := ComponentStorage_RemoveAll (op_object x) (lr_storage s)\<rparr>, None)"
| "registry_exec me x (Begin a) s = (if a \<in> lr_locked s then None else Some (registry_begin a s))"
| "registry_exec me x (Walk a view current) s = Some (registry_walk me x (op_target x) a view current s)"

inductive registry_step ::
  "MigrationEngine \<Rightarrow> Locked_registry \<times> registry_thread list \<Rightarrow> Locked_registry \<times> registry_thread list \<Rightarrow> bool"
  for me where
  "registry_exec me x pc s = Some (s', pc') \<Longrightarrow>
     registry_step me (s, before @ (x, pc) # after) (s', moved before (map_option (Pair x) pc') after)"

definition registry_reachable ::
  "MigrationEngine \<Rightarrow> registry_op list \<Rightarrow> Locked_registry \<Rightarrow> registry_thread list \<Rightarrow> bool" where
  "registry_reachable me xs s ths \<longleftrightarrow>
     (registry_step me)\<^sup>*\<^sup>* (Locked_registry_new, map (\<lambda>x. (x, Start)) xs) (s, ths)"

subsection \<open>Who holds what\<close>

fun destroys :: "registry_op \<Rightarrow> bool" where
  "destroys (R_Destroy i) = True"
| "destroys _ = False"

fun migrates :: "registry_op \<Rightarrow> bool" where
  "migrates (R_Migrate i target) = True"
| "migrates _ = False"

fun gets :: "registry_op \<Rightarrow> bool" where
  "gets (R_Get i) = True"
| "gets _ = False"

definition reg_shared :: "registry_thread \<Rightarrow> bool" where
  "reg_shared th \<longleftrightarrow>
     (case snd th of Look \<Rightarrow> \<not> destroys (fst th) | Copy _ \<Rightarrow> True | Begin _ \<Rightarrow> True | Walk _ _ _ \<Rightarrow> True | _ \<Rightarrow> False)"

definition reg_unique :: "registry_thread \<Rightarrow> bool" where
  "reg_unique th \<longleftrightarrow> (case snd th of Look \<Rightarrow> destroys (fst th) | Sync _ \<Rightarrow> True | _ \<Rightarrow> False)"

definition walks :: "nat \<Rightarrow> registry_thread \<Rightarrow> bool" where
  "walks a th \<longleftrightarrow> (case snd th of Walk b _ _ \<Rightarrow> b = a | _ \<Rightarrow> False)"

text \<open>The registered functions leave the header of the view to the engine and return the view they got.\<close>

definition keeps_view :: "MigrationEngine \<Rightarrow> bool" where
  "keeps_view me \<longleftrightarrow>
     um.every (\<lambda>k func. \<forall>obj from to cs. fst (snd (func obj from to cs)) = obj) (me_migrations me)"

lemma keeps_view_step:
  assumes "keeps_view me" and "MigrationEngine_MigrateStep me obj a b cs = (ok, obj', cs')"
  shows "obj' = obj"
proof (cases "um_find (me_migrations me) (MigrationEngine_MakeKey a b)")
  case None
  then show ?thesis using assms(2) by (simp add: MigrationEngine_MigrateStep_def)
next
  case (Some func)
  then show ?thesis
    using assms(2) um.every_find [OF assms(1) [unfolded keeps_view_def] Some]
    by (metis MigrationEngine_MigrateStep_def fst_conv option.case(2) snd_conv)
qed

text \<open>What a thread knows.\<close>

definition reg_thread_ok :: "MigrationEngine \<Rightarrow> Locked_registry \<Rightarrow> registry_thread \<Rightarrow> bool" where
  "reg_thread_ok me s th \<longleftrightarrow>
     (case snd th of
        Start \<Rightarrow> True
      | Look \<Rightarrow> gets (fst th) \<or> destroys (fst th) \<or> migrates (fst th)
      | Copy a \<Rightarrow> gets (fst th) \<and> um_find (lr_objects s) (op_object (fst th)) = Some a
      | Sync a \<Rightarrow> destroys (fst th) \<and> um_find (lr_objects s) (op_object (fst th)) = Some a
      | Cleanup \<Rightarrow> destroys (fst th)
      | Begin a \<Rightarrow> migrates (fst th) \<and> um_find (lr_objects s) (op_object (fst th)) = Some a
      | Walk a view current \<Rightarrow>
          migrates (fst th) \<and> um_find (lr_objects s) (op_object (fst th)) = Some a \<and>
          (keeps_view me \<longrightarrow> (\<exists>h. um_find (lr_heap s) a = Some h \<and>
             view = \<lparr>go_header = h\<lparr>oh_schema_version := current\<rparr>, go_storage = lr_ptr s\<rparr>)))"

definition reg_table :: "Locked_registry \<Rightarrow> bool" where
  "reg_table s \<longleftrightarrow>
     (\<forall>i a. um_find (lr_objects s) i = Some a \<longrightarrow> a < lr_fresh s \<and> um_find (lr_heap s) a \<noteq> None) \<and>
     (\<forall>i j a. um_find (lr_objects s) i = Some a \<longrightarrow> um_find (lr_objects s) j = Some a \<longrightarrow> i = j)"

lemma reg_tableD:
  assumes "reg_table s"
  shows "um_find (lr_objects s) i = Some a \<Longrightarrow> a < lr_fresh s"
    and "um_find (lr_objects s) i = Some a \<Longrightarrow> um_find (lr_heap s) a \<noteq> None"
    and "um_find (lr_objects s) i = Some a \<Longrightarrow> um_find (lr_objects s) j = Some a \<Longrightarrow> i = j"
  using assms unfolding reg_table_def by blast+

definition reg_mutexes :: "Locked_registry \<Rightarrow> registry_thread list \<Rightarrow> bool" where
  "reg_mutexes s ths \<longleftrightarrow> (\<forall>a. count_if (walks a) ths = (if a \<in> lr_locked s then 1 else 0))"

definition reg_inv :: "MigrationEngine \<Rightarrow> Locked_registry \<Rightarrow> registry_thread list \<Rightarrow> bool" where
  "reg_inv me s ths \<longleftrightarrow>
     rw_counts reg_shared reg_unique ths (lr_shared s) (lr_unique s) \<and> reg_mutexes s ths \<and> reg_table s \<and>
     list_all (reg_thread_ok me s) ths \<and> \<not> lr_bad s \<and> lr_ptr s = the_storage"

lemmas registry_defs = registry_start_def registry_look_def registry_copy_def registry_erase_def registry_begin_def
  registry_walk_def record_result_def unlock_shared_def Let_def

subsection \<open>What a step leaves alone\<close>

text \<open>Threads that hold nothing do not depend on the table; a walking thread owns its entry.\<close>

lemma reg_thread_stable:
  assumes "reg_thread_ok me s th"
    and "lr_objects s' = lr_objects s \<or> \<not> reg_shared th \<and> \<not> reg_unique th"
    and "lr_ptr s' = lr_ptr s"
    and "\<And>a. walks a th \<Longrightarrow> um_find (lr_heap s') a = um_find (lr_heap s) a"
  shows "reg_thread_ok me s' th"
  using assms by (cases "snd th") (auto simp: reg_thread_ok_def reg_shared_def reg_unique_def walks_def)

lemma walks_alone:
  assumes "reg_mutexes s (before @ th # after)" and "walks a th" and "t \<in> set (before @ after)"
  shows "\<not> walks a t"
proof -
  have "count_if (walks a) before + count_if (walks a) after = 0"
    using assms(1,2) by (auto simp: reg_mutexes_def split: if_splits dest!: spec [of _ a])
  then show ?thesis using assms(3) by (auto simp: count_if_0)
qed

lemma walks_locked:
  assumes "reg_mutexes s ths" and "t \<in> set ths" and "walks a t"
  shows "a \<in> lr_locked s"
proof (rule ccontr)
  assume "a \<notin> lr_locked s"
  then have "count_if (walks a) ths = 0" using assms(1) by (simp add: reg_mutexes_def)
  then show False using assms(2,3) by (auto simp: count_if_0)
qed

subsection \<open>The locks after a step\<close>

lemma reg_counts_exec:
  assumes "rw_counts reg_shared reg_unique (before @ (x, pc) # after) (lr_shared s) (lr_unique s)"
    and "registry_exec me x pc s = Some (s', pc')" and "reg_thread_ok me s (x, pc)" and "\<not> lr_bad s'"
  shows "rw_counts reg_shared reg_unique (moved before (map_option (Pair x) pc') after) (lr_shared s') (lr_unique s')"
proof (cases pc)
  case Start
  then show ?thesis using assms
    by (cases x) (auto simp: rw_counts_def registry_defs locked_create_def reg_shared_def reg_unique_def split: if_splits)
next
  case Look
  then show ?thesis using assms
    by (cases x; cases "um_find (lr_objects s) (op_object x)")
      (auto simp: rw_counts_def registry_defs reg_shared_def reg_unique_def reg_thread_ok_def split: if_splits)
next
  case (Copy a)
  then show ?thesis using assms
    by (cases x; cases "um_find (lr_heap s) a")
      (auto simp: rw_counts_def registry_defs reg_shared_def reg_unique_def reg_thread_ok_def split: if_splits)
next
  case (Sync a)
  then show ?thesis using assms
    by (auto simp: rw_counts_def registry_defs reg_shared_def reg_unique_def reg_thread_ok_def split: if_splits)
next
  case Cleanup
  then show ?thesis using assms
    by (auto simp: rw_counts_def reg_shared_def reg_unique_def split: if_splits)
next
  case (Begin a)
  then show ?thesis using assms
    by (cases "um_find (lr_heap s) a")
      (auto simp: rw_counts_def registry_defs reg_shared_def reg_unique_def reg_thread_ok_def split: if_splits)
next
  case (Walk a view current)
  then show ?thesis using assms
    by (auto simp: rw_counts_def registry_defs reg_shared_def reg_unique_def reg_thread_ok_def split: if_splits prod.splits)
qed

text \<open>Which entry mutexes a step takes and releases.\<close>

lemma reg_mutexes_exec:
  assumes m: "reg_mutexes s (before @ (x, pc) # after)"
    and exec: "registry_exec me x pc s = Some (s', pc')" and good: "\<not> lr_bad s'"
  shows "reg_mutexes s' (moved before (map_option (Pair x) pc') after)"
proof -
  have same: ?thesis if "lr_locked s' = lr_locked s" "\<And>a. walks a (x, pc) = (\<exists>q. pc' = Some q \<and> walks a (x, q))"
    using m that by (auto simp: reg_mutexes_def split: if_splits option.splits)
  show ?thesis
  proof (cases pc)
    case Start
    then show ?thesis using exec
      by (intro same; cases x) (auto simp: registry_defs locked_create_def walks_def split: if_splits)
  next
    case Look
    then show ?thesis using exec
      by (intro same; cases x; cases "um_find (lr_objects s) (op_object x)") (auto simp: registry_defs walks_def)
  next
    case (Copy a)
    then show ?thesis using exec
      by (intro same) (auto simp: registry_defs walks_def split: if_splits option.splits)
  next
    case (Sync a)
    then show ?thesis using exec
      by (intro same) (auto simp: registry_defs walks_def split: if_splits)
  next
    case Cleanup
    then show ?thesis using exec by (intro same) (auto simp: walks_def)
  next
    case (Begin a)
    then have "a \<notin> lr_locked s" and "lr_locked s' = insert a (lr_locked s)" and "\<exists>v c. pc' = Some (Walk a v c)"
      using exec good by (auto simp: registry_defs split: if_splits option.splits)
    moreover have "count_if (walks b) before + count_if (walks b) after = (if b \<in> lr_locked s then 1 else 0)" for b
      using m Begin by (simp add: reg_mutexes_def walks_def)
    ultimately show ?thesis by (fastforce simp: reg_mutexes_def walks_def)
  next
    case (Walk a view current)
    then have a: "a \<in> lr_locked s" using walks_locked [OF m, of "(x, pc)" a] by (simp add: walks_def)
    consider "lr_locked s' = lr_locked s" "\<exists>v c. pc' = Some (Walk a v c)"
      | "lr_locked s' = lr_locked s - {a}" "pc' = None"
      using exec Walk by (auto simp: registry_defs split: if_splits prod.splits)
    then show ?thesis
    proof cases
      case 1
      then show ?thesis using Walk by (intro same) (auto simp: walks_def)
    next
      case 2
      have "count_if (walks b) before + count_if (walks b) after = (if b \<in> lr_locked s \<and> b \<noteq> a then 1 else 0)" for b
        using m [unfolded reg_mutexes_def, rule_format, of b] Walk a by (simp add: walks_def split: if_splits)
      then show ?thesis using 2 by (simp add: reg_mutexes_def)
    qed
  qed
qed

subsection \<open>The invariant of a step\<close>

lemma walks_shared: "walks a th \<Longrightarrow> reg_shared th"
  by (auto simp: walks_def reg_shared_def split: registry_pc.splits)

text \<open>The table after a creation and after an erasure.\<close>

lemma locked_create_simps [simp]:
  "lr_objects (locked_create h s) = um_assign (oh_object_id h) (lr_fresh s) (lr_objects s)"
  "lr_fresh (locked_create h s) = Suc (lr_fresh s)" "lr_locked (locked_create h s) = lr_locked s"
  "lr_ptr (locked_create h s) = lr_ptr s" "lr_bad (locked_create h s) = lr_bad s"
  "lr_shared (locked_create h s) = lr_shared s" "lr_unique (locked_create h s) = lr_unique s"
  "lr_storage (locked_create h s) = lr_storage s" "lr_history (locked_create h s) = lr_history s"
  "um_find (lr_heap (locked_create h s)) a =
     (if a = lr_fresh s then Some h
      else if um_find (lr_objects s) (oh_object_id h) = Some a then None else um_find (lr_heap s) a)"
  by (auto simp: locked_create_def Let_def split: option.split)

lemma reg_tableI:
  assumes "\<And>i a. um_find (lr_objects s) i = Some a \<Longrightarrow> a < lr_fresh s \<and> um_find (lr_heap s) a \<noteq> None"
    and "\<And>i j a. um_find (lr_objects s) i = Some a \<Longrightarrow> um_find (lr_objects s) j = Some a \<Longrightarrow> i = j"
  shows "reg_table s"
  using assms unfolding reg_table_def by blast

lemma reg_table_create:
  assumes table: "reg_table s"
  shows "reg_table (locked_create h s)"
proof (rule reg_tableI)
  fix i a assume "um_find (lr_objects (locked_create h s)) i = Some a"
  then consider "a = lr_fresh s" | "i \<noteq> oh_object_id h" "um_find (lr_objects s) i = Some a"
    by (auto split: if_splits)
  then show "a < lr_fresh (locked_create h s) \<and> um_find (lr_heap (locked_create h s)) a \<noteq> None"
  proof cases
    case 2
    then have "um_find (lr_objects s) (oh_object_id h) \<noteq> Some a" using reg_tableD(3) [OF table] by blast
    then show ?thesis using reg_tableD(1,2) [OF table 2(2)] by simp
  qed simp
next
  fix i j a
  assume ij: "um_find (lr_objects (locked_create h s)) i = Some a" "um_find (lr_objects (locked_create h s)) j = Some a"
  have old: "um_find (lr_objects s) k \<noteq> Some (lr_fresh s)" for k using reg_tableD(1) [OF table] by blast
  show "i = j"
  proof (cases "a = lr_fresh s")
    case True
    then show ?thesis using ij old [of i] old [of j] by (simp split: if_splits)
  next
    case False
    then have "um_find (lr_objects s) i = Some a" "um_find (lr_objects s) j = Some a" using ij by (simp_all split: if_splits)
    then show ?thesis by (rule reg_tableD(3) [OF table])
  qed
qed

lemma reg_table_erase:
  assumes table: "reg_table s" and entry: "um_find (lr_objects s) i = Some a"
    and s': "lr_objects s' = um_erase i (lr_objects s)" "lr_heap s' = um_erase a (lr_heap s)" "lr_fresh s' = lr_fresh s"
  shows "reg_table s'"
proof (rule reg_tableI)
  fix j b assume "um_find (lr_objects s') j = Some b"
  then have j: "j \<noteq> i" "um_find (lr_objects s) j = Some b" using s'(1) by (simp_all split: if_splits)
  then have "b \<noteq> a" using reg_tableD(3) [OF table entry] by blast
  then show "b < lr_fresh s' \<and> um_find (lr_heap s') b \<noteq> None"
    using reg_tableD(1,2) [OF table j(2)] s' by simp
next
  fix j k b assume "um_find (lr_objects s') j = Some b" "um_find (lr_objects s') k = Some b"
  then have "um_find (lr_objects s) j = Some b" "um_find (lr_objects s) k = Some b" using s'(1) by (simp_all split: if_splits)
  then show "j = k" by (rule reg_tableD(3) [OF table])
qed

text \<open>
  The three kinds of steps: one that leaves the table and every entry alone but for the entry it
  walks on, a creation and an erasure.
\<close>

definition keeps_table :: "registry_thread \<Rightarrow> Locked_registry \<Rightarrow> Locked_registry \<Rightarrow> bool" where
  "keeps_table th s s' \<longleftrightarrow>
     lr_objects s' = lr_objects s \<and> lr_fresh s' = lr_fresh s \<and>
     (\<forall>a. um_find (lr_heap s') a = um_find (lr_heap s) a \<or> walks a th \<and> um_find (lr_heap s') a \<noteq> None)"

lemma keeps_table_heap: "lr_objects s' = lr_objects s \<Longrightarrow> lr_fresh s' = lr_fresh s \<Longrightarrow> lr_heap s' = lr_heap s \<Longrightarrow> keeps_table th s s'"
  by (simp add: keeps_table_def)

lemma reg_table_keeps: "keeps_table th s s' \<Longrightarrow> reg_table s \<Longrightarrow> reg_table s'"
  unfolding keeps_table_def reg_table_def by metis

lemma registry_exec_kind:
  assumes ok: "reg_thread_ok me s (x, pc)" and table: "reg_table s" and good: "\<not> lr_bad s" "lr_ptr s = the_storage"
    and exec: "registry_exec me x pc s = Some (s', pc')"
  shows "\<not> lr_bad s'" and "lr_ptr s' = the_storage" and "map_option (\<lambda>q. reg_thread_ok me s' (x, q)) pc' \<noteq> Some False"
    and "keeps_table (x, pc) s s' \<or>
      (\<exists>h. x = R_Create h \<and> pc = Start \<and> \<not> lr_unique s \<and> lr_shared s = 0 \<and>
         s' = record_result x (Made (oh_object_id h)) (locked_create h s)) \<or>
      (\<exists>a. pc = Sync a \<and> um_find (lr_objects s) (op_object x) = Some a \<and> lr_objects s' = um_erase (op_object x) (lr_objects s) \<and>
         lr_heap s' = um_erase a (lr_heap s) \<and> lr_fresh s' = lr_fresh s)" (is ?kind)
proof -
  have live: "um_find (lr_objects s) i = Some a \<Longrightarrow> um_find (lr_heap s) a \<noteq> None" for i a
    using reg_tableD(2) [OF table] by blast
  have "\<not> lr_bad s' \<and> lr_ptr s' = the_storage \<and> map_option (\<lambda>q. reg_thread_ok me s' (x, q)) pc' \<noteq> Some False \<and> ?kind"
  proof (cases pc)
    case Start
    then show ?thesis using exec good
      by (cases x) (auto simp: registry_defs reg_thread_ok_def keeps_table_def split: if_splits)
  next
    case Look
    then show ?thesis using exec good ok
      by (cases x; cases "um_find (lr_objects s) (op_object x)")
        (auto simp: registry_defs reg_thread_ok_def keeps_table_def)
  next
    case (Copy a)
    then obtain h where "um_find (lr_heap s) a = Some h" using ok live by (fastforce simp: reg_thread_ok_def)
    then show ?thesis using Copy exec good
      by (simp add: registry_defs keeps_table_def split: if_splits) (auto split: if_splits)
  next
    case (Sync a)
    then have "um_find (lr_objects s) (op_object x) = Some a" "destroys x" using ok by (simp_all add: reg_thread_ok_def)
    moreover obtain h where "um_find (lr_heap s) a = Some h" using live [OF calculation(1)] by blast
    ultimately show ?thesis using Sync exec good
      by (auto simp: registry_defs reg_thread_ok_def split: if_splits)
  next
    case Cleanup
    then show ?thesis using exec good by (auto simp: keeps_table_def)
  next
    case (Begin a)
    then obtain h where "um_find (lr_heap s) a = Some h" using ok live by (fastforce simp: reg_thread_ok_def)
    then show ?thesis using Begin exec good ok
      by (auto simp: registry_defs reg_thread_ok_def keeps_table_def split: if_splits)
  next
    case (Walk a view current)
    then have entry: "um_find (lr_objects s) (op_object x) = Some a" and m: "migrates x" using ok by (auto simp: reg_thread_ok_def)
    show ?thesis
    proof (cases "current = op_target x")
      case True
      then show ?thesis using exec good Walk live [OF entry]
        by (auto simp: registry_defs keeps_table_def walks_def split: if_splits)
    next
      case False
      obtain b view' cs' where step: "MigrationEngine_MigrateStep me view current (next_version current (op_target x)) (lr_storage s) = (b, view', cs')"
        by (cases "MigrationEngine_MigrateStep me view current (next_version current (op_target x)) (lr_storage s)") auto
      then have "keeps_view me \<Longrightarrow> view' = view" by (rule keeps_view_step [rotated])
      then show ?thesis using exec good ok Walk False step
        by (auto simp: registry_defs reg_thread_ok_def keeps_table_def set_version_def split: if_splits)
    qed
  qed
  then show "\<not> lr_bad s'" and "lr_ptr s' = the_storage" and "map_option (\<lambda>q. reg_thread_ok me s' (x, q)) pc' \<noteq> Some False"
    and ?kind by blast+
qed

lemma reg_inv_exec:
  assumes inv: "reg_inv me s (before @ (x, pc) # after)" and exec: "registry_exec me x pc s = Some (s', pc')"
  shows "reg_inv me s' (moved before (map_option (Pair x) pc') after)"
proof -
  have parts: "rw_counts reg_shared reg_unique (before @ (x, pc) # after) (lr_shared s) (lr_unique s)"
    "reg_mutexes s (before @ (x, pc) # after)" "reg_table s" "reg_thread_ok me s (x, pc)"
    "\<forall>t \<in> set (before @ after). reg_thread_ok me s t" "\<not> lr_bad s" "lr_ptr s = the_storage"
    using inv by (auto simp: reg_inv_def list_all_iff)
  note kind = registry_exec_kind [OF parts(4,3,6,7) exec]
  have ptr: "lr_ptr s' = lr_ptr s" using kind(2) parts(7) by simp
  have idle: "reg_thread_ok me s' t" if "t \<in> set (before @ after)" "\<not> reg_shared t \<and> \<not> reg_unique t" for t
    using reg_thread_stable [OF _ _ ptr, of me t] walks_shared [of _ t] parts(5) that by auto
  have "reg_table s' \<and> (\<forall>t \<in> set (before @ after). reg_thread_ok me s' t)"
    using kind(4)
  proof (elim disjE exE conjE)
    assume kept: "keeps_table (x, pc) s s'"
    have "um_find (lr_heap s') a = um_find (lr_heap s) a" if "t \<in> set (before @ after)" "walks a t" for t a
      using kept walks_alone [OF parts(2) _ that(1), of a] that(2) by (auto simp: keeps_table_def)
    then show ?thesis
      using kept reg_table_keeps [OF kept parts(3)] parts(5) reg_thread_stable [OF _ _ ptr]
      unfolding keeps_table_def by blast
  next
    fix h assume new: "x = R_Create h" "pc = Start" "\<not> lr_unique s" "lr_shared s = 0"
      "s' = record_result x (Made (oh_object_id h)) (locked_create h s)"
    have free: "rw_counts reg_shared reg_unique (before @ (x, pc) # after) 0 False" using parts(1) new(3,4) by simp
    have "\<not> reg_shared t \<and> \<not> reg_unique t" if "t \<in> set (before @ after)" for t
      using rw_unheld [OF free, of t] that by simp
    moreover have "reg_table s'" 
      using reg_table_keeps [OF keeps_table_heap reg_table_create [OF parts(3)]] by (simp add: new(5) record_result_def)
    ultimately show ?thesis using idle by simp
  next
    fix a assume e: "pc = Sync a" "um_find (lr_objects s) (op_object x) = Some a"
      "lr_objects s' = um_erase (op_object x) (lr_objects s)" "lr_heap s' = um_erase a (lr_heap s)" "lr_fresh s' = lr_fresh s"
    have "\<forall>t \<in> set (before @ after). \<not> reg_unique t \<and> \<not> reg_shared t"
      using rw_alone(3) [OF parts(1)] e(1) by (simp add: reg_unique_def)
    then show ?thesis
      using idle reg_table_erase [OF parts(3) e(2-5)] by simp
  qed
  moreover have "list_all (reg_thread_ok me s') (moved before (map_option (Pair x) pc') after)"
    if "\<forall>t \<in> set (before @ after). reg_thread_ok me s' t"
    using that kind(3) by (auto simp: list_all_iff split: option.splits)
  ultimately show ?thesis
    using reg_counts_exec [OF parts(1) exec parts(4) kind(1)] reg_mutexes_exec [OF parts(2) exec kind(1)] kind(1,2)
    unfolding reg_inv_def by blast
qed

subsection \<open>Every run is a sequence of whole calls\<close>

text \<open>The headers a caller can see, and the calls as operations on them. A migration may fail at any time.\<close>

definition registry_view :: "Locked_registry \<Rightarrow> u64 \<Rightarrow> ObjectHeader option" where
  "registry_view s = (\<lambda>i. case um_find (lr_objects s) i of None \<Rightarrow> None | Some a \<Rightarrow> um_find (lr_heap s) a)"

fun registry_spec ::
  "registry_op \<Rightarrow> registry_result \<Rightarrow> (u64 \<Rightarrow> ObjectHeader option) \<Rightarrow> (u64 \<Rightarrow> ObjectHeader option) option" where
  "registry_spec (R_Create h) (Made i) m = (if i = oh_object_id h then Some (m(i \<mapsto> h)) else None)"
| "registry_spec (R_Get i) (Viewed v) m =
     (if v = map_option (\<lambda>h. \<lparr>go_header = h, go_storage = the_storage\<rparr>) (m i) then Some m else None)"
| "registry_spec (R_Destroy i) Destroyed m = Some (m(i := None))"
| "registry_spec (R_Migrate i target) (Migrated ok) m =
     (if ok then map_option (\<lambda>h. m(i \<mapsto> h\<lparr>oh_schema_version := target\<rparr>)) (m i) else Some m)"
| "registry_spec (R_Write i t d) Stored m = Some m"
| "registry_spec _ _ m = None"

fun registry_replay ::
  "(registry_op \<times> registry_result) list \<Rightarrow> (u64 \<Rightarrow> ObjectHeader option) \<Rightarrow> (u64 \<Rightarrow> ObjectHeader option) option" where
  "registry_replay [] m = Some m"
| "registry_replay ((x, r) # h) m = (case registry_spec x r m of None \<Rightarrow> None | Some m' \<Rightarrow> registry_replay h m')"

lemma registry_replay_append:
  "registry_replay (h @ [(x, r)]) m = Option.bind (registry_replay h m) (registry_spec x r)"
  by (induction h arbitrary: m) (auto split: option.split)

text \<open>The methods of \<open>Object_Registry\<close>, run alone, meet the same specification.\<close>

lemma registry_spec_Create:
  "ObjectRegistry_Create h reg = (i, reg') \<Longrightarrow>
     registry_spec (R_Create h) (Made i) (um_find (or_objects reg)) = Some (um_find (or_objects reg'))"
  by (auto simp: ObjectRegistry_Create_def fun_eq_iff)

lemma registry_spec_Get:
  "or_storage reg = the_storage \<Longrightarrow>
     registry_spec (R_Get i) (Viewed (ObjectRegistry_Get reg i (\<lambda>v. v))) (um_find (or_objects reg)) = Some (um_find (or_objects reg))"
  by (simp add: ObjectRegistry_Get_def split: option.split)

lemma registry_spec_Destroy:
  "ObjectRegistry_Destroy i reg cs = (reg', cs') \<Longrightarrow>
     registry_spec (R_Destroy i) Destroyed (um_find (or_objects reg)) = Some (um_find (or_objects reg'))"
  by (auto simp: ObjectRegistry_Destroy_def fun_eq_iff split: option.splits)

lemma run_path_keeps_view:
  "keeps_view me \<Longrightarrow> run_path me ps obj cs = (ok, obj', cs') \<Longrightarrow> \<exists>v. obj' = obj \<or> obj' = set_version v obj"
proof (induction me ps obj cs rule: run_path.induct)
  case (2 me a b ps obj cs)
  obtain ok1 obj1 cs1 where step: "MigrationEngine_MigrateStep me obj a b cs = (ok1, obj1, cs1)"
    by (cases "MigrationEngine_MigrateStep me obj a b cs") auto
  have obj1: "obj1 = obj" by (rule keeps_view_step [OF "2.prems"(1) step])
  show ?case
  proof (cases ok1)
    case True
    then have "run_path me ps (set_version b obj1) cs1 = (ok, obj', cs')" using "2.prems"(2) step by simp
    then show ?thesis
      using "2.IH" [OF step [symmetric] refl _ "2.prems"(1)] True obj1 by (auto simp: set_version_def)
  next
    case False
    then show ?thesis using "2.prems"(2) step obj1 by auto
  qed
qed simp

lemma registry_spec_Migrate:
  assumes "keeps_view me" and "ObjectRegistry_Migrate me i target reg cs = (ok, reg', cs')"
  shows "registry_spec (R_Migrate i target) (Migrated ok) (um_find (or_objects reg)) = Some (um_find (or_objects reg'))"
proof (cases "um_find (or_objects reg) i")
  case None
  then show ?thesis using assms(2) by (auto simp: ObjectRegistry_Migrate_def)
next
  case (Some h)
  define view where "view = \<lparr>go_header = h, go_storage = or_storage reg\<rparr>"
  obtain b view' cs1 where m: "MigrationEngine_Migrate me view target cs = (b, view', cs1)"
    by (cases "MigrationEngine_Migrate me view target cs") auto
  then obtain v where "view' = view \<or> view' = set_version v view"
    using run_path_keeps_view [OF assms(1)] Migrate_path by metis
  moreover have "b \<Longrightarrow> oh_schema_version (go_header view') = target" using Migrate_version m by auto
  ultimately have "b \<Longrightarrow> go_header view' = h\<lparr>oh_schema_version := target\<rparr>"
    by (auto simp: view_def set_version_def)
  then show ?thesis
    using Some assms(2) m by (auto simp: ObjectRegistry_Migrate_def Let_def fun_eq_iff simp flip: view_def)
qed

lemma registry_view_cong:
  "lr_objects s' = lr_objects s \<Longrightarrow> lr_heap s' = lr_heap s \<Longrightarrow> registry_view s' = registry_view s"
  by (simp add: registry_view_def fun_eq_iff split: option.split)

lemma registry_view_create:
  assumes table: "reg_table s"
  shows "registry_view (locked_create h s) = (registry_view s)(oh_object_id h \<mapsto> h)"
proof (rule ext)
  fix i
  show "registry_view (locked_create h s) i = ((registry_view s)(oh_object_id h \<mapsto> h)) i"
  proof (cases "i = oh_object_id h")
    case False
    show ?thesis
    proof (cases "um_find (lr_objects s) i")
      case (Some a)
      then have "a \<noteq> lr_fresh s" "um_find (lr_objects s) (oh_object_id h) \<noteq> Some a"
        using reg_tableD(1,3) [OF table Some] False by blast+
      then show ?thesis using False Some by (simp add: registry_view_def)
    qed (use False in \<open>simp add: registry_view_def\<close>)
  qed (simp add: registry_view_def)
qed

lemma registry_view_erase:
  assumes table: "reg_table s" and entry: "um_find (lr_objects s) i = Some a"
    and s': "lr_objects s' = um_erase i (lr_objects s)" "lr_heap s' = um_erase a (lr_heap s)"
  shows "registry_view s' = (registry_view s)(i := None)"
proof (rule ext)
  fix j
  show "registry_view s' j = ((registry_view s)(i := None)) j"
  proof (cases "j = i")
    case False
    then have "um_find (lr_objects s) j \<noteq> Some a" using reg_tableD(3) [OF table entry] by blast
    then show ?thesis using False s' by (simp add: registry_view_def split: option.split)
  qed (simp add: registry_view_def s')
qed

lemma registry_view_commit:
  assumes table: "reg_table s" and entry: "um_find (lr_objects s) i = Some a"
    and s': "lr_objects s' = lr_objects s" "lr_heap s' = um_assign a h (lr_heap s)"
  shows "registry_view s' = (registry_view s)(i \<mapsto> h)"
proof (rule ext)
  fix j
  show "registry_view s' j = ((registry_view s)(i \<mapsto> h)) j"
  proof (cases "j = i")
    case False
    then have "um_find (lr_objects s) j \<noteq> Some a" using reg_tableD(3) [OF table entry] by blast
    then show ?thesis using False s' by (simp add: registry_view_def split: option.split)
  qed (simp add: registry_view_def s' entry)
qed

text \<open>One step is invisible, or a call takes effect in it.\<close>

definition reg_effect :: "registry_op \<Rightarrow> registry_pc \<Rightarrow> Locked_registry \<Rightarrow> Locked_registry \<Rightarrow> registry_pc option \<Rightarrow> bool" where
  "reg_effect x pc s s' pc' \<longleftrightarrow>
     (lr_history s' = lr_history s \<and> registry_view s' = registry_view s \<and>
        (if pc = Cleanup then pc' = None else pc' \<noteq> None \<and> pc' \<noteq> Some Cleanup)) \<or>
     (\<exists>r. lr_history s' = lr_history s @ [(x, r)] \<and> registry_spec x r (registry_view s) = Some (registry_view s') \<and>
        pc \<noteq> Cleanup \<and> (pc' = None \<or> pc' = Some Cleanup))"

lemma reg_effect_quiet:
  "lr_history s' = lr_history s \<Longrightarrow> registry_view s' = registry_view s \<Longrightarrow>
     (if pc = Cleanup then pc' = None else pc' \<noteq> None \<and> pc' \<noteq> Some Cleanup) \<Longrightarrow> reg_effect x pc s s' pc'"
  by (simp add: reg_effect_def)

lemma reg_effect_call:
  "lr_history s' = lr_history s @ [(x, r)] \<Longrightarrow> registry_spec x r (registry_view s) = Some (registry_view s') \<Longrightarrow>
     pc \<noteq> Cleanup \<Longrightarrow> pc' = None \<or> pc' = Some Cleanup \<Longrightarrow> reg_effect x pc s s' pc'"
  unfolding reg_effect_def by blast

lemma reg_effect_start:
  assumes table: "reg_table s" and exec: "registry_start x s = Some (s', pc')"
  shows "reg_effect x Start s s' pc'"
proof (cases x)
  case (R_Create h)
  then have s': "s' = record_result x (Made (oh_object_id h)) (locked_create h s)" "pc' = None"
    using exec by (auto simp: registry_start_def split: if_splits)
  have "registry_view s' = registry_view (locked_create h s)"
    by (rule registry_view_cong) (simp_all add: s' record_result_def)
  then show ?thesis
    using R_Create s' registry_view_create [OF table, of h] by (intro reg_effect_call) (auto simp: record_result_def)
next
  case (R_Write i t d)
  then show ?thesis using exec
    by (intro reg_effect_call [where r = Stored]) (auto simp: registry_start_def record_result_def intro!: registry_view_cong [symmetric])
qed (use exec in \<open>auto simp: registry_start_def split: if_splits intro!: reg_effect_quiet registry_view_cong\<close>)

lemma reg_effect_look:
  assumes ok: "reg_thread_ok me s (x, Look)" and exec: "registry_look x s = (s', pc')"
  shows "reg_effect x Look s s' pc'"
proof (cases "um_find (lr_objects s) (op_object x)")
  case None
  then have none: "registry_view s (op_object x) = None" by (simp add: registry_view_def)
  have same: "registry_view s' = registry_view s"
    using exec by (intro registry_view_cong; cases x) (auto simp: registry_defs split: option.splits)
  show ?thesis
  proof (cases x)
    case (R_Destroy i)
    then have "(registry_view s)(i := None) = registry_view s" using none by (simp add: fun_upd_idem)
    then show ?thesis using exec None R_Destroy same
      by (intro reg_effect_call [where r = Destroyed]) (auto simp: registry_defs)
  next
    case (R_Get i)
    then show ?thesis using exec None none same
      by (intro reg_effect_call [where r = "Viewed None"]) (auto simp: registry_defs)
  next
    case (R_Migrate i target)
    then show ?thesis using exec None none same
      by (intro reg_effect_call [where r = "Migrated False"]) (auto simp: registry_defs)
  qed (use ok in \<open>auto simp: reg_thread_ok_def\<close>)
next
  case (Some a)
  then show ?thesis using ok exec
    by (cases x) (auto simp: registry_look_def reg_thread_ok_def intro!: reg_effect_quiet)
qed

lemma reg_effect_walk:
  assumes table: "reg_table s" and ok: "reg_thread_ok me s (x, Walk a view current)" and kv: "keeps_view me"
    and exec: "registry_walk me x (op_target x) a view current s = (s', pc')"
  shows "reg_effect x (Walk a view current) s s' pc'"
proof -
  obtain i target h where x: "x = R_Migrate i target" and entry: "um_find (lr_objects s) i = Some a"
    and h: "um_find (lr_heap s) a = Some h" and view: "go_header view = h\<lparr>oh_schema_version := current\<rparr>"
    using ok kv by (cases x) (auto simp: reg_thread_ok_def)
  have here: "registry_view s i = Some h" using entry h by (simp add: registry_view_def)
  show ?thesis
  proof (cases "current = target")
    case True
    then have s': "lr_history s' = lr_history s @ [(x, Migrated True)]" "lr_objects s' = lr_objects s"
      "lr_heap s' = um_assign a (go_header view) (lr_heap s)" "pc' = None"
      using exec x by (auto simp: registry_defs)
    then show ?thesis
      using registry_view_commit [OF table entry s'(2,3)] here view True x by (intro reg_effect_call) auto
  next
    case False
    obtain b view' cs' where step: "MigrationEngine_MigrateStep me view current (next_version current target) (lr_storage s) = (b, view', cs')"
      by (cases "MigrationEngine_MigrateStep me view current (next_version current target) (lr_storage s)") auto
    have same: "registry_view s' = registry_view s"
      using exec x False step by (intro registry_view_cong) (auto simp: registry_defs split: if_splits)
    show ?thesis
    proof (cases b)
      case True
      then show ?thesis using exec x False step same by (intro reg_effect_quiet) (auto simp: registry_defs)
    next
      case nope: False
      then show ?thesis using exec x False step same
        by (intro reg_effect_call [where r = "Migrated False"]) (auto simp: registry_defs)
    qed
  qed
qed

lemma reg_effect_exec:
  assumes table: "reg_table s" and ok: "reg_thread_ok me s (x, pc)" and ptr: "lr_ptr s = the_storage" and kv: "keeps_view me"
    and exec: "registry_exec me x pc s = Some (s', pc')"
  shows "reg_effect x pc s s' pc'"
proof (cases pc)
  case Start
  then show ?thesis using exec reg_effect_start [OF table] by simp
next
  case Look
  then show ?thesis using exec ok reg_effect_look by simp
next
  case (Copy a)
  then obtain i where x: "x = R_Get i" and entry: "um_find (lr_objects s) i = Some a"
    using ok by (cases x) (auto simp: reg_thread_ok_def)
  obtain h where h: "um_find (lr_heap s) a = Some h" using reg_tableD(2) [OF table entry] by blast
  have s': "s' = unlock_shared (record_result x (Viewed (Some \<lparr>go_header = h, go_storage = the_storage\<rparr>)) s)" "pc' = None"
    using exec Copy h ptr by (auto simp: registry_copy_def split: if_splits)
  have "registry_view s i = Some h" using entry h by (simp add: registry_view_def)
  moreover have "registry_view s' = registry_view s"
    by (rule registry_view_cong) (simp_all add: s' registry_defs)
  ultimately show ?thesis
    using Copy x s' by (intro reg_effect_call) (auto simp: registry_defs)
next
  case (Sync a)
  then obtain i where x: "x = R_Destroy i" and entry: "um_find (lr_objects s) i = Some a"
    using ok by (cases x) (auto simp: reg_thread_ok_def)
  have s': "lr_history s' = lr_history s @ [(x, Destroyed)]" "lr_objects s' = um_erase i (lr_objects s)"
    "lr_heap s' = um_erase a (lr_heap s)" "pc' = Some Cleanup"
    using exec Sync ptr x by (auto simp: registry_defs split: if_splits)
  then show ?thesis
    using registry_view_erase [OF table entry s'(2,3)] Sync x by (intro reg_effect_call) auto
next
  case Cleanup
  then show ?thesis using exec by (auto intro!: reg_effect_quiet registry_view_cong)
next
  case (Begin a)
  then have "um_find (lr_objects s) (op_object x) = Some a" using ok by (simp add: reg_thread_ok_def)
  then obtain h where "um_find (lr_heap s) a = Some h" using reg_tableD(2) [OF table] by blast
  then show ?thesis using exec Begin
    by (auto simp: registry_begin_def split: if_splits intro!: reg_effect_quiet registry_view_cong)
next
  case (Walk a view current)
  then show ?thesis using exec ok reg_effect_walk [OF table _ kv] by simp
qed

subsection \<open>Runs\<close>

definition pending :: "registry_thread \<Rightarrow> bool" where
  "pending th \<longleftrightarrow> snd th \<noteq> Cleanup"

definition registry_run_inv ::
  "MigrationEngine \<Rightarrow> registry_op list \<Rightarrow> Locked_registry \<times> registry_thread list \<Rightarrow> bool" where
  "registry_run_inv me xs sth \<longleftrightarrow>
     reg_inv me (fst sth) (snd sth) \<and>
     (keeps_view me \<longrightarrow>
        registry_replay (lr_history (fst sth)) Map.empty = Some (registry_view (fst sth)) \<and>
        mset (map fst (lr_history (fst sth))) + mset (map fst (filter pending (snd sth))) = mset xs)"

lemma registry_run_start: "registry_run_inv me xs (Locked_registry_new, map (\<lambda>x. (x, Start)) xs)"
proof -
  let ?ths = "map (\<lambda>x. (x, Start)) xs"
  have "count_if P ?ths = 0" if "\<And>x. \<not> P (x, Start)" for P :: "registry_thread \<Rightarrow> bool"
    using that by (auto simp: count_if_0)
  then have "rw_counts reg_shared reg_unique ?ths 0 False" "reg_mutexes Locked_registry_new ?ths"
    by (simp_all add: rw_counts_def reg_mutexes_def reg_shared_def reg_unique_def walks_def Locked_registry_new_def)
  moreover have "list_all (reg_thread_ok me Locked_registry_new) ?ths" by (simp add: list_all_iff reg_thread_ok_def)
  moreover have "filter pending ?ths = ?ths" by (induction xs) (simp_all add: pending_def)
  moreover have "map fst ?ths = xs" by (simp add: comp_def)
  moreover have "registry_view Locked_registry_new = Map.empty"
    by (simp add: registry_view_def Locked_registry_new_def fun_eq_iff)
  ultimately show ?thesis
    by (simp add: registry_run_inv_def reg_inv_def reg_table_def Locked_registry_new_def del: map_map)
qed

lemma registry_run_step:
  assumes inv: "registry_run_inv me xs sth" and step: "registry_step me sth sth'"
  shows "registry_run_inv me xs sth'"
  using step
proof cases
  case (1 x pc s s' pc' before after)
  have i: "reg_inv me s (before @ (x, pc) # after)" using inv 1 by (simp add: registry_run_inv_def)
  have i': "reg_inv me s' (moved before (map_option (Pair x) pc') after)" by (rule reg_inv_exec [OF i 1(3)])
  have parts: "reg_table s" "reg_thread_ok me s (x, pc)" "lr_ptr s = the_storage"
    using i by (simp_all add: reg_inv_def)
  have "registry_replay (lr_history s') Map.empty = Some (registry_view s') \<and>
      mset (map fst (lr_history s')) + mset (map fst (filter pending (moved before (map_option (Pair x) pc') after))) = mset xs"
    if kv: "keeps_view me"
  proof -
    have old: "registry_replay (lr_history s) Map.empty = Some (registry_view s)"
      "mset (map fst (lr_history s)) + mset (map fst (filter pending (before @ (x, pc) # after))) = mset xs"
      using inv 1 kv by (simp_all add: registry_run_inv_def)
    from reg_effect_exec [OF parts kv 1(3)] show ?thesis
      unfolding reg_effect_def
      using old by (auto simp: registry_replay_append pending_def split: if_splits option.splits)
  qed
  then show ?thesis using i' 1(2) by (simp add: registry_run_inv_def)
qed

lemma registry_run_reachable: "registry_reachable me xs s ths \<Longrightarrow> registry_run_inv me xs (s, ths)"
  unfolding registry_reachable_def
  by (induction rule: rtranclp_induct) (blast intro: registry_run_start registry_run_step)+

subsection \<open>Every schedule ends\<close>

primrec registry_rank :: "u32 \<Rightarrow> registry_pc \<Rightarrow> nat" where
  "registry_rank target Start = 2 ^ 32 + 5"
| "registry_rank target Look = 2 ^ 32 + 4"
| "registry_rank target (Begin a) = 2 ^ 32 + 3"
| "registry_rank target (Walk a view current) = version_distance current target + 2"
| "registry_rank target (Copy a) = 1"
| "registry_rank target (Sync a) = 2"
| "registry_rank target Cleanup = 1"

definition registry_work :: "Locked_registry \<times> registry_thread list \<Rightarrow> nat" where
  "registry_work sth = sum_list (map (\<lambda>th. registry_rank (op_target (fst th)) (snd th)) (snd sth))"

lemma version_distance_bound: "version_distance a b < 2 ^ 32"
  using unat_lt [of a] unat_lt [of b] by (simp add: version_distance_def)

lemma registry_rank_pos: "0 < registry_rank target pc"
  by (cases pc) simp_all

lemma registry_exec_rank:
  assumes "registry_exec me x pc s = Some (s', Some q)"
  shows "registry_rank (op_target x) q < registry_rank (op_target x) pc"
proof (cases pc)
  case Start
  then show ?thesis using assms by (cases x) (auto simp: registry_start_def split: if_splits)
next
  case Look
  then show ?thesis using assms
    by (cases x; cases "um_find (lr_objects s) (op_object x)") (auto simp: registry_look_def)
next
  case (Begin a)
  have "version_distance u v < 4294967297" for u v using version_distance_bound [of u v] by simp
  then show ?thesis using assms Begin by (auto simp: registry_begin_def split: if_splits option.splits)
next
  case (Walk a view current)
  then show ?thesis using assms version_distance_next [of current "op_target x"]
    by (auto simp: registry_walk_def Let_def split: if_splits prod.splits)
qed (use assms in \<open>auto simp: registry_copy_def registry_erase_def split: if_splits option.splits\<close>)

lemma registry_step_work: "registry_step me sth sth' \<Longrightarrow> registry_work sth' < registry_work sth"
  by (induction rule: registry_step.induct)
    (auto simp: registry_work_def registry_rank_pos dest: registry_exec_rank split: option.split)

text \<open>A thread can move if the entry mutex, or the map lock, it waits for is free.\<close>

lemma registry_exec_free:
  "lr_locked s = {} \<Longrightarrow> pc \<noteq> Start \<Longrightarrow> registry_exec me x pc s \<noteq> None"
  "\<not> lr_unique s \<Longrightarrow> lr_shared s = 0 \<Longrightarrow> registry_exec me x Start s \<noteq> None"
  by (cases pc; simp) (cases x; simp add: registry_start_def)

lemma registry_progress:
  assumes "registry_run_inv me xs sth" and "snd sth \<noteq> []"
  shows "\<exists>sth'. registry_step me sth sth'"
proof -
  obtain s ths where sth: "sth = (s, ths)" by fastforce
  have inv: "rw_counts reg_shared reg_unique ths (lr_shared s) (lr_unique s)" "reg_mutexes s ths"
    using assms(1) sth by (simp_all add: registry_run_inv_def reg_inv_def)
  have "\<exists>x pc. (x, pc) \<in> set ths \<and> registry_exec me x pc s \<noteq> None"
  proof (cases "lr_locked s = {}")
    case False
    then obtain a where "a \<in> lr_locked s" by blast
    then have "count_if (walks a) ths \<noteq> 0" using inv(2) by (simp add: reg_mutexes_def)
    then obtain x pc where "(x, pc) \<in> set ths" "walks a (x, pc)" by (auto simp: count_if_0)
    moreover from this obtain v c where "pc = Walk a v c" by (cases pc) (auto simp: walks_def)
    ultimately have "(x, Walk a v c) \<in> set ths" by simp
    then show ?thesis by (intro exI [of _ x] exI [of _ "Walk a v c"]) simp
  next
    case free: True
    show ?thesis
    proof (cases "\<forall>t \<in> set ths. snd t = Start")
      case True
      then have "count_if reg_shared ths = 0" "count_if reg_unique ths = 0"
        by (auto simp: count_if_0 reg_shared_def reg_unique_def)
      then have "\<not> lr_unique s" "lr_shared s = 0" using inv(1) by (auto simp: rw_counts_def split: if_splits)
      moreover obtain x where "(x, Start) \<in> set ths"
        using True assms(2) sth by (metis list.set_intros(1) neq_Nil_conv prod.collapse snd_conv)
      ultimately show ?thesis using registry_exec_free(2) by blast
    next
      case False
      then obtain x pc where "(x, pc) \<in> set ths" "pc \<noteq> Start" by fastforce
      then show ?thesis using registry_exec_free(1) [OF free] by blast
    qed
  qed
  then obtain x pc s' pc' before after where "ths = before @ (x, pc) # after" "registry_exec me x pc s = Some (s', pc')"
    by (metis in_set_conv_decomp not_None_eq surj_pair)
  then show ?thesis using registry_step.intros [of me x pc s s' pc' before after] sth by blast
qed

interpretation registry_calls: progress "registry_step me" "registry_run_inv me xs" registry_work "\<lambda>sth. snd sth = []" for me xs
  by unfold_locales (blast intro: registry_run_step registry_step_work registry_progress)+

subsection \<open>Schedules\<close>

text \<open>A run given by the position of the thread that moves next.\<close>

fun registry_schedule ::
  "MigrationEngine \<Rightarrow> nat list \<Rightarrow> Locked_registry \<times> registry_thread list \<Rightarrow> (Locked_registry \<times> registry_thread list) option" where
  "registry_schedule me [] sth = Some sth"
| "registry_schedule me (n # ns) (s, ths) =
     (if n < length ths then
        (case registry_exec me (fst (ths ! n)) (snd (ths ! n)) s of
           None \<Rightarrow> None
         | Some (s', pc') \<Rightarrow>
             registry_schedule me ns
               (s', moved (take n ths) (map_option (Pair (fst (ths ! n))) pc') (drop (Suc n) ths)))
      else None)"

lemma registry_schedule_steps:
  "registry_schedule me ns sth = Some sth' \<Longrightarrow> (registry_step me)\<^sup>*\<^sup>* sth sth'"
proof (induction me ns sth rule: registry_schedule.induct)
  case (2 me n ns s ths)
  then obtain s' pc' where n: "n < length ths"
    and exec: "registry_exec me (fst (ths ! n)) (snd (ths ! n)) s = Some (s', pc')"
    and rest: "registry_schedule me ns (s', moved (take n ths) (map_option (Pair (fst (ths ! n))) pc') (drop (Suc n) ths)) = Some sth'"
    by (auto split: if_splits option.splits)
  have "registry_step me (s, take n ths @ (fst (ths ! n), snd (ths ! n)) # drop (Suc n) ths)
      (s', moved (take n ths) (map_option (Pair (fst (ths ! n))) pc') (drop (Suc n) ths))"
    using exec by (rule registry_step.intros)
  moreover have "take n ths @ (fst (ths ! n), snd (ths ! n)) # drop (Suc n) ths = ths"
    using n by (simp add: id_take_nth_drop [symmetric])
  ultimately show ?case
    using "2.IH" [OF n exec refl rest] by (metis converse_rtranclp_into_rtranclp)
qed simp

lemma registry_schedule_reachable:
  "registry_schedule me ns (Locked_registry_new, map (\<lambda>x. (x, Start)) xs) = Some (s, ths) \<Longrightarrow> registry_reachable me xs s ths"
  unfolding registry_reachable_def by (rule registry_schedule_steps)

text \<open>The gap in \<open>Destroy\<close> between the erasure of the entry and the removal of the components.\<close>

lemma registry_destroy_gap:
  assumes "oh_object_id h = i" and "oh_object_id h' = i"
  shows "\<exists>s. registry_reachable me [R_Create h, R_Destroy i, R_Create h', R_Write i t d] s [] \<and>
      map fst (lr_history s) = [R_Create h, R_Destroy i, R_Create h', R_Write i t d] \<and>
      registry_view s i = Some h' \<and> component (lr_storage s) i t = None"
proof -
  have "\<exists>s. registry_schedule me [0, 0, 0, 0, 1, 1, 0]
        (Locked_registry_new, map (\<lambda>x. (x, Start)) [R_Create h, R_Destroy i, R_Create h', R_Write i t d]) = Some (s, []) \<and>
      map fst (lr_history s) = [R_Create h, R_Destroy i, R_Create h', R_Write i t d] \<and>
      registry_view s i = Some h' \<and> component (lr_storage s) i t = None"
    using assms
    by (simp add: registry_start_def registry_look_def registry_erase_def record_result_def locked_create_def
        Locked_registry_new_def Let_def registry_view_def component_RemoveAll)
  then show ?thesis
    by (elim exE conjE, intro exI conjI) (rule registry_schedule_reachable, assumption+)
qed

subsection \<open>A run with a migration\<close>

definition toggle_calls :: "registry_op list" where
  "toggle_calls = [R_Create (go_header toggle_object), R_Migrate 5 2, R_Get 5]"



text \<open>The migration is between two versions.\<close>

lemma toggle_migrating:
  "\<exists>s ths th. registry_schedule toggle_engine [0, 0, 0, 0]
       (Locked_registry_new, map (\<lambda>x. (x, Start)) toggle_calls) = Some (s, ths) \<and> th \<in> set ths \<and> walks 0 th"
  by (simp add: toggle_calls_def toggle_object_def registry_defs locked_create_def Locked_registry_new_def walks_def) fastforce

section \<open>Properties\<close>



text \<open>C9: Object registry under threads. In every state of every concurrent run, whatever the migration
  functions do, no call has touched an entry after it was freed, and at most one migration is working
  on an entry; while one is, the exclusive map lock is free, so the entry cannot be erased.\<close>

theorem registry_memory_safe:
  assumes "registry_reachable me xs s ths"
  shows "\<not> lr_bad s \<and> (\<forall>a. count_if (walks a) ths \<le> 1) \<and>
      (\<forall>th \<in> set ths. \<forall>a. walks a th \<longrightarrow> \<not> lr_unique s \<and> registry_view s (op_object (fst th)) \<noteq> None)"
proof (intro conjI ballI allI impI)
  have inv: "reg_inv me s ths" using registry_run_reachable [OF assms] by (simp add: registry_run_inv_def)
  then show "\<not> lr_bad s" by (simp add: reg_inv_def)
  show "count_if (walks a) ths \<le> 1" for a using inv by (simp add: reg_inv_def reg_mutexes_def)
  fix th a assume th: "th \<in> set ths" "walks a th"
  then have "reg_thread_ok me s th" "reg_table s" using inv by (auto simp: reg_inv_def list_all_iff)
  then show "registry_view s (op_object (fst th)) \<noteq> None"
    using th(2) reg_tableD(2) [of s "op_object (fst th)" a]
    by (auto simp: registry_view_def reg_thread_ok_def walks_def split: registry_pc.splits)
  have "0 < count_if reg_shared ths" using walks_shared [OF th(2)] th(1) count_if_0 [of reg_shared ths] by blast
  then show "\<not> lr_unique s" using inv by (auto simp: reg_inv_def rw_counts_def)
qed

theorem registry_memory_safe_witness:
  "\<exists>s ths th. registry_reachable toggle_engine toggle_calls s ths \<and> th \<in> set ths \<and> walks 0 th \<and>
      \<not> lr_bad s \<and> count_if (walks 0) ths \<le> 1 \<and> \<not> lr_unique s \<and> registry_view s (op_object (fst th)) \<noteq> None"
proof -
  obtain s ths th where run: "registry_schedule toggle_engine [0, 0, 0, 0]
      (Locked_registry_new, map (\<lambda>x. (x, Start)) toggle_calls) = Some (s, ths)"
    and th: "th \<in> set ths" "walks 0 th"
    using toggle_migrating by (elim exE conjE)
  note reach = registry_schedule_reachable [OF run]
  show ?thesis using registry_memory_safe [OF reach] reach th by blast
qed

text \<open>C10: Object registry under threads: termination and absence of deadlock. From every state of a concurrent
  run there is a bound on the number of further steps, whatever the scheduler does, and a state in
  which no thread can move is one in which every call has returned.\<close>

theorem registry_schedules_end:
  assumes "registry_reachable me xs s ths"
  shows "\<exists>bound. \<forall>n sth. (registry_step me ^^ n) (s, ths) sth \<longrightarrow>
      n \<le> bound \<and> ((\<nexists>sth'. registry_step me sth sth') \<longrightarrow> snd sth = [])"
proof (intro exI allI impI)
  fix n sth assume steps: "(registry_step me ^^ n) (s, ths) sth"
  note inv = registry_run_reachable [OF assms]
  have reach: "(registry_step me)\<^sup>*\<^sup>* (s, ths) sth" using steps by (rule relpowp_imp_rtranclp)
  show "n \<le> registry_work (s, ths) \<and> ((\<nexists>sth'. registry_step me sth sth') \<longrightarrow> snd sth = [])"
    using registry_calls.bounded [OF steps inv] registry_calls.maximal_finished [OF inv reach] by auto
qed

theorem registry_schedules_end_witness:
  "\<exists>bound. \<forall>n sth. (registry_step toggle_engine ^^ n) (Locked_registry_new, map (\<lambda>x. (x, Start)) toggle_calls) sth \<longrightarrow>
      n \<le> bound \<and> ((\<nexists>sth'. registry_step toggle_engine sth sth') \<longrightarrow> snd sth = [])"
  by (rule registry_schedules_end [where xs = toggle_calls]) (simp add: registry_reachable_def)

text \<open>C11: Object registry under threads, the gap in \<open>Destroy\<close>: the entry is erased under the map lock and the
  components are removed after it was released. For every id there is an interleaving in which the
  object is destroyed, created again and given a component, in this order, and the component of the
  new object is then removed by the old \<open>Destroy\<close>, although the object is still registered.\<close>

theorem registry_destroy_race:
  assumes "oh_object_id h = i" and "oh_object_id h' = i"
  shows "\<exists>s. registry_reachable me [R_Create h, R_Destroy i, R_Create h', R_Write i t d] s [] \<and>
      map fst (lr_history s) = [R_Create h, R_Destroy i, R_Create h', R_Write i t d] \<and>
      registry_view s i = Some h' \<and> component (lr_storage s) i t = None"
  using assms by (rule registry_destroy_gap)

theorem registry_destroy_race_witness:
  "\<exists>s. registry_reachable toggle_engine
        [R_Create (go_header toggle_object), R_Destroy 5, R_Create (go_header toggle_object), R_Write 5 7 [1]] s [] \<and>
      map fst (lr_history s) = [R_Create (go_header toggle_object), R_Destroy 5, R_Create (go_header toggle_object), R_Write 5 7 [1]] \<and>
      registry_view s 5 = Some (go_header toggle_object) \<and> component (lr_storage s) 5 7 = None"
  by (rule registry_destroy_race) (simp_all add: toggle_object_def)

end
