(* ===== verification/Gateway.thy ===== *)
theory Gateway
  imports Session_Writer Unordered_Map
begin

section \<open>The gateway\<close>

text \<open>
  The class \<open>Gateway\<close> of \<open>core/gateway.h\<close> and \<open>core/gateway.cpp\<close>: the table of message handlers, the
  table of live sessions, the accept loop, and what each completion handler of a session does to
  them. Sessions are shared objects (their own handlers keep them alive after they left the table),
  so the table holds addresses into a heap of sessions.
\<close>

subsection \<open>State\<close>

text \<open>\<open>ss_arrived\<close> records every byte that was handed to the reader.\<close>

record Session =
  ss_session_id :: u64
  ss_reader :: Reader
  ss_out :: Writer_run
  ss_arrived :: bytes

record 'h Gateway =
  gw_io :: "nat option"
  gw_handlers :: "(u32, 'h) umap"
  gw_sessions :: "(u64, nat) umap"
  gw_next_session_id :: u64

definition Gateway_new :: "'h Gateway" where
  "Gateway_new = \<lparr>gw_io = None, gw_handlers = um_empty, gw_sessions = um_empty, gw_next_session_id = 1\<rparr>"

text \<open>A call of a registered handler: the handler, session id, player id, message.\<close>

type_synonym 'h handler_call = "'h \<times> u64 \<times> u64 \<times> bytes"

text \<open>
  The gateway with its sessions: the heap, the number of sessions ever created (the next address),
  whether an \<open>async_accept\<close> is outstanding, and the handler calls so far.
\<close>

record 'h Gateway_world =
  gn_gateway :: "'h Gateway"
  gn_heap :: "(nat, Session) umap"
  gn_fresh :: nat
  gn_accepting :: bool
  gn_calls :: "'h handler_call list"

definition Gateway_world_new :: "'h Gateway_world" where
  "Gateway_world_new = \<lparr>gn_gateway = Gateway_new, gn_heap = um_empty, gn_fresh = 0, gn_accepting = False, gn_calls = []\<rparr>"

subsection \<open>Initialisation\<close>

text \<open>
  The calls into asio, as a trace; \<open>net t\<close> says whether the last call of \<open>t\<close> succeeded and
  \<open>v6 ip\<close> whether a well-formed address is an IPv6 one. Binding \<open>None\<close> is binding \<open>0.0.0.0\<close>.
\<close>

datatype net_call = Make_address string | Open_acceptor bool | Set_v6_only | Bind "string option" "16 word" | Listen

definition Gateway_Initialize ::
  "(net_call list \<Rightarrow> bool) \<Rightarrow> (string \<Rightarrow> bool) \<Rightarrow> nat \<Rightarrow> string \<Rightarrow> 16 word \<Rightarrow>
   'h Gateway_world \<times> net_call list \<Rightarrow> int \<times> 'h Gateway_world \<times> net_call list" where
  "Gateway_Initialize net v6 io ip port wt =
     (case wt of (w0, t0) \<Rightarrow>
        let w = w0\<lparr>gn_gateway := (gn_gateway w0)\<lparr>gw_io := Some io\<rparr>\<rparr>;
            t1 = t0 @ [Make_address ip];
            address = (if net t1 then Some ip else None);
            is_v6 = (case address of None \<Rightarrow> False | Some a \<Rightarrow> v6 a);
            t2 = t1 @ [Open_acceptor is_v6];
            t3 = (if net t2 \<and> is_v6 then t2 @ [Set_v6_only] else t2);
            t4 = t3 @ [Bind address port]
        in if \<not> net t4 then (- 1, w, t4)
           else let t5 = t4 @ [Listen]
                in if \<not> net t5 then (- 1, w, t5)
                   else (0, w\<lparr>gn_accepting := True\<rparr>, t5))"

subsection \<open>Handlers, sending and closing\<close>

definition Gateway_RegisterHandler :: "u32 \<Rightarrow> 'h \<Rightarrow> 'h Gateway \<Rightarrow> 'h Gateway" where
  "Gateway_RegisterHandler msg_type handler gw = gw\<lparr>gw_handlers := um_assign msg_type handler (gw_handlers gw)\<rparr>"

definition Gateway_OnReceive :: "u64 \<Rightarrow> u64 \<Rightarrow> bytes \<Rightarrow> 'h Gateway \<Rightarrow> 'h handler_call list" where
  "Gateway_OnReceive session_id player_id msg gw =
     (if length msg < 4 then []
      else let msg_type = load_u32 msg
           in case um_find (gw_handlers gw) msg_type of
                None \<Rightarrow> []
              | Some handler \<Rightarrow> [(handler, session_id, player_id, msg)])"

definition Gateway_OnSessionClosed :: "u64 \<Rightarrow> 'h Gateway \<Rightarrow> 'h Gateway" where
  "Gateway_OnSessionClosed session_id gw = gw\<lparr>gw_sessions := um_erase session_id (gw_sessions gw)\<rparr>"

definition set_session :: "nat \<Rightarrow> Session \<Rightarrow> 'h Gateway_world \<Rightarrow> 'h Gateway_world" where
  "set_session a s w = w\<lparr>gn_heap := um_assign a s (gn_heap w)\<rparr>"

definition close_session :: "u64 \<Rightarrow> 'h Gateway_world \<Rightarrow> 'h Gateway_world" where
  "close_session session_id w = w\<lparr>gn_gateway := Gateway_OnSessionClosed session_id (gn_gateway w)\<rparr>"

definition Gateway_Send :: "u64 \<Rightarrow> bytes \<Rightarrow> 'h Gateway_world \<Rightarrow> 'h Gateway_world" where
  "Gateway_Send session_id msg w =
     (case um_find (gw_sessions (gn_gateway w)) session_id of
        None \<Rightarrow> w
      | Some a \<Rightarrow>
          (case um_find (gn_heap w) a of
             None \<Rightarrow> w
           | Some s \<Rightarrow> set_session a (s\<lparr>ss_out := Session_Send msg (ss_out s)\<rparr>) w))"

subsection \<open>Completion handlers\<close>

text \<open>The handler of \<open>async_accept\<close>; it always starts the next accept.\<close>

definition Session_new :: "u64 \<Rightarrow> Session" where
  "Session_new session_id = \<lparr>ss_session_id = session_id, ss_reader = Reader_start, ss_out = Writer_run_new, ss_arrived = []\<rparr>"

definition Gateway_accepted :: "bool \<Rightarrow> 'h Gateway_world \<Rightarrow> 'h Gateway_world" where
  "Gateway_accepted ok w =
     (if \<not> gn_accepting w then w
      else if ok then
        let gw = gn_gateway w;
            session_id = gw_next_session_id gw;
            a = gn_fresh w
        in w\<lparr>gn_gateway := gw\<lparr>gw_next_session_id := session_id + 1,
               gw_sessions := um_assign session_id a (gw_sessions gw)\<rparr>,
             gn_heap := um_assign a (Session_new session_id) (gn_heap w), gn_fresh := Suc a\<rparr>
      else w)"

text \<open>Bytes arrive: every read that can complete does, and its messages go to the handlers.\<close>

definition Session_arrive :: "nat \<Rightarrow> bytes \<Rightarrow> 'h Gateway_world \<Rightarrow> 'h Gateway_world" where
  "Session_arrive a xs w =
     (case um_find (gn_heap w) a of
        None \<Rightarrow> w
      | Some s \<Rightarrow>
          if rd_pc (ss_reader s) = ReadClosed then w
          else
            case receive xs (ss_reader s) of (r, msgs) \<Rightarrow>
              let calls = concat (map (\<lambda>msg. Gateway_OnReceive (ss_session_id s) 0 msg (gn_gateway w)) msgs);
                  w1 = set_session a (s\<lparr>ss_reader := r, ss_arrived := ss_arrived s @ xs\<rparr>) (w\<lparr>gn_calls := gn_calls w @ calls\<rparr>)
              in if rd_pc r = ReadClosed then close_session (ss_session_id s) w1 else w1)"

text \<open>The outstanding read fails: \<open>HandleError\<close>, and no further read is started.\<close>

definition Session_read_error :: "nat \<Rightarrow> 'h Gateway_world \<Rightarrow> 'h Gateway_world" where
  "Session_read_error a w =
     (case um_find (gn_heap w) a of
        None \<Rightarrow> w
      | Some s \<Rightarrow>
          if rd_pc (ss_reader s) = ReadClosed then w
          else close_session (ss_session_id s)
                 (set_session a (s\<lparr>ss_reader := (ss_reader s)\<lparr>rd_pc := ReadClosed\<rparr>\<rparr>) w))"

text \<open>A posted closure runs; a write completes; a write fails after \<open>n\<close> of its bytes.\<close>

definition Session_run_posted :: "arg_order \<Rightarrow> nat \<Rightarrow> 'h Gateway_world \<Rightarrow> 'h Gateway_world" where
  "Session_run_posted order a w =
     (case um_find (gn_heap w) a of
        None \<Rightarrow> w
      | Some s \<Rightarrow>
          (case wn_posted (ss_out s) of
             [] \<Rightarrow> w
           | msg # posted \<Rightarrow>
               set_session a (s\<lparr>ss_out := started (Session_Send_task order msg (wn_writer (ss_out s)))
                 ((ss_out s)\<lparr>wn_posted := posted\<rparr>)\<rparr>) w))"

definition Session_written :: "arg_order \<Rightarrow> nat \<Rightarrow> 'h Gateway_world \<Rightarrow> 'h Gateway_world" where
  "Session_written order a w =
     (case um_find (gn_heap w) a of
        None \<Rightarrow> w
      | Some s \<Rightarrow>
          (case wn_pending (ss_out s) of
             [] \<Rightarrow> w
           | buf # bufs \<Rightarrow>
               set_session a (s\<lparr>ss_out := started (Session_write_handler order True (wn_writer (ss_out s)))
                 ((ss_out s)\<lparr>wn_pending := bufs, wn_wire := wn_wire (ss_out s) @ buf\<rparr>)\<rparr>) w))"

definition Session_write_error :: "arg_order \<Rightarrow> nat \<Rightarrow> nat \<Rightarrow> 'h Gateway_world \<Rightarrow> 'h Gateway_world" where
  "Session_write_error order n a w =
     (case um_find (gn_heap w) a of
        None \<Rightarrow> w
      | Some s \<Rightarrow>
          (case wn_pending (ss_out s) of
             [] \<Rightarrow> w
           | buf # bufs \<Rightarrow>
               close_session (ss_session_id s)
                 (set_session a (s\<lparr>ss_out := started (Session_write_handler order False (wn_writer (ss_out s)))
                   ((ss_out s)\<lparr>wn_pending := bufs, wn_wire := wn_wire (ss_out s) @ take n buf, wn_failed := True\<rparr>)\<rparr>) w)))"

subsection \<open>Events\<close>

datatype 'h gateway_event =
    Accepted bool
  | Arrive nat bytes
  | Read_error nat
  | Run_posted nat
  | Written nat
  | Write_error nat nat
  | Call_Send u64 bytes
  | Call_Register u32 'h

fun gateway_handle :: "arg_order \<Rightarrow> 'h gateway_event \<Rightarrow> 'h Gateway_world \<Rightarrow> 'h Gateway_world" where
  "gateway_handle order (Accepted ok) w = Gateway_accepted ok w"
| "gateway_handle order (Arrive a xs) w = Session_arrive a xs w"
| "gateway_handle order (Read_error a) w = Session_read_error a w"
| "gateway_handle order (Run_posted a) w = Session_run_posted order a w"
| "gateway_handle order (Written a) w = Session_written order a w"
| "gateway_handle order (Write_error n a) w = Session_write_error order n a w"
| "gateway_handle order (Call_Send session_id msg) w = Gateway_Send session_id msg w"
| "gateway_handle order (Call_Register t h) w = w\<lparr>gn_gateway := Gateway_RegisterHandler t h (gn_gateway w)\<rparr>"

definition gateway_run :: "arg_order \<Rightarrow> 'h gateway_event list \<Rightarrow> 'h Gateway_world \<Rightarrow> 'h Gateway_world" where
  "gateway_run order evs w = fold (gateway_handle order) evs w"

end
