(* ===== verification/Gateway_Invariant.thy ===== *)
theory Gateway_Invariant
  imports Gateway
begin

section \<open>The gateway: invariants of a run\<close>

text \<open>
  What holds after any sequence of events: the table of sessions lists exactly the open ones, every
  session's writer is a run of \<open>Session_Writer\<close>, and the handler calls are the messages of each
  session in the order its peer sent them, whatever the other sessions do in between.
\<close>

definition session_open :: "Session \<Rightarrow> bool" where
  "session_open s \<longleftrightarrow> rd_pc (ss_reader s) \<noteq> ReadClosed \<and> \<not> wn_failed (ss_out s)"

text \<open>The state of one session: its reader has consumed the bytes that arrived, its writer is reachable.\<close>

definition session_ok :: "arg_order \<Rightarrow> Session \<Rightarrow> bool" where
  "session_ok order s \<longleftrightarrow>
     (rd_pc (ss_reader s) \<noteq> ReadClosed \<longrightarrow> ss_reader s = fst (receive (ss_arrived s) Reader_start)) \<and>
     writer_reachable order (ss_out s)"

definition gateway_ok :: "arg_order \<Rightarrow> 'h Gateway_world \<Rightarrow> bool" where
  "gateway_ok order w \<longleftrightarrow>
     um_wf (gn_heap w) \<and> um_wf (gw_sessions (gn_gateway w)) \<and> gn_fresh w < 2 ^ 64 \<and>
     gw_next_session_id (gn_gateway w) = word_of_nat (Suc (gn_fresh w)) \<and>
     um.every (\<lambda>a s. a < gn_fresh w \<and> ss_session_id s = word_of_nat (Suc a) \<and> session_ok order s) (gn_heap w) \<and>
     (\<forall>i a. um_find (gw_sessions (gn_gateway w)) i = Some a \<longleftrightarrow>
       (\<exists>s. um_find (gn_heap w) a = Some s \<and> ss_session_id s = i \<and> session_open s))"

lemma gateway_ok_new: "gateway_ok order Gateway_world_new"
  by (simp add: gateway_ok_def Gateway_world_new_def Gateway_new_def um.every_empty)

lemma session_id_inject:
  "a < n \<Longrightarrow> b < n \<Longrightarrow> n < 2 ^ 64 \<Longrightarrow> (word_of_nat (Suc a) :: u64) = word_of_nat (Suc b) \<longleftrightarrow> a = b"
  by (simp add: word_of_nat_eq_iff take_bit_nat_eq_self del: of_nat_Suc)

lemma gateway_ok_session:
  assumes "gateway_ok order w" and "um_find (gn_heap w) a = Some s"
  shows "a < gn_fresh w" "ss_session_id s = word_of_nat (Suc a)" "session_ok order s"
  using assms um.every_find [OF _ assms(2)] unfolding gateway_ok_def by blast+

lemma gateway_ok_same_id:
  assumes "gateway_ok order w" and "um_find (gn_heap w) a = Some s" and "um_find (gn_heap w) b = Some t"
    and "ss_session_id s = ss_session_id t"
  shows "a = b"
proof -
  have "gn_fresh w < 2 ^ 64" using assms(1) by (simp add: gateway_ok_def)
  then show ?thesis
    using gateway_ok_session [OF assms(1,2)] gateway_ok_session [OF assms(1,3)] assms(4) session_id_inject by metis
qed

lemma gateway_ok_table:
  "gateway_ok order w \<Longrightarrow> um_find (gn_heap w) a = Some s \<Longrightarrow>
     um_find (gw_sessions (gn_gateway w)) (ss_session_id s) = Some a \<longleftrightarrow> session_open s"
  by (simp add: gateway_ok_def)

text \<open>One session changes; it leaves the table if it is closed on the way.\<close>

definition update_session :: "bool \<Rightarrow> nat \<Rightarrow> Session \<Rightarrow> 'h Gateway_world \<Rightarrow> 'h Gateway_world" where
  "update_session c a s w = (if c then close_session (ss_session_id s) (set_session a s w) else set_session a s w)"

lemma update_session_simps [simp]:
  "gn_heap (update_session c a s w) = um_assign a s (gn_heap w)"
  "gn_fresh (update_session c a s w) = gn_fresh w"
  "gn_calls (update_session c a s w) = gn_calls w"
  "gw_handlers (gn_gateway (update_session c a s w)) = gw_handlers (gn_gateway w)"
  "gw_next_session_id (gn_gateway (update_session c a s w)) = gw_next_session_id (gn_gateway w)"
  "gw_sessions (gn_gateway (update_session c a s w)) =
     (if c then um_erase (ss_session_id s) (gw_sessions (gn_gateway w)) else gw_sessions (gn_gateway w))"
  by (simp_all add: update_session_def close_session_def set_session_def Gateway_OnSessionClosed_def)

lemma gateway_ok_update:
  assumes ok: "gateway_ok order w" and s: "um_find (gn_heap w) a = Some s"
    and same: "ss_session_id s' = ss_session_id s" and s': "session_ok order s'"
    and closed: "if c then \<not> session_open s' else session_open s' = session_open s"
  shows "gateway_ok order (update_session c a s' w)"
proof -
  note this_session = gateway_ok_session [OF ok s]
  have ids: "b = a" if "um_find (gn_heap w) b = Some t" "ss_session_id t = ss_session_id s" for b t
    using gateway_ok_same_id [OF ok that(1) s that(2)] .
  have every: "um.every (\<lambda>a s. a < gn_fresh w \<and> ss_session_id s = word_of_nat (Suc a) \<and> session_ok order s)
      (um_assign a s' (gn_heap w))"
    using ok this_session same s' by (intro um.every_assign) (simp_all add: gateway_ok_def)
  have table: "um_find (gw_sessions (gn_gateway (update_session c a s' w))) i = Some b \<longleftrightarrow>
      (\<exists>t. um_find (um_assign a s' (gn_heap w)) b = Some t \<and> ss_session_id t = i \<and> session_open t)" for i b
  proof (cases "b = a")
    case True
    have old: "um_find (gw_sessions (gn_gateway w)) i = Some a \<longleftrightarrow> ss_session_id s = i \<and> session_open s"
      using ok s by (auto simp: gateway_ok_def)
    then show ?thesis using True same closed by (cases c) auto
  next
    case False
    have old: "um_find (gw_sessions (gn_gateway w)) i = Some b \<longleftrightarrow>
        (\<exists>t. um_find (gn_heap w) b = Some t \<and> ss_session_id t = i \<and> session_open t)"
      using ok by (simp add: gateway_ok_def)
    then show ?thesis using False same ids by (cases c) auto
  qed
  show ?thesis
    using ok every table unfolding gateway_ok_def by simp
qed

subsection \<open>Every event keeps the invariant\<close>

lemma gateway_ok_other [simp]:
  "gateway_ok order (w\<lparr>gn_calls := cs\<rparr>) = gateway_ok order w"
  "gateway_ok order (w\<lparr>gn_gateway := Gateway_RegisterHandler t h (gn_gateway w)\<rparr>) = gateway_ok order w"
  by (simp_all add: gateway_ok_def Gateway_RegisterHandler_def)

lemma receive_more:
  assumes "rd_pc (fst (receive xs Reader_start)) \<noteq> ReadClosed"
  shows "receive (xs @ ys) Reader_start =
     (case receive ys (fst (receive xs Reader_start)) of (r, ms) \<Rightarrow> (r, snd (receive xs Reader_start) @ ms))"
  using receive_chunks_concat [OF reader_wf_start, of "[xs, ys]"] at_header_idle [OF at_header_start]
  by (simp split: prod.splits)

lemma receive_nothing: "receive [] Reader_start = (Reader_start, [])"
  using receive_chunks_concat [OF reader_wf_start, of "[]"] at_header_idle [OF at_header_start] by simp

lemma session_ok_new: "session_ok order (Session_new i)"
  by (simp add: session_ok_def Session_new_def writer_reachable.start receive_nothing)

lemma session_ok_arrive:
  assumes "session_ok order s" and "rd_pc (ss_reader s) \<noteq> ReadClosed"
  shows "session_ok order (s\<lparr>ss_reader := fst (receive xs (ss_reader s)), ss_arrived := ss_arrived s @ xs\<rparr>)"
  using assms receive_more [of "ss_arrived s" xs] by (simp add: session_ok_def split: prod.splits)

lemma session_ok_closed: "session_ok order s \<Longrightarrow> session_ok order (s\<lparr>ss_reader := (ss_reader s)\<lparr>rd_pc := ReadClosed\<rparr>\<rparr>)"
  by (simp add: session_ok_def)

lemma session_ok_out:
  "session_ok order s \<Longrightarrow> writer_step order (ss_out s) out \<Longrightarrow> session_ok order (s\<lparr>ss_out := out\<rparr>)"
  by (auto simp: session_ok_def intro: writer_reachable.step)

text \<open>The calls that messages of one session give rise to.\<close>

definition dispatch :: "'h Gateway \<Rightarrow> u64 \<Rightarrow> bytes list \<Rightarrow> 'h handler_call list" where
  "dispatch gw i msgs = concat (map (\<lambda>msg. Gateway_OnReceive i 0 msg gw) msgs)"

abbreviation received :: "Session \<Rightarrow> bytes list" where
  "received s \<equiv> snd (receive (ss_arrived s) Reader_start)"

text \<open>What one event does to the sessions: nothing, or a change of one session with its calls.\<close>

inductive session_effect :: "arg_order \<Rightarrow> 'h Gateway_world \<Rightarrow> 'h Gateway_world \<Rightarrow> bool" for order w where
  nothing: "session_effect order w w"
| change: "um_find (gn_heap w) a = Some s \<Longrightarrow> ss_session_id s' = ss_session_id s \<Longrightarrow> session_ok order s' \<Longrightarrow>
     (if c then \<not> session_open s' else session_open s' = session_open s) \<Longrightarrow> received s' = received s @ ms \<Longrightarrow>
     session_effect order w (update_session c a s'
       (w\<lparr>gn_calls := gn_calls w @ dispatch (gn_gateway w) (ss_session_id s) ms\<rparr>))"

lemma gateway_ok_effect: "session_effect order w w' \<Longrightarrow> gateway_ok order w \<Longrightarrow> gateway_ok order w'"
proof (induction rule: session_effect.induct)
  case (change a s s' c ms)
  then show ?case by (intro gateway_ok_update [where s = s]) simp_all
qed

text \<open>A change that delivers no message.\<close>

lemma effect_quiet:
  "um_find (gn_heap w) a = Some s \<Longrightarrow> ss_session_id s' = ss_session_id s \<Longrightarrow> session_ok order s' \<Longrightarrow>
     (if c then \<not> session_open s' else session_open s' = session_open s) \<Longrightarrow> ss_arrived s' = ss_arrived s \<Longrightarrow>
     session_effect order w (update_session c a s' w)"
  using session_effect.change [of w a s s' order c "[]"] by (simp add: dispatch_def)

text \<open>A step of the writer, seen from the gateway.\<close>

lemma effect_out:
  assumes "gateway_ok order w" and "um_find (gn_heap w) a = Some s" and "writer_step order (ss_out s) out"
    and "if c then wn_failed out else wn_failed out = wn_failed (ss_out s)"
  shows "session_effect order w (update_session c a (s\<lparr>ss_out := out\<rparr>) w)"
  using assms
  by (intro effect_quiet [OF assms(2)]) (auto simp: session_ok_out gateway_ok_session session_open_def split: if_splits)

lemma Session_arrive_update:
  assumes "um_find (gn_heap w) a = Some s" and "rd_pc (ss_reader s) \<noteq> ReadClosed"
  shows "Session_arrive a xs w =
     (let r = fst (receive xs (ss_reader s)); msgs = snd (receive xs (ss_reader s))
      in update_session (rd_pc r = ReadClosed) a (s\<lparr>ss_reader := r, ss_arrived := ss_arrived s @ xs\<rparr>)
        (w\<lparr>gn_calls := gn_calls w @ dispatch (gn_gateway w) (ss_session_id s) msgs\<rparr>))"
  using assms by (simp add: dispatch_def Session_arrive_def update_session_def Let_def split: prod.split)

lemma effect_arrive: "gateway_ok order w \<Longrightarrow> session_effect order w (Session_arrive a xs w)"
proof -
  assume ok: "gateway_ok order w"
  show ?thesis
  proof (cases "um_find (gn_heap w) a")
    case None
    then show ?thesis by (simp add: Session_arrive_def session_effect.nothing)
  next
    case (Some s)
    show ?thesis
    proof (cases "rd_pc (ss_reader s) = ReadClosed")
      case True
      then show ?thesis using Some by (simp add: Session_arrive_def session_effect.nothing)
    next
      case False
      note good = gateway_ok_session(3) [OF ok Some]
      have "received (s\<lparr>ss_reader := fst (receive xs (ss_reader s)), ss_arrived := ss_arrived s @ xs\<rparr>)
          = received s @ snd (receive xs (ss_reader s))"
        using good False receive_more [of "ss_arrived s" xs] by (simp add: session_ok_def split: prod.splits)
      then show ?thesis
        using Some good False unfolding Session_arrive_update [OF Some False] Let_def
        by (intro session_effect.change) (simp_all add: session_ok_arrive session_open_def)
    qed
  qed
qed

lemma effect_read_error: "gateway_ok order w \<Longrightarrow> session_effect order w (Session_read_error a w)"
proof -
  assume ok: "gateway_ok order w"
  show ?thesis
  proof (cases "um_find (gn_heap w) a")
    case (Some s)
    have "Session_read_error a w = (if rd_pc (ss_reader s) = ReadClosed then w
        else update_session True a (s\<lparr>ss_reader := (ss_reader s)\<lparr>rd_pc := ReadClosed\<rparr>\<rparr>) w)"
      using Some by (simp add: Session_read_error_def update_session_def)
    then show ?thesis
      using effect_quiet [OF Some, of _ _ True] gateway_ok_session(3) [OF ok Some]
      by (simp add: session_ok_closed session_open_def session_effect.nothing)
  qed (simp add: Session_read_error_def session_effect.nothing)
qed

lemma effect_run_posted: "gateway_ok order w \<Longrightarrow> session_effect order w (Session_run_posted order a w)"
proof -
  assume ok: "gateway_ok order w"
  show ?thesis
  proof (cases "um_find (gn_heap w) a")
    case (Some s)
    show ?thesis
    proof (cases "wn_posted (ss_out s)")
      case (Cons msg posted)
      from effect_out [OF ok Some writer_step.turn [OF writer_turn.run [OF Cons]], of False]
      show ?thesis using Some Cons by (simp add: Session_run_posted_def update_session_def)
    qed (simp add: Session_run_posted_def Some session_effect.nothing)
  qed (simp add: Session_run_posted_def session_effect.nothing)
qed

lemma effect_written: "gateway_ok order w \<Longrightarrow> session_effect order w (Session_written order a w)"
proof -
  assume ok: "gateway_ok order w"
  show ?thesis
  proof (cases "um_find (gn_heap w) a")
    case (Some s)
    show ?thesis
    proof (cases "wn_pending (ss_out s)")
      case (Cons buf bufs)
      from effect_out [OF ok Some writer_step.turn [OF writer_turn.complete [OF Cons]], of False]
      show ?thesis using Some Cons by (simp add: Session_written_def update_session_def)
    qed (simp add: Session_written_def Some session_effect.nothing)
  qed (simp add: Session_written_def session_effect.nothing)
qed

lemma effect_write_error: "gateway_ok order w \<Longrightarrow> session_effect order w (Session_write_error order n a w)"
proof -
  assume ok: "gateway_ok order w"
  show ?thesis
  proof (cases "um_find (gn_heap w) a")
    case (Some s)
    show ?thesis
    proof (cases "wn_pending (ss_out s)")
      case (Cons buf bufs)
      from effect_out [OF ok Some writer_step.fail [OF Cons, of _ n], of True]
      show ?thesis using Some Cons by (simp add: Session_write_error_def update_session_def)
    qed (simp add: Session_write_error_def Some session_effect.nothing)
  qed (simp add: Session_write_error_def session_effect.nothing)
qed

lemma effect_Send: "gateway_ok order w \<Longrightarrow> session_effect order w (Gateway_Send i msg w)"
proof -
  assume ok: "gateway_ok order w"
  show ?thesis
  proof (cases "um_find (gw_sessions (gn_gateway w)) i")
    case (Some a)
    then obtain s where s: "um_find (gn_heap w) a = Some s" using ok by (auto simp: gateway_ok_def)
    from effect_out [OF ok s writer_step.send [of _ _ msg], of False]
    show ?thesis using Some s by (simp add: Gateway_Send_def update_session_def)
  qed (simp add: Gateway_Send_def session_effect.nothing)
qed

lemma gateway_ok_accepted:
  assumes ok: "gateway_ok order w" and bound: "Suc (gn_fresh w) < 2 ^ 64"
  shows "gateway_ok order (Gateway_accepted good w)"
proof (cases "gn_accepting w \<and> good")
  case True
  define i :: u64 where "i = word_of_nat (Suc (gn_fresh w))"
  have next_id: "gw_next_session_id (gn_gateway w) = i" using ok by (simp add: gateway_ok_def i_def)
  have old: "a < gn_fresh w \<and> ss_session_id s \<noteq> i" if "um_find (gn_heap w) a = Some s" for a s
    using gateway_ok_session [OF ok that] session_id_inject [of a "Suc (gn_fresh w)" "gn_fresh w"] bound
    by (simp add: i_def)
  have heap: "um.every (\<lambda>a s. a < Suc (gn_fresh w) \<and> ss_session_id s = word_of_nat (Suc a) \<and> session_ok order s)
      (um_assign (gn_fresh w) (Session_new i) (gn_heap w))"
  proof (rule um.every_assign)
    show "um.every (\<lambda>a s. a < Suc (gn_fresh w) \<and> ss_session_id s = word_of_nat (Suc a) \<and> session_ok order s) (gn_heap w)"
      using gateway_ok_session [OF ok] unfolding um.every_def by (metis less_SucI)
  qed (simp_all only: session_ok_new, simp add: i_def Session_new_def)
  have opened: "session_open (Session_new i)" "ss_session_id (Session_new i) = i"
    by (simp_all add: session_open_def Session_new_def Reader_start_def Writer_run_new_def)
  have table: "um_find (um_assign i (gn_fresh w) (gw_sessions (gn_gateway w))) j = Some b \<longleftrightarrow>
      (\<exists>t. um_find (um_assign (gn_fresh w) (Session_new i) (gn_heap w)) b = Some t \<and> ss_session_id t = j \<and> session_open t)" for j b
    using ok old opened by (auto simp: gateway_ok_def split: if_splits)
  show ?thesis
    using ok True next_id heap table bound unfolding gateway_ok_def
    by (simp add: Gateway_accepted_def Let_def i_def)
qed (use ok in \<open>auto simp: Gateway_accepted_def\<close>)

subsection \<open>Runs\<close>

lemma fresh_effect: "session_effect order w w' \<Longrightarrow> gn_fresh w' = gn_fresh w"
  by (induction rule: session_effect.induct) simp_all

lemma handle_effect:
  assumes "gateway_ok order w" and "\<nexists>good. ev = Accepted good" and "\<nexists>t h. ev = Call_Register t h"
  shows "session_effect order w (gateway_handle order ev w)"
  using assms
  by (cases ev) (simp_all add: effect_arrive effect_read_error effect_run_posted effect_written effect_write_error effect_Send)

lemma gateway_ok_handle:
  assumes ok: "gateway_ok order w" and bound: "Suc (gn_fresh w) < 2 ^ 64"
  shows "gateway_ok order (gateway_handle order ev w)" and "gn_fresh (gateway_handle order ev w) \<le> Suc (gn_fresh w)"
proof -
  have "gateway_ok order (gateway_handle order ev w) \<and> gn_fresh (gateway_handle order ev w) \<le> Suc (gn_fresh w)"
  proof (cases "(\<exists>good. ev = Accepted good) \<or> (\<exists>t h. ev = Call_Register t h)")
    case True
    then show ?thesis
      using ok gateway_ok_accepted [OF ok bound] by (auto simp: Gateway_accepted_def Let_def)
  next
    case False
    then have "session_effect order w (gateway_handle order ev w)" using handle_effect [OF ok] by blast
    then show ?thesis using gateway_ok_effect fresh_effect ok by fastforce
  qed
  then show "gateway_ok order (gateway_handle order ev w)" and "gn_fresh (gateway_handle order ev w) \<le> Suc (gn_fresh w)"
    by simp_all
qed

lemma gateway_ok_run:
  assumes "gateway_ok order w" and "gn_fresh w + length evs < 2 ^ 64"
  shows "gateway_ok order (gateway_run order evs w)"
  using assms
proof (induction evs arbitrary: w)
  case Nil
  then show ?case by (simp add: gateway_run_def)
next
  case (Cons ev evs)
  have "gateway_ok order (gateway_handle order ev w)" and "gn_fresh (gateway_handle order ev w) \<le> Suc (gn_fresh w)"
    using gateway_ok_handle [OF Cons.prems(1), of ev] Cons.prems(2) by simp_all
  then show ?case using Cons.IH [of "gateway_handle order ev w"] Cons.prems(2) by (simp add: gateway_run_def)
qed

subsection \<open>Handler calls\<close>

text \<open>The calls made for one session id.\<close>

definition calls_for :: "u64 \<Rightarrow> 'h handler_call list \<Rightarrow> 'h handler_call list" where
  "calls_for i calls = filter (\<lambda>c. fst (snd c) = i) calls"

definition calls_ok :: "'h Gateway_world \<Rightarrow> bool" where
  "calls_ok w \<longleftrightarrow>
     (\<forall>a s. um_find (gn_heap w) a = Some s \<longrightarrow>
        calls_for (ss_session_id s) (gn_calls w) = dispatch (gn_gateway w) (ss_session_id s) (received s)) \<and>
     (\<forall>c \<in> set (gn_calls w). \<exists>a < gn_fresh w. fst (snd c) = word_of_nat (Suc a))"

lemma dispatch_append [simp]: "dispatch gw i (xs @ ys) = dispatch gw i xs @ dispatch gw i ys"
  by (simp add: dispatch_def)

lemma calls_for_append [simp]: "calls_for i (xs @ ys) = calls_for i xs @ calls_for i ys"
  by (simp add: calls_for_def)

lemma dispatch_cong: "gw_handlers gw = gw_handlers gw' \<Longrightarrow> dispatch gw i msgs = dispatch gw' i msgs"
  by (simp add: dispatch_def Gateway_OnReceive_def cong: if_cong)

lemma dispatch_id: "c \<in> set (dispatch gw i msgs) \<Longrightarrow> fst (snd c) = i"
  by (auto simp: dispatch_def Gateway_OnReceive_def Let_def split: if_splits option.splits)

lemma calls_for_dispatch: "calls_for i (dispatch gw j msgs) = (if i = j then dispatch gw j msgs else [])"
  using dispatch_id [of _ gw j msgs] by (auto simp: calls_for_def filter_id_conv filter_empty_conv)

lemma calls_ok_effect:
  assumes "session_effect order w w'" and ok: "gateway_ok order w" and calls: "calls_ok w"
  shows "calls_ok w'"
  using assms(1)
proof cases
  case nothing
  then show ?thesis using calls by simp
next
  case (change a s s' c ms)
  have w': "gn_heap w' = um_assign a s' (gn_heap w)" "gn_fresh w' = gn_fresh w"
    "gn_calls w' = gn_calls w @ dispatch (gn_gateway w) (ss_session_id s) ms"
    using change(1) by simp_all
  have same_handlers: "dispatch (gn_gateway w') i msgs = dispatch (gn_gateway w) i msgs" for i msgs
    using change(1) by (intro dispatch_cong) simp
  have other: "ss_session_id t \<noteq> ss_session_id s" if "um_find (gn_heap w) b = Some t" "b \<noteq> a" for b t
    using gateway_ok_same_id [OF ok that(1) change(2)] that(2) by blast
  have per_session: "calls_for (ss_session_id t) (gn_calls w') = dispatch (gn_gateway w') (ss_session_id t) (received t)"
    if t: "um_find (gn_heap w') b = Some t" for b t
  proof (cases "b = a")
    case True
    then have t: "t = s'" using t w' by simp
    have "calls_for (ss_session_id s) (gn_calls w) = dispatch (gn_gateway w) (ss_session_id s) (received s)"
      using calls change(2) by (simp add: calls_ok_def)
    then show ?thesis
      by (simp add: t w' change(3,6) same_handlers calls_for_dispatch)
  next
    case False
    then have t: "um_find (gn_heap w) b = Some t" using t w' by simp
    then have "calls_for (ss_session_id t) (gn_calls w) = dispatch (gn_gateway w) (ss_session_id t) (received t)"
      using calls by (simp add: calls_ok_def)
    then show ?thesis using other [OF t False] by (simp add: w' same_handlers calls_for_dispatch)
  qed
  have "\<exists>a < gn_fresh w'. fst (snd call) = word_of_nat (Suc a)" if "call \<in> set (gn_calls w')" for call
    using that calls gateway_ok_session(1,2) [OF ok change(2)] dispatch_id [of call]
    by (auto simp: calls_ok_def w' simp del: of_nat_Suc)
  then show ?thesis using per_session by (simp add: calls_ok_def)
qed

lemma calls_ok_accepted:
  assumes ok: "gateway_ok order w" and calls: "calls_ok w" and bound: "Suc (gn_fresh w) < 2 ^ 64"
  shows "calls_ok (Gateway_accepted good w)"
proof (cases "gn_accepting w \<and> good")
  case True
  define i :: u64 where "i = word_of_nat (Suc (gn_fresh w))"
  define w' where "w' = Gateway_accepted good w"
  have next_id: "gw_next_session_id (gn_gateway w) = i" using ok by (simp add: gateway_ok_def i_def)
  have w': "gn_heap w' = um_assign (gn_fresh w) (Session_new i) (gn_heap w)" "gn_calls w' = gn_calls w"
    "gn_fresh w' = Suc (gn_fresh w)" "gw_handlers (gn_gateway w') = gw_handlers (gn_gateway w)"
    using True next_id by (simp_all add: w'_def Gateway_accepted_def Let_def)
  have new: "calls_for i (gn_calls w) = []"
    using calls session_id_inject [of _ "Suc (gn_fresh w)" "gn_fresh w"] bound
    unfolding calls_ok_def calls_for_def i_def filter_empty_conv by (metis less_SucI lessI less_irrefl)
  have "calls_for (ss_session_id t) (gn_calls w') = dispatch (gn_gateway w') (ss_session_id t) (received t)"
    if "um_find (gn_heap w') b = Some t" for b t
  proof (cases "b = gn_fresh w")
    case True
    then have "t = Session_new i" using that w' by simp
    then show ?thesis using new w'(2) by (simp add: Session_new_def receive_nothing dispatch_def)
  next
    case False
    then have "um_find (gn_heap w) b = Some t" using that w' by simp
    then show ?thesis using calls w'(2) dispatch_cong [OF w'(4)] by (simp add: calls_ok_def)
  qed
  moreover have "\<exists>a < gn_fresh w'. fst (snd c) = word_of_nat (Suc a)" if "c \<in> set (gn_calls w')" for c
    using that calls w' unfolding calls_ok_def by (metis less_SucI)
  ultimately show ?thesis by (simp add: calls_ok_def w'_def)
qed (use calls in \<open>auto simp: Gateway_accepted_def\<close>)

lemma calls_ok_new: "calls_ok Gateway_world_new"
  by (simp add: calls_ok_def Gateway_world_new_def)

text \<open>Registering handlers first and receiving afterwards.\<close>

definition is_register :: "'h gateway_event \<Rightarrow> bool" where
  "is_register ev \<longleftrightarrow> (case ev of Call_Register _ _ \<Rightarrow> True | _ \<Rightarrow> False)"

lemma calls_ok_run:
  assumes "gateway_ok order w" and "calls_ok w" and "gn_fresh w + length evs < 2 ^ 64"
    and "\<not> list_ex is_register evs"
  shows "calls_ok (gateway_run order evs w)"
  using assms
proof (induction evs arbitrary: w)
  case Nil
  then show ?case by (simp add: gateway_run_def)
next
  case (Cons ev evs)
  have ok: "gateway_ok order (gateway_handle order ev w)" and fresh: "gn_fresh (gateway_handle order ev w) \<le> Suc (gn_fresh w)"
    using gateway_ok_handle [OF Cons.prems(1), of ev] Cons.prems(3) by simp_all
  have "calls_ok (gateway_handle order ev w)"
  proof (cases "\<exists>good. ev = Accepted good")
    case True
    then show ?thesis using calls_ok_accepted [OF Cons.prems(1,2)] Cons.prems(3) by auto
  next
    case False
    then have "session_effect order w (gateway_handle order ev w)"
      using handle_effect [OF Cons.prems(1), of ev] Cons.prems(4) by (fastforce simp: is_register_def)
    then show ?thesis using calls_ok_effect Cons.prems(1,2) by blast
  qed
  then show ?case
    using Cons.IH [of "gateway_handle order ev w"] ok fresh Cons.prems(3,4) by (simp add: gateway_run_def)
qed

subsection \<open>Runs from initialisation\<close>

lemma Gateway_Initialize_fields:
  assumes "Gateway_Initialize net v6 io ip port (w, t) = (r, w', t')"
  shows "gw_handlers (gn_gateway w') = gw_handlers (gn_gateway w)" "gn_calls w' = gn_calls w" "gn_heap w' = gn_heap w"
    "gn_fresh w' = gn_fresh w" "gw_sessions (gn_gateway w') = gw_sessions (gn_gateway w)"
    "gw_next_session_id (gn_gateway w') = gw_next_session_id (gn_gateway w)"
  using assms by (auto simp: Gateway_Initialize_def Let_def split: if_splits)

definition gateway_start :: "(net_call list \<Rightarrow> bool) \<Rightarrow> (string \<Rightarrow> bool) \<Rightarrow> string \<Rightarrow> 16 word \<Rightarrow> 'h Gateway_world" where
  "gateway_start net v6 ip port = fst (snd (Gateway_Initialize net v6 0 ip port (Gateway_world_new, [])))"

lemma gateway_start_fields:
  "gw_handlers (gn_gateway (gateway_start net v6 ip port)) = um_empty" "gn_calls (gateway_start net v6 ip port) = []"
  "gn_heap (gateway_start net v6 ip port) = um_empty" "gn_fresh (gateway_start net v6 ip port) = 0"
  "gw_sessions (gn_gateway (gateway_start net v6 ip port)) = um_empty"
  "gw_next_session_id (gn_gateway (gateway_start net v6 ip port)) = 1"
proof -
  obtain r w' t' where "Gateway_Initialize net v6 0 ip port (Gateway_world_new :: 'h Gateway_world, []) = (r, w', t')"
    by (cases "Gateway_Initialize net v6 0 ip port (Gateway_world_new :: 'h Gateway_world, [])") auto
  from Gateway_Initialize_fields [OF this] this show
    "gw_handlers (gn_gateway (gateway_start net v6 ip port :: 'h Gateway_world)) = um_empty"
    "gn_calls (gateway_start net v6 ip port :: 'h Gateway_world) = []"
    "gn_heap (gateway_start net v6 ip port :: 'h Gateway_world) = um_empty"
    "gn_fresh (gateway_start net v6 ip port :: 'h Gateway_world) = 0"
    "gw_sessions (gn_gateway (gateway_start net v6 ip port :: 'h Gateway_world)) = um_empty"
    "gw_next_session_id (gn_gateway (gateway_start net v6 ip port :: 'h Gateway_world)) = 1"
    by (simp_all add: gateway_start_def Gateway_world_new_def Gateway_new_def)
qed

lemma gateway_ok_start: "gateway_ok order (gateway_start net v6 ip port)"
  by (simp add: gateway_ok_def gateway_start_fields um.every_empty)

text \<open>Registering handlers before the first session.\<close>

lemma register_run:
  "list_all is_register regs \<Longrightarrow> gn_heap w = um_empty \<Longrightarrow> gn_calls w = [] \<Longrightarrow> gateway_ok order w \<Longrightarrow>
     gn_heap (gateway_run order regs w) = um_empty \<and> gn_calls (gateway_run order regs w) = [] \<and>
     gateway_ok order (gateway_run order regs w) \<and> gn_fresh (gateway_run order regs w) = gn_fresh w"
proof (induction regs arbitrary: w)
  case (Cons ev regs)
  then obtain t h where "ev = Call_Register t h" by (auto simp: is_register_def split: gateway_event.splits)
  then show ?case using Cons by (simp add: gateway_run_def)
qed (simp add: gateway_run_def)

lemma calls_for_run:
  assumes "list_all is_register regs" and "\<not> list_ex is_register evs" and "length evs < 2 ^ 64"
    and "um_find (gn_heap (gateway_run order evs (gateway_run order regs (gateway_start net v6 ip port)))) a = Some s"
  shows "calls_for (ss_session_id s) (gn_calls (gateway_run order evs (gateway_run order regs (gateway_start net v6 ip port)))) =
     dispatch (gn_gateway (gateway_run order evs (gateway_run order regs (gateway_start net v6 ip port)))) (ss_session_id s) (received s)"
proof -
  let ?w = "gateway_run order regs (gateway_start net v6 ip port)"
  have w: "gn_heap ?w = um_empty" "gn_calls ?w = []" "gateway_ok order ?w" "gn_fresh ?w = 0"
    using register_run [OF assms(1) gateway_start_fields(3,2) gateway_ok_start] by (simp_all add: gateway_start_fields)
  then have "calls_ok ?w" by (simp add: calls_ok_def)
  from calls_ok_run [OF w(3) this] assms(2,3) w(4) have "calls_ok (gateway_run order evs ?w)" by simp
  then show ?thesis using assms(4) by (simp add: calls_ok_def)
qed

lemma Gateway_Initialize_result:
  assumes "Gateway_Initialize net v6 io ip port (w, t) = (r, w', t')" and "\<not> gn_accepting w"
  shows "(gn_accepting w' \<longleftrightarrow> r = 0) \<and> r \<in> {0, - 1} \<and>
     (r = 0 \<longrightarrow> (\<exists>t1. t' = t1 @ [Bind (if net (t @ [Make_address ip]) then Some ip else None) port, Listen] \<and>
        net (butlast t') \<and> net t'))"
  using assms by (auto simp: Gateway_Initialize_def Let_def butlast_append split: if_splits)

text \<open>One client that sends one message.\<close>

definition one_client :: "nat gateway_event list" where
  "one_client = [Accepted True, Arrive 0 (Session_frame [5, 0, 0, 0])]"

lemma one_client_session:
  "\<exists>s. um_find (gn_heap (gateway_run order one_client (gateway_run order [Call_Register 5 0] (gateway_start (\<lambda>_. True) v6 ip port)))) 0 = Some s \<and>
     ss_session_id s = 1 \<and> ss_arrived s = concat (map Session_frame [[5, 0, 0, 0]])"
  by (simp add: gateway_run_def one_client_def gateway_start_def Gateway_Initialize_def Gateway_world_new_def Gateway_new_def
      Gateway_RegisterHandler_def Gateway_accepted_def Session_arrive_def Session_new_def Reader_start_def set_session_def
      close_session_def Let_def split: prod.split)

section \<open>Properties\<close>

text \<open>C34: Gateway. After any events following \<open>Initialize\<close> (fewer than \<open>2 ^ 64\<close> of them, so that session ids do
  not wrap) a session is in the table, under its own id, exactly while it is open: neither closed by
  its peer, by a bad frame or by a read error, nor failed on a write.\<close>

theorem gateway_session_table:
  assumes "length evs < 2 ^ 64"
    and "um_find (gn_heap (gateway_run order evs (gateway_start net v6 ip port))) a = Some s"
  shows "um_find (gw_sessions (gn_gateway (gateway_run order evs (gateway_start net v6 ip port)))) (ss_session_id s) = Some a
      \<longleftrightarrow> session_open s"
  using gateway_ok_table [OF gateway_ok_run [OF gateway_ok_start] assms(2)] assms(1) by (simp add: gateway_start_fields)

theorem gateway_session_table_witness:
  "\<exists>s. um_find (gn_heap (gateway_run Buffer_first [Accepted True] (gateway_start (\<lambda>_. True) (\<lambda>_. False) ''::'' 80))) 0 = Some s \<and>
      (um_find (gw_sessions (gn_gateway (gateway_run Buffer_first [Accepted True]
         (gateway_start (\<lambda>_. True) (\<lambda>_. False) ''::'' 80)))) (ss_session_id s) = Some 0 \<longleftrightarrow> session_open s)"
proof -
  have "um_find (gn_heap (gateway_run Buffer_first [Accepted True] (gateway_start (\<lambda>_. True) (\<lambda>_. False) ''::'' 80))) 0
      = Some (Session_new 1)"
    by (simp add: gateway_run_def gateway_start_def Gateway_Initialize_def Gateway_world_new_def Gateway_new_def
        Gateway_accepted_def Let_def)
  from gateway_session_table [OF _ this] this show ?thesis by auto
qed

text \<open>C35: Gateway, end to end. Register handlers, then let any events happen, on any number of sessions. If
  the bytes that arrived for a session are the frames of \<open>msgs\<close>, the handler calls with this session's
  id are exactly the messages with a registered type, in the order sent, each with the whole message.\<close>

theorem gateway_dispatch_in_order:
  assumes "list_all is_register regs" and "\<not> list_ex is_register evs" and "length evs < 2 ^ 64"
    and "um_find (gn_heap (gateway_run order evs (gateway_run order regs (gateway_start net v6 ip port)))) a = Some s"
    and "ss_arrived s = concat (map Session_frame msgs)" and "list_all framable msgs"
  shows "calls_for (ss_session_id s) (gn_calls (gateway_run order evs (gateway_run order regs (gateway_start net v6 ip port)))) =
      dispatch (gn_gateway (gateway_run order evs (gateway_run order regs (gateway_start net v6 ip port)))) (ss_session_id s) msgs"
  using calls_for_run [OF assms(1-4)] receive_frames(1) [OF at_header_start assms(6)] assms(5) by simp

theorem gateway_dispatch_in_order_witness:
  "calls_for 1 (gn_calls (gateway_run Buffer_first one_client (gateway_run Buffer_first [Call_Register 5 0]
        (gateway_start (\<lambda>_. True) (\<lambda>_. False) ''::'' 80)))) =
      dispatch (gn_gateway (gateway_run Buffer_first one_client (gateway_run Buffer_first [Call_Register 5 0]
        (gateway_start (\<lambda>_. True) (\<lambda>_. False) ''::'' 80)))) 1 [[5, 0, 0, 0]]"
proof -
  obtain s where s: "um_find (gn_heap (gateway_run Buffer_first one_client (gateway_run Buffer_first [Call_Register 5 0]
        (gateway_start (\<lambda>_. True) (\<lambda>_. False) ''::'' 80)))) 0 = Some s" "ss_session_id s = 1"
      "ss_arrived s = concat (map Session_frame [[5, 0, 0, 0]])"
    using one_client_session by blast
  have regs: "list_all is_register [Call_Register 5 (0 :: nat)]" and evs: "\<not> list_ex is_register one_client"
    and len: "length one_client < 2 ^ 64" and fr: "list_all framable [[5, 0, 0, 0]]"
    by (simp_all add: is_register_def one_client_def framable_def)
  show ?thesis using gateway_dispatch_in_order [OF regs evs len s(1,3) fr] s(2) by simp
qed

end
