(* ===== verification/Logging.thy ===== *)
theory Logging
  imports Prelude
begin

section \<open>The rotating log file\<close>

text \<open>
  The class \<open>DateRotatingFileSink\<close> of \<open>core/logging.cpp\<close>. The sink writes through spdlog's
  \<open>file_helper\<close> and moves files with \<open>std::filesystem\<close>; spdlog is not part of the repository, so
  these calls are an argument \<open>fo\<close> of every definition, over an abstract world of files. The locale
  \<open>log_files\<close> states what the code relies on: \<open>open\<close> opens for appending and creates the file, and
  a write appends to the open file. The theorems hold for every such \<open>fo\<close>; a file system that keeps
  its files in a table shows that there is one.
\<close>

record 'w file_ops =
  fo_open :: "string \<Rightarrow> 'w \<Rightarrow> 'w"
  fo_close :: "'w \<Rightarrow> 'w"
  fo_flush :: "'w \<Rightarrow> 'w"
  fo_size :: "'w \<Rightarrow> nat"
  fo_put :: "bytes \<Rightarrow> 'w \<Rightarrow> 'w"
  fo_exists :: "string \<Rightarrow> 'w \<Rightarrow> bool"
  fo_remove :: "string \<Rightarrow> 'w \<Rightarrow> 'w"
  fo_rename :: "string \<Rightarrow> string \<Rightarrow> 'w \<Rightarrow> 'w"

record DateRotatingFileSink =
  lg_base_filename :: string
  lg_max_size :: nat
  lg_max_files :: nat
  lg_current_size :: nat

definition g_min_file_size :: nat where
  "g_min_file_size = 100 * 1024 * 1024"

definition g_max_file_num :: nat where
  "g_max_file_num = 1000"

subsection \<open>File names\<close>

text \<open>\<open>std::to_string\<close> of a size.\<close>

fun to_decimal :: "nat \<Rightarrow> string" where
  "to_decimal n = (if n < 10 then [char_of (48 + n)] else to_decimal (n div 10) @ [char_of (48 + n mod 10)])"

declare to_decimal.simps [simp del]

definition CalcFilename :: "string \<Rightarrow> nat \<Rightarrow> string" where
  "CalcFilename filename index = (if index = 0 then filename else filename @ ''.'' @ to_decimal index)"

definition GetLogFilename :: "string \<Rightarrow> string" where
  "GetLogFilename date = date @ ''.log''"

definition of_decimal :: "string \<Rightarrow> nat" where
  "of_decimal ds = foldl (\<lambda>n d. n * 10 + (of_char d - 48)) 0 ds"

lemma of_to_decimal: "of_decimal (to_decimal n) = n"
proof (induction n rule: to_decimal.induct)
  case (1 n)
  show ?case
  proof (cases "n < 10")
    case True
    then show ?thesis by (simp add: to_decimal.simps [of n] of_decimal_def)
  next
    case False
    then show ?thesis using 1 by (simp add: to_decimal.simps [of n] of_decimal_def)
  qed
qed

lemma to_decimal_inject: "to_decimal m = to_decimal n \<longleftrightarrow> m = n"
  using of_to_decimal by metis

lemma CalcFilename_inject: "CalcFilename f i = CalcFilename f j \<longleftrightarrow> i = j"
  by (simp add: CalcFilename_def to_decimal_inject)

subsection \<open>Operations\<close>

text \<open>The loop of \<open>Rotate\<close>, from \<open>i = max_files_\<close> down to 1.\<close>

primrec rotate_loop :: "'w file_ops \<Rightarrow> string \<Rightarrow> nat \<Rightarrow> 'w \<Rightarrow> 'w" where
  "rotate_loop fo f 0 w = w"
| "rotate_loop fo f (Suc i) w =
     (let src = CalcFilename f i; target = CalcFilename f (Suc i)
      in rotate_loop fo f i (if \<not> fo_exists fo src w then w else fo_rename fo src target (fo_remove fo target w)))"

definition Sink_Rotate :: "'w file_ops \<Rightarrow> DateRotatingFileSink \<times> 'w \<Rightarrow> DateRotatingFileSink \<times> 'w" where
  "Sink_Rotate fo sw =
     (case sw of (s, w0) \<Rightarrow>
        let w1 = fo_close fo w0;
            w2 = rotate_loop fo (lg_base_filename s) (lg_max_files s) w1;
            w3 = fo_open fo (lg_base_filename s) w2
        in (s\<lparr>lg_current_size := 0\<rparr>, w3))"

definition Sink_CheckDateAndRotate ::
  "'w file_ops \<Rightarrow> string \<Rightarrow> DateRotatingFileSink \<times> 'w \<Rightarrow> DateRotatingFileSink \<times> 'w" where
  "Sink_CheckDateAndRotate fo date sw =
     (case sw of (s, w0) \<Rightarrow>
        let new_filename = GetLogFilename date
        in if new_filename = lg_base_filename s then (s, w0)
           else let w1 = fo_open fo new_filename (fo_close fo (fo_flush fo w0))
                in (s\<lparr>lg_base_filename := new_filename, lg_current_size := fo_size fo w1\<rparr>, w1))"

definition Sink_sink_it ::
  "'w file_ops \<Rightarrow> string \<Rightarrow> bytes \<Rightarrow> DateRotatingFileSink \<times> 'w \<Rightarrow> DateRotatingFileSink \<times> 'w" where
  "Sink_sink_it fo date formatted sw =
     (case Sink_CheckDateAndRotate fo date sw of (s1, w1) \<Rightarrow>
        let new_size = lg_current_size s1 + length formatted;
            (s2, w2, new_size2) =
              (if lg_max_size s1 < new_size then
                 let w1' = fo_flush fo w1
                 in if 0 < fo_size fo w1' then
                      (case Sink_Rotate fo (s1, w1') of (s', w') \<Rightarrow> (s', w', length formatted))
                    else (s1, w1', new_size)
               else (s1, w1, new_size))
        in (s2\<lparr>lg_current_size := new_size2\<rparr>, fo_put fo formatted w2))"

definition Sink_new ::
  "'w file_ops \<Rightarrow> string \<Rightarrow> nat \<Rightarrow> nat \<Rightarrow> 'w \<Rightarrow> DateRotatingFileSink \<times> 'w" where
  "Sink_new fo base_filename max_size max_files w =
     (let w1 = fo_open fo base_filename w
      in (\<lparr>lg_base_filename = base_filename, lg_max_size = max max_size g_min_file_size,
            lg_max_files = min max_files g_max_file_num, lg_current_size = fo_size fo w1\<rparr>, w1))"

text \<open>\<open>InitLogging\<close>: the sink for today's file (the levels it sets are spdlog's state).\<close>

definition InitLogging_sink ::
  "'w file_ops \<Rightarrow> string \<Rightarrow> nat \<Rightarrow> nat \<Rightarrow> 'w \<Rightarrow> DateRotatingFileSink \<times> 'w" where
  "InitLogging_sink fo date file_size rotate_file_num w =
     Sink_new fo (GetLogFilename date) file_size rotate_file_num w"

subsection \<open>What the code relies on\<close>

text \<open>\<open>content w f\<close> is what file \<open>f\<close> holds, \<open>None\<close> if there is no such file; \<open>opened w\<close> is the open file.\<close>

locale log_files =
  fixes fo :: "'w file_ops"
    and content :: "'w \<Rightarrow> string \<Rightarrow> bytes option"
    and opened :: "'w \<Rightarrow> string option"
  assumes open_content: "content (fo_open fo f w) g = (if g = f then Some (case content w f of None \<Rightarrow> [] | Some c \<Rightarrow> c) else content w g)"
    and open_opened: "opened (fo_open fo f w) = Some f"
    and close_content: "content (fo_close fo w) = content w"
    and flush_content: "content (fo_flush fo w) = content w"
    and flush_opened: "opened (fo_flush fo w) = opened w"
    and put_content: "opened w = Some f \<Longrightarrow> content w f = Some c \<Longrightarrow>
          content (fo_put fo bs w) g = (if g = f then Some (c @ bs) else content w g)"
    and put_opened: "opened (fo_put fo bs w) = opened w"
    and size_content: "opened w = Some f \<Longrightarrow> content w f = Some c \<Longrightarrow> fo_size fo w = length c"
    and exists_content: "fo_exists fo f w \<longleftrightarrow> content w f \<noteq> None"
    and remove_content: "content (fo_remove fo f w) g = (if g = f then None else content w g)"
    and rename_content: "f \<noteq> g \<Longrightarrow> content (fo_rename fo f g w) h =
          (if h = g then content w f else if h = f then None else content w h)"
begin

text \<open>The numbered files after the loop: each existing file has moved up by one.\<close>

lemma rotate_other:
  "\<forall>i \<le> n. g \<noteq> CalcFilename f i \<Longrightarrow> content (rotate_loop fo f n w) g = content w g"
  by (induction n arbitrary: w)
    (auto simp: Let_def exists_content remove_content rename_content CalcFilename_inject)

lemma rotate_high:
  "n < k \<Longrightarrow> content (rotate_loop fo f n w) (CalcFilename f k) = content w (CalcFilename f k)"
  by (rule rotate_other) (simp add: CalcFilename_inject)

lemma rotate_step:
  "content (if \<not> fo_exists fo (CalcFilename f i) w then w
     else fo_rename fo (CalcFilename f i) (CalcFilename f (Suc i)) (fo_remove fo (CalcFilename f (Suc i)) w)) (CalcFilename f k) =
   (if content w (CalcFilename f i) = None then content w (CalcFilename f k)
    else if k = Suc i then content w (CalcFilename f i) else if k = i then None else content w (CalcFilename f k))"
  by (simp add: exists_content remove_content rename_content CalcFilename_inject)

lemma rotate_moves:
  "content (rotate_loop fo f n w) (CalcFilename f k) =
     (if n < k then content w (CalcFilename f k)
      else if 0 < k \<and> content w (CalcFilename f (k - 1)) \<noteq> None then content w (CalcFilename f (k - 1))
      else if k < n then None
      else content w (CalcFilename f k))"
proof (induction n arbitrary: w)
  case 0
  then show ?case by simp
next
  case (Suc n)
  define w1 where "w1 = (if \<not> fo_exists fo (CalcFilename f n) w then w
     else fo_rename fo (CalcFilename f n) (CalcFilename f (Suc n)) (fo_remove fo (CalcFilename f (Suc n)) w))"
  have loop: "rotate_loop fo f (Suc n) w = rotate_loop fo f n w1" by (simp add: w1_def Let_def)
  have step: "content w1 (CalcFilename f j) =
     (if content w (CalcFilename f n) = None then content w (CalcFilename f j)
      else if j = Suc n then content w (CalcFilename f n) else if j = n then None else content w (CalcFilename f j))" for j
    unfolding w1_def by (rule rotate_step)
  consider "Suc n < k" | "k = Suc n" | "k \<le> n" by linarith
  then show ?case
    unfolding loop Suc.IH by cases (auto simp: step)
qed

lemma rotate_loop_other:
  assumes "\<forall>i. g \<noteq> CalcFilename f i"
  shows "content (rotate_loop fo f n w) g = content w g"
  by (rule rotate_other) (use assms in blast)

text \<open>The sink's view of its file: it is open, and \<open>current_size_\<close> is its size.\<close>

definition sink_ok :: "DateRotatingFileSink \<Rightarrow> 'w \<Rightarrow> bool" where
  "sink_ok s w \<longleftrightarrow> opened w = Some (lg_base_filename s) \<and>
     (\<exists>c. content w (lg_base_filename s) = Some c \<and> lg_current_size s = length c)"

lemma sink_ok_new: "Sink_new fo f m n w = (s, w') \<Longrightarrow> sink_ok s w'"
  by (auto simp: Sink_new_def sink_ok_def Let_def open_content open_opened size_content)

lemma sink_ok_date: "sink_ok s w \<Longrightarrow> Sink_CheckDateAndRotate fo date (s, w) = (s', w') \<Longrightarrow>
     sink_ok s' w' \<and> lg_base_filename s' = GetLogFilename date \<and> lg_max_size s' = lg_max_size s \<and> lg_max_files s' = lg_max_files s"
  by (auto simp: Sink_CheckDateAndRotate_def sink_ok_def Let_def open_content open_opened size_content split: if_splits)

text \<open>With at least one rotated file kept, \<open>Rotate\<close> starts an empty file and loses only the oldest.\<close>

lemma Rotate_files:
  assumes "Sink_Rotate fo (s, w) = (s', w')" and "0 < lg_max_files s"
  shows "opened w' = Some (lg_base_filename s)"
    and "content w' (lg_base_filename s) = Some []"
    and "content w (CalcFilename (lg_base_filename s) k) = Some c \<Longrightarrow> k < lg_max_files s \<Longrightarrow>
      content w' (CalcFilename (lg_base_filename s) (Suc k)) = Some c"
    and "s' = s\<lparr>lg_current_size := 0\<rparr>"
proof -
  let ?f = "lg_base_filename s"
  have w': "w' = fo_open fo ?f (rotate_loop fo ?f (lg_max_files s) (fo_close fo w))" "s' = s\<lparr>lg_current_size := 0\<rparr>"
    using assms(1) by (auto simp: Sink_Rotate_def Let_def)
  have f0: "?f = CalcFilename ?f 0" by (simp add: CalcFilename_def)
  have up: "CalcFilename ?f (Suc k) \<noteq> ?f" by (simp add: CalcFilename_def)
  have "content (rotate_loop fo ?f (lg_max_files s) (fo_close fo w)) ?f = None"
    using rotate_moves [of ?f "lg_max_files s" "fo_close fo w" 0] f0 assms(2) by simp
  then show "content w' ?f = Some []" by (simp add: w' open_content)
  show "opened w' = Some ?f" by (simp add: w' open_opened)
  show "content w' (CalcFilename ?f (Suc k)) = Some c"
    if "content w (CalcFilename ?f k) = Some c" "k < lg_max_files s"
    using that up rotate_moves [of ?f "lg_max_files s" "fo_close fo w" "Suc k"] by (simp add: w' open_content close_content)
  show "s' = s\<lparr>lg_current_size := 0\<rparr>" by (fact w')
qed

text \<open>With none kept, \<open>Rotate\<close> reopens the same file but forgets its size.\<close>

lemma Rotate_none:
  assumes "lg_max_files s = 0" and "sink_ok s w"
  shows "Sink_Rotate fo (s, w) = (s\<lparr>lg_current_size := 0\<rparr>, fo_open fo (lg_base_filename s) (fo_close fo w))"
    and "content (fo_open fo (lg_base_filename s) (fo_close fo w)) = content w"
  using assms by (auto simp: Sink_Rotate_def Let_def fun_eq_iff open_content close_content sink_ok_def)

text \<open>One log line, after the check of the date.\<close>

lemma sink_it_date:
  assumes "Sink_CheckDateAndRotate fo date (s, w) = (s1, w1)" and "sink_ok s1 w1"
    and "content w1 (lg_base_filename s1) = Some c"
  shows "Sink_sink_it fo date msg (s, w) =
     (if lg_max_size s1 < length c + length msg then
        if 0 < length c then
          (case Sink_Rotate fo (s1, fo_flush fo w1) of (s', w') \<Rightarrow> (s'\<lparr>lg_current_size := length msg\<rparr>, fo_put fo msg w'))
        else (s1\<lparr>lg_current_size := length msg\<rparr>, fo_put fo msg (fo_flush fo w1))
      else (s1\<lparr>lg_current_size := length c + length msg\<rparr>, fo_put fo msg w1))"
proof -
  have "lg_current_size s1 = length c" using assms(2,3) by (simp add: sink_ok_def)
  moreover have "fo_size fo (fo_flush fo w1) = length c"
    using assms(2,3) size_content [of "fo_flush fo w1"] by (simp add: sink_ok_def flush_content flush_opened)
  ultimately show ?thesis
    using assms(1) by (auto simp: Sink_sink_it_def Let_def split: prod.split)
qed

lemma sink_it_rotates:
  assumes date: "Sink_CheckDateAndRotate fo date (s, w) = (s1, w1)" and ok: "sink_ok s1 w1"
    and c: "content w1 (lg_base_filename s1) = Some c" and keep: "0 < lg_max_files s1"
    and it: "Sink_sink_it fo date msg (s, w) = (s', w')"
  shows "sink_ok s' w'"
    and "content w' (lg_base_filename s1) =
      Some (if lg_max_size s1 < length c + length msg then msg else c @ msg)"
    and "lg_max_size s1 < length c + length msg \<Longrightarrow> 0 < length c \<Longrightarrow>
      content w' (CalcFilename (lg_base_filename s1) 1) = Some c"
proof -
  let ?f = "lg_base_filename s1"
  have opened1: "opened w1 = Some ?f" using ok by (simp add: sink_ok_def)
  note unfold = sink_it_date [OF date ok c, of msg]
  have all: "sink_ok s' w' \<and> content w' ?f = Some (if lg_max_size s1 < length c + length msg then msg else c @ msg) \<and>
      (lg_max_size s1 < length c + length msg \<and> 0 < length c \<longrightarrow> content w' (CalcFilename ?f 1) = Some c)"
  proof (cases "lg_max_size s1 < length c + length msg \<and> 0 < length c")
    case True
    obtain s2 w2 where rot: "Sink_Rotate fo (s1, fo_flush fo w1) = (s2, w2)" by fastforce
    note files = Rotate_files [OF rot keep]
    have eq: "s' = s2\<lparr>lg_current_size := length msg\<rparr>" "w' = fo_put fo msg w2"
      using it unfold True rot by auto
    have put: "content w' g = (if g = ?f then Some msg else content w2 g)" for g
      using put_content [OF files(1,2)] eq by simp
    have "content w2 (CalcFilename ?f 1) = Some c"
      using files(3) [of 0 c] c keep by (simp add: CalcFilename_def flush_content)
    moreover have "CalcFilename ?f 1 \<noteq> ?f" by (simp add: CalcFilename_def)
    ultimately show ?thesis
      using put files(1,4) eq True by (simp add: sink_ok_def put_opened)
  next
    case False
    then show ?thesis
      using it unfold c opened1
      by (auto simp: sink_ok_def put_content put_opened flush_content flush_opened split: if_splits)
  qed
  show "sink_ok s' w'"
    and "content w' ?f = Some (if lg_max_size s1 < length c + length msg then msg else c @ msg)"
    and "lg_max_size s1 < length c + length msg \<Longrightarrow> 0 < length c \<Longrightarrow> content w' (CalcFilename ?f 1) = Some c"
    using all by blast+
qed

lemma sink_it_unlimited:
  assumes date: "Sink_CheckDateAndRotate fo date (s, w) = (s1, w1)" and ok: "sink_ok s1 w1"
    and c: "content w1 (lg_base_filename s1) = Some c" and none: "lg_max_files s1 = 0"
  shows "content (snd (Sink_sink_it fo date msg (s, w))) (lg_base_filename s1) = Some (c @ msg)"
proof -
  let ?f = "lg_base_filename s1"
  have ok': "sink_ok s1 (fo_flush fo w1)" using ok by (simp add: sink_ok_def flush_content flush_opened)
  have opened1: "opened w1 = Some ?f" using ok by (simp add: sink_ok_def)
  define w2 where "w2 = fo_open fo ?f (fo_close fo (fo_flush fo w1))"
  have rot: "Sink_Rotate fo (s1, fo_flush fo w1) = (s1\<lparr>lg_current_size := 0\<rparr>, w2)"
    and "content w2 = content w1"
    using Rotate_none [OF none ok'] by (simp_all add: w2_def flush_content)
  moreover have "opened w2 = Some ?f" by (simp add: w2_def open_opened)
  ultimately show ?thesis
    using sink_it_date [OF date ok c, of msg] c opened1
    by (simp add: put_content flush_content flush_opened)
qed

lemma Sink_date_max: "Sink_CheckDateAndRotate fo date (s, w) = (s1, w1) \<Longrightarrow> lg_max_files s1 = lg_max_files s"
  by (auto simp: Sink_CheckDateAndRotate_def Let_def split: if_splits)

end

subsection \<open>Files in a table\<close>

record Files =
  fl_table :: "(string \<times> bytes) list"
  fl_open :: "string option"

definition table_files :: "Files file_ops" where
  "table_files =
     \<lparr>fo_open = (\<lambda>f w. w\<lparr>fl_table := (case map_of (fl_table w) f of None \<Rightarrow> AList.update f [] (fl_table w) | Some _ \<Rightarrow> fl_table w),
                        fl_open := Some f\<rparr>),
      fo_close = (\<lambda>w. w\<lparr>fl_open := None\<rparr>),
      fo_flush = (\<lambda>w. w),
      fo_size = (\<lambda>w. case fl_open w of None \<Rightarrow> 0
                  | Some f \<Rightarrow> (case map_of (fl_table w) f of None \<Rightarrow> 0 | Some c \<Rightarrow> length c)),
      fo_put = (\<lambda>bs w. case fl_open w of None \<Rightarrow> w
                  | Some f \<Rightarrow> (case map_of (fl_table w) f of None \<Rightarrow> w
                       | Some c \<Rightarrow> w\<lparr>fl_table := AList.update f (c @ bs) (fl_table w)\<rparr>)),
      fo_exists = (\<lambda>f w. map_of (fl_table w) f \<noteq> None),
      fo_remove = (\<lambda>f w. w\<lparr>fl_table := AList.delete f (fl_table w)\<rparr>),
      fo_rename = (\<lambda>f g w. case map_of (fl_table w) f of
                     None \<Rightarrow> w\<lparr>fl_table := AList.delete g (fl_table w)\<rparr>
                   | Some c \<Rightarrow> w\<lparr>fl_table := AList.update g c (AList.delete f (fl_table w))\<rparr>)\<rparr>"

definition files_content :: "Files \<Rightarrow> string \<Rightarrow> bytes option" where
  "files_content w f = map_of (fl_table w) f"

lemma files_update [simp]: "map_of (AList.update k v m) k' = (if k' = k then Some v else map_of m k')"
  by (simp add: update_conv')

lemma files_delete [simp]: "map_of (AList.delete k m) k' = (if k' = k then None else map_of m k')"
  by (simp add: delete_conv')

interpretation table_files: log_files table_files files_content fl_open
  by unfold_locales
    (auto simp: table_files_def files_content_def fun_eq_iff split: option.splits)

text \<open>A file of one byte at a limit of one byte.\<close>

definition full_sink :: DateRotatingFileSink where
  "full_sink = \<lparr>lg_base_filename = ''d.log'', lg_max_size = 1, lg_max_files = 2, lg_current_size = 1\<rparr>"

definition full_files :: Files where
  "full_files = \<lparr>fl_table = [(''d.log'', [1])], fl_open = Some ''d.log''\<rparr>"

section \<open>Properties\<close>

text \<open>C36: Log sink, for any file library that meets \<open>log_files\<close>. With at least one rotated file kept, a line is
  appended to the day's file while it fits; otherwise the file is moved to suffix \<open>.1\<close> and the line is
  alone in a new one. So the file never exceeds the limit unless it is a single line, and
  \<open>current_size_\<close> is its size.\<close>

theorem log_rotation:
  assumes "log_files fo content opened"
    and "Sink_CheckDateAndRotate fo date (s, w) = (s1, w1)" and "log_files.sink_ok content opened s1 w1"
    and "content w1 (lg_base_filename s1) = Some c" and "0 < lg_max_files s1"
    and "Sink_sink_it fo date msg (s, w) = (s', w')"
  shows "log_files.sink_ok content opened s' w' \<and>
      content w' (lg_base_filename s1) = Some (if lg_max_size s1 < length c + length msg then msg else c @ msg) \<and>
      (lg_max_size s1 < length c + length msg \<longrightarrow> 0 < length c \<longrightarrow>
         content w' (CalcFilename (lg_base_filename s1) 1) = Some c)"
  using log_files.sink_it_rotates [OF assms] by blast

theorem log_rotation_witness:
  "\<exists>s' w'. Sink_sink_it table_files ''d'' [2] (full_sink, full_files) = (s', w') \<and>
      log_files.sink_ok files_content fl_open s' w' \<and> files_content w' ''d.log'' = Some [2] \<and>
      files_content w' ''d.log.1'' = Some [1]"
proof -
  obtain s' w' where it: "Sink_sink_it table_files ''d'' [2] (full_sink, full_files) = (s', w')" by fastforce
  have date: "Sink_CheckDateAndRotate table_files ''d'' (full_sink, full_files) = (full_sink, full_files)"
    by (simp add: Sink_CheckDateAndRotate_def GetLogFilename_def full_sink_def)
  have ok: "log_files.sink_ok files_content fl_open full_sink full_files"
    by (simp add: table_files.sink_ok_def full_sink_def full_files_def files_content_def)
  have c: "files_content full_files (lg_base_filename full_sink) = Some [1]" and keep: "0 < lg_max_files full_sink"
    by (simp_all add: full_sink_def full_files_def files_content_def)
  have one: "CalcFilename ''d.log'' 1 = ''d.log.1''" by code_simp
  show ?thesis
    using log_rotation [OF table_files.log_files_axioms date ok c keep it] it one by (simp add: full_sink_def)
qed

end
