(* ===== verification/Log_Macros.thy ===== *)
theory Log_Macros
  imports Prelude "HOL-Library.Signed_Division"
begin

section \<open>Rate-limited logging\<close>

text \<open>
  The macros \<open>LOG_EVERY_N\<close>, \<open>LOG_FIRST_N\<close> and \<open>LOG_EVERY_MS\<close> of \<open>core/logging.h\<close>. Each call site
  has a static atomic counter or time stamp of type \<open>int64_t\<close>, a 64-bit word read as signed; one
  evaluation returns whether the message is logged and the new value. \<open>fetch_add\<close> wraps.
\<close>

definition log_every_n :: "int \<Rightarrow> u64 \<Rightarrow> bool \<times> u64" where
  "log_every_n n counter = (sint counter smod n = 0, counter + 1)"

definition log_first_n :: "int \<Rightarrow> u64 \<Rightarrow> bool \<times> u64" where
  "log_first_n n counter = (sint counter < n, counter + 1)"

text \<open>
  \<open>LOG_EVERY_MS\<close>: \<open>now\<close> is the steady clock; \<open>race\<close> is the time stamp the exchange finds, which is
  another one than \<open>stamp\<close> (the loaded \<open>last\<close>) if a second thread got in between. \<open>weak\<close> is a spurious failure of
  \<open>compare_exchange_weak\<close>.
\<close>

definition log_every_ms :: "int \<Rightarrow> int \<Rightarrow> bool \<Rightarrow> int \<Rightarrow> int \<Rightarrow> bool \<times> int" where
  "log_every_ms ms now weak race stamp =
     (if ms \<le> now - stamp then
        (if race = stamp \<and> \<not> weak then (True, now) else (False, race))
      else (False, race))"

text \<open>The macros that expand to these.\<close>

definition log_every_sec :: "int \<Rightarrow> int \<Rightarrow> bool \<Rightarrow> int \<Rightarrow> int \<Rightarrow> bool \<times> int" where
  "log_every_sec sec = log_every_ms (sec * 1000)"

definition log_once :: "u64 \<Rightarrow> bool \<times> u64" where
  "log_once = log_first_n 1"

text \<open>
  The level macros and what they pass to spdlog; \<open>CHECK_WITH_\<close>\<open>level\<close>\<open>_LOG\<close> logs and makes the enclosing
  function return -1 (\<open>Some (- 1)\<close>) when its condition is false.
\<close>

datatype log_level = TRACE | DEBUG | INFO | WARN | ERROR | FATAL

definition check_with :: "log_level \<Rightarrow> bool \<Rightarrow> 'm \<Rightarrow> (log_level \<times> 'm) list \<Rightarrow> int option \<times> (log_level \<times> 'm) list" where
  "check_with level condition msg log =
     (if \<not> condition then (Some (- 1), log @ [(level, msg)]) else (None, log))"

subsection \<open>The counters\<close>

primrec log_calls :: "(u64 \<Rightarrow> bool \<times> u64) \<Rightarrow> nat \<Rightarrow> u64 \<Rightarrow> bool list" where
  "log_calls f 0 counter = []"
| "log_calls f (Suc k) counter = (case f counter of (b, c) \<Rightarrow> b # log_calls f k c)"

lemma sint_count:
  assumes "c < 2 ^ 63"
  shows "sint (word_of_nat c :: u64) = int c"
proof -
  have "signed_take_bit 63 (int c) = int c"
    using assms by (simp add: signed_take_bit_int_eq_self)
  then show ?thesis by (simp add: signed_of_nat)
qed

lemma log_calls_count:
  assumes "\<And>c. f c = (P (sint c), c + 1)" and "c + k \<le> 2 ^ 63"
  shows "log_calls f k (word_of_nat c) = map (\<lambda>i. P (int i)) [c ..< c + k]"
  using assms(2)
proof (induction k arbitrary: c)
  case 0
  then show ?case by simp
next
  case (Suc k)
  have "(word_of_nat c :: u64) + 1 = word_of_nat (Suc c)" by simp
  then show ?case
    using Suc.IH [of "Suc c"] Suc.prems sint_count [of c]
    by (simp add: assms(1) upt_conv_Cons del: of_nat_Suc upt_Suc)
qed

lemma log_every_n_calls:
  assumes "k \<le> 2 ^ 63"
  shows "log_calls (log_every_n (int n)) k 0 = map (\<lambda>i. n dvd i) [0 ..< k]"
proof -
  have dvd: "int i smod int n = 0 \<longleftrightarrow> n dvd i" for i
    by (cases "n = 0") (auto simp: signed_modulo_int_def signed_divide_int_def dvd_eq_mod_eq_0 simp flip: of_nat_mod zdiv_int of_nat_mult)
  show ?thesis
    using log_calls_count [of "log_every_n (int n)" "\<lambda>x. x smod int n = 0" 0 k] assms
    by (simp add: log_every_n_def dvd)
qed

lemma log_first_n_calls:
  assumes "k \<le> 2 ^ 63"
  shows "log_calls (log_first_n (int n)) k 0 = map (\<lambda>i. i < n) [0 ..< k]"
  using log_calls_count [of "log_first_n (int n)" "\<lambda>x. x < int n" 0 k] assms by (simp add: log_first_n_def)

lemma log_once_calls:
  assumes "k \<le> 2 ^ 63"
  shows "log_calls log_once k 0 = map (\<lambda>i. i = 0) [0 ..< k]"
  using log_first_n_calls [OF assms, of 1] by (simp add: log_once_def)

subsection \<open>The time stamp under threads\<close>

text \<open>
  Any number of threads evaluate \<open>LOG_EVERY_MS\<close> at one call site. A thread reads the clock and loads the
  stamp in one step and does the exchange in another, with anything in between; \<open>ts_loaded\<close> are the
  threads between the two, \<open>ts_logged\<close> the clock values of the messages that were logged.
\<close>

record throttle_site =
  ts_stamp :: int
  ts_loaded :: "(int \<times> int) list"
  ts_logged :: "int list"

definition throttle_new :: throttle_site where
  "throttle_new = \<lparr>ts_stamp = 0, ts_loaded = [], ts_logged = []\<rparr>"

definition throttle_load :: "int \<Rightarrow> throttle_site \<Rightarrow> throttle_site" where
  "throttle_load now s = s\<lparr>ts_loaded := (now, ts_stamp s) # ts_loaded s\<rparr>"

definition throttle_exchange :: "int \<Rightarrow> bool \<Rightarrow> nat \<Rightarrow> throttle_site \<Rightarrow> throttle_site" where
  "throttle_exchange ms weak n s =
     (case ts_loaded s ! n of (now, seen) \<Rightarrow>
        case log_every_ms ms now weak (ts_stamp s) seen of (logged, stamp) \<Rightarrow>
          s\<lparr>ts_stamp := stamp, ts_loaded := take n (ts_loaded s) @ drop (Suc n) (ts_loaded s),
            ts_logged := (if logged then ts_logged s @ [now] else ts_logged s)\<rparr>)"

inductive throttle_reachable :: "int \<Rightarrow> throttle_site \<Rightarrow> bool" for ms where
  start: "throttle_reachable ms throttle_new"
| load: "throttle_reachable ms s \<Longrightarrow> throttle_reachable ms (throttle_load now s)"
| exchange: "throttle_reachable ms s \<Longrightarrow> n < length (ts_loaded s) \<Longrightarrow> throttle_reachable ms (throttle_exchange ms weak n s)"

text \<open>Logged times are at least \<open>ms\<close> apart, the first one at least \<open>ms\<close> after the epoch of the clock.\<close>

fun spaced :: "int \<Rightarrow> int \<Rightarrow> int list \<Rightarrow> bool" where
  "spaced ms stamp [] = True"
| "spaced ms stamp (t # ts) = (ms \<le> t - stamp \<and> spaced ms t ts)"

lemma spaced_append: "spaced ms stamp (ts @ [t]) \<longleftrightarrow> spaced ms stamp ts \<and> ms \<le> t - last (stamp # ts)"
  by (induction ts arbitrary: stamp) auto

lemma throttle_inv: "throttle_reachable ms s \<Longrightarrow> spaced ms 0 (ts_logged s) \<and> ts_stamp s = last (0 # ts_logged s)"
proof (induction rule: throttle_reachable.induct)
  case (exchange s n weak)
  then show ?case
    by (auto simp: throttle_exchange_def log_every_ms_def spaced_append split: prod.splits if_splits)
qed (simp_all add: throttle_new_def throttle_load_def)

end
