(* ===== verification/Server_Main.thy ===== *)
theory Server_Main
  imports Module_Resources Wasmedge_Resources Actor_Runtime Gateway_Invariant Logging Log_Macros
begin

section \<open>The server process\<close>

text \<open>
  \<open>main.cpp\<close>: reading the configuration, the order of initialisation, the io threads, the tick timer,
  the signal loop and the heap dumps. The YAML parser is a parameter (\<open>None\<close> stands for any exception it
  throws; every handler of \<open>LoadServerConfig\<close> does the same), as are the network, the log files, the
  creation of threads, jemalloc's \<open>mallctl\<close> and the WasmEdge runtime. Command-line parsing has already
  produced the path.
\<close>

subsection \<open>Configuration\<close>

record ServerConfig =
  sc_server_name :: string
  sc_listen_ip :: string
  sc_listen_port :: "16 word"
  sc_thread_num :: u64
  sc_log_level :: string
  sc_flush_log_level :: string
  sc_max_file_size :: u64
  sc_max_rotate_file_num :: u64


record 'n yaml_env =
  ye_LoadFile :: "string \<Rightarrow> 'n option"
  ye_as_string :: "'n \<Rightarrow> string \<Rightarrow> string option"
  ye_as_u16 :: "'n \<Rightarrow> string \<Rightarrow> 16 word option"
  ye_as_size :: "'n \<Rightarrow> string \<Rightarrow> u64 option"

text \<open>One assignment \<open>server_config.f = config["f"].as<T>()\<close>, skipped after an exception.\<close>

definition load_field :: "'v option \<Rightarrow> ('v \<Rightarrow> ServerConfig \<Rightarrow> ServerConfig) \<Rightarrow> bool \<times> ServerConfig \<Rightarrow> bool \<times> ServerConfig" where
  "load_field v set_field st =
     (if \<not> fst st then st else case v of None \<Rightarrow> (False, snd st) | Some x \<Rightarrow> (True, set_field x (snd st)))"

definition load_fields :: "'n yaml_env \<Rightarrow> 'n \<Rightarrow> ServerConfig \<Rightarrow> bool \<times> ServerConfig" where
  "load_fields ye n cfg =
     (let s0 = (True, cfg);
          s1 = load_field (ye_as_string ye n ''server_name'') (\<lambda>v c. c\<lparr>sc_server_name := v\<rparr>) s0;
          s2 = load_field (ye_as_string ye n ''listen_ip'') (\<lambda>v c. c\<lparr>sc_listen_ip := v\<rparr>) s1;
          s3 = load_field (ye_as_u16 ye n ''listen_port'') (\<lambda>v c. c\<lparr>sc_listen_port := v\<rparr>) s2;
          s4 = load_field (ye_as_size ye n ''thread_num'') (\<lambda>v c. c\<lparr>sc_thread_num := v\<rparr>) s3;
          s5 = load_field (ye_as_string ye n ''log_level'') (\<lambda>v c. c\<lparr>sc_log_level := v\<rparr>) s4;
          s6 = load_field (ye_as_string ye n ''flush_log_level'') (\<lambda>v c. c\<lparr>sc_flush_log_level := v\<rparr>) s5;
          s7 = load_field (ye_as_size ye n ''max_file_size'') (\<lambda>v c. c\<lparr>sc_max_file_size := v\<rparr>) s6
      in load_field (ye_as_size ye n ''max_rotate_file_num'') (\<lambda>v c. c\<lparr>sc_max_rotate_file_num := v\<rparr>) s7)"


lemma load_field_ok: "fst (load_field v set_field st) \<longleftrightarrow> fst st \<and> v \<noteq> None"
  by (auto simp: load_field_def split: option.split)

lemma load_fields_ok:
  "fst (load_fields ye n cfg) \<longleftrightarrow>
     list_all (\<lambda>f. ye_as_string ye n f \<noteq> None) [''server_name'', ''listen_ip'', ''log_level'', ''flush_log_level''] \<and>
     ye_as_u16 ye n ''listen_port'' \<noteq> None \<and>
     list_all (\<lambda>f. ye_as_size ye n f \<noteq> None) [''thread_num'', ''max_file_size'', ''max_rotate_file_num'']"
  unfolding load_fields_def Let_def load_field_ok by auto

lemma load_field_present: "v \<noteq> None \<Longrightarrow> load_field v set_field (True, cfg) = (True, set_field (the v) cfg)"
  by (auto simp: load_field_def)

text \<open>A complete configuration file determines the whole configuration.\<close>

lemma load_fields_values:
  assumes "fst (load_fields ye n cfg)"
  shows "snd (load_fields ye n cfg) =
     \<lparr>sc_server_name = the (ye_as_string ye n ''server_name''), sc_listen_ip = the (ye_as_string ye n ''listen_ip''),
      sc_listen_port = the (ye_as_u16 ye n ''listen_port''), sc_thread_num = the (ye_as_size ye n ''thread_num''),
      sc_log_level = the (ye_as_string ye n ''log_level''),
      sc_flush_log_level = the (ye_as_string ye n ''flush_log_level''),
      sc_max_file_size = the (ye_as_size ye n ''max_file_size''),
      sc_max_rotate_file_num = the (ye_as_size ye n ''max_rotate_file_num'')\<rparr>"
  using assms unfolding load_fields_ok list.pred_inject
  by (elim conjE) (simp only: load_fields_def Let_def load_field_present snd_conv simp_thms, simp)

subsection \<open>Start-up\<close>

text \<open>
  The running process: the configuration, the log sink with its files, the singletons, whether the tick timer and the signal set have an operation
  outstanding, the number of threads in \<open>io.run()\<close>, the counter of \<open>DumpHeap\<close> and the dumps written.
\<close>

record ('h, 'f) Server =
  sv_config :: ServerConfig
  sv_log :: "DateRotatingFileSink \<times> 'f"
  sv_modules :: "(WasmEdgePlugin, wasm_world) mm_state"
  sv_runtime :: ActorRuntime
  sv_actors :: actor_heap
  sv_gateway :: "'h Gateway_world"
  sv_ticking :: bool
  sv_signals :: bool
  sv_threads :: u64
  sv_dump_num :: u32
  sv_dump_files :: "string list"

definition g_interval_ms :: u64 where
  "g_interval_ms = 16"








subsection \<open>The event loop\<close>

datatype signal_number = SIGUSR1 | SIGHUP

text \<open>
  \<open>DumpHeap\<close>: the process id and what \<open>mallctl\<close> returns for \<open>prof.dump\<close> to a file name (0 for success)
  are parameters. The counter is an \<open>int32_t\<close>.
\<close>

record heap_env =
  he_pid :: nat
  he_prof_dump :: "string \<Rightarrow> int"

definition int_decimal :: "int \<Rightarrow> string" where
  "int_decimal i = (if i < 0 then ''-'' @ to_decimal (nat (- i)) else to_decimal (nat i))"

definition dump_filename :: "nat \<Rightarrow> u32 \<Rightarrow> string" where
  "dump_filename pid seq = ''jeprof.'' @ to_decimal pid @ ''.'' @ int_decimal (sint seq) @ ''.heap''"

definition DumpHeap :: "heap_env \<Rightarrow> ('h, 'f) Server \<Rightarrow> ('h, 'f) Server" where
  "DumpHeap he sv =
     (let seq = sv_dump_num sv + 1; filename = dump_filename (he_pid he) seq; err = he_prof_dump he filename;
          sv1 = sv\<lparr>sv_dump_num := seq\<rparr>
      in if err \<noteq> 0 then sv1 else sv1\<lparr>sv_dump_files := sv_dump_files sv @ [filename]\<rparr>)"

text \<open>The Boolean is the error code of the completion: true for an error.\<close>

datatype 'h server_event =
    Tick_timer bool
  | Signal bool signal_number
  | Network "'h gateway_event"

definition on_tick_timer :: "bool \<Rightarrow> ('h, 'f) Server \<Rightarrow> ('h, 'f) Server" where
  "on_tick_timer ec sv =
     (if \<not> sv_ticking sv then sv
      else if ec then sv\<lparr>sv_ticking := False\<rparr>
      else sv\<lparr>sv_actors := ActorRuntime_Tick g_interval_ms (sv_runtime sv) (sv_actors sv)\<rparr>)"

definition on_signal :: "heap_env \<Rightarrow> wasm_env \<Rightarrow> bool \<Rightarrow> signal_number \<Rightarrow> ('h, 'f) Server \<Rightarrow> mm_error + ('h, 'f) Server" where
  "on_signal he env ec n sv =
     (if \<not> sv_signals sv then Inr sv
      else if ec then Inr (sv\<lparr>sv_signals := False\<rparr>)
      else (case n of
              SIGUSR1 \<Rightarrow> Inr (DumpHeap he sv)
            | SIGHUP \<Rightarrow>
                (case ModuleManager_HotReloadAll (WasmEdgePlugin_ops env) (sv_modules sv) of
                   Inl e \<Rightarrow> Inl e
                 | Inr (ok, st) \<Rightarrow> Inr (sv\<lparr>sv_modules := st\<rparr>))))"

fun server_step :: "heap_env \<Rightarrow> wasm_env \<Rightarrow> arg_order \<Rightarrow> 'h server_event \<Rightarrow> ('h, 'f) Server \<Rightarrow> mm_error + ('h, 'f) Server" where
  "server_step he env order (Tick_timer ec) sv = Inr (on_tick_timer ec sv)"
| "server_step he env order (Signal ec n) sv = on_signal he env ec n sv"
| "server_step he env order (Network ev) sv = Inr (sv\<lparr>sv_gateway := gateway_handle order ev (sv_gateway sv)\<rparr>)"



subsection \<open>The process as built\<close>


















definition dump_names :: "heap_env \<Rightarrow> nat \<Rightarrow> nat \<Rightarrow> string list" where
  "dump_names he a b =
     filter (\<lambda>f. he_prof_dump he f = 0) (map (\<lambda>k. dump_filename (he_pid he) (word_of_nat k)) [Suc a ..< Suc b])"


lemma dump_names_same [simp]: "dump_names he a a = []"
  by (simp add: dump_names_def)


lemma server_usr1:
  "sv_signals sv \<Longrightarrow> server_step he env order (Signal False SIGUSR1) sv = Inr (DumpHeap he sv)"
  by (simp add: on_signal_def)







section \<open>Properties\<close>





end
