(* ===== verification/Log_Levels.thy ===== *)
theory Log_Levels
  imports Log_Macros
begin

section \<open>Levels and the logging macros\<close>

text \<open>
  \<open>InitLogging\<close> of \<open>core/logging.cpp\<close> gives the default logger a level and a flush level; the macros of
  \<open>core/logging.h\<close> pass a message with their level to spdlog, the throttled ones when their throttle lets it
  through. What spdlog does with it: a macro below \<open>SPDLOG_ACTIVE_LEVEL\<close> (\<open>active\<close>) is compiled to nothing,
  whatever the configuration; the repository does not set it, and spdlog's default is the level of \<open>INFO\<close>.
  A logger drops messages below its level and flushes after messages of its flush level and above.
  \<open>from_str\<close> is spdlog's table of level names. Levels are compared by their numbers.
\<close>

record 'm Logger =
  lo_level :: int
  lo_flush_on :: int
  lo_written :: "(log_level \<times> 'm) list"
  lo_flushed :: nat

definition InitLogging_logger :: "(string \<Rightarrow> int) \<Rightarrow> string \<Rightarrow> string \<Rightarrow> 'm Logger" where
  "InitLogging_logger from_str level flush_level =
     \<lparr>lo_level = from_str level, lo_flush_on = from_str flush_level, lo_written = [], lo_flushed = 0\<rparr>"

definition AtExitFlush :: "'m Logger \<Rightarrow> 'm Logger" where
  "AtExitFlush lo = lo\<lparr>lo_flushed := length (lo_written lo)\<rparr>"

primrec level_number :: "log_level \<Rightarrow> int" where
  "level_number TRACE = 0"
| "level_number DEBUG = 1"
| "level_number INFO = 2"
| "level_number WARN = 3"
| "level_number ERROR = 4"
| "level_number FATAL = 5"

text \<open>\<open>TRACE(msg)\<close> to \<open>FATAL(msg)\<close>.\<close>

definition log_message :: "int \<Rightarrow> log_level \<Rightarrow> 'm \<Rightarrow> 'm Logger \<Rightarrow> 'm Logger" where
  "log_message active level msg lo =
     (if level_number level < active \<or> level_number level < lo_level lo then lo
      else
        let lo1 = lo\<lparr>lo_written := lo_written lo @ [(level, msg)]\<rparr>
        in if lo_flush_on lo \<le> level_number level then lo1\<lparr>lo_flushed := length (lo_written lo1)\<rparr> else lo1)"

text \<open>
  The macros named \<open>LEVEL_THROTTLE\<close>, for each of the six levels: a level, a throttle with its argument and
  the static atomics of the call site. The clock is read by the time-based ones only.
\<close>

datatype throttle = EVERY_N int | FIRST_N int | EVERY_MS int | EVERY_SEC int | ONCE

record log_statics =
  ls_counter :: u64
  ls_last :: int

definition throttle_pass :: "throttle \<Rightarrow> int \<Rightarrow> log_statics \<Rightarrow> bool \<times> log_statics" where
  "throttle_pass th now ls =
     (case th of
        EVERY_N n \<Rightarrow> (case log_every_n n (ls_counter ls) of (b, c) \<Rightarrow> (b, ls\<lparr>ls_counter := c\<rparr>))
      | FIRST_N n \<Rightarrow> (case log_first_n n (ls_counter ls) of (b, c) \<Rightarrow> (b, ls\<lparr>ls_counter := c\<rparr>))
      | EVERY_MS ms \<Rightarrow> (case log_every_ms ms now False (ls_last ls) (ls_last ls) of (b, t) \<Rightarrow> (b, ls\<lparr>ls_last := t\<rparr>))
      | EVERY_SEC sec \<Rightarrow> (case log_every_sec sec now False (ls_last ls) (ls_last ls) of (b, t) \<Rightarrow> (b, ls\<lparr>ls_last := t\<rparr>))
      | ONCE \<Rightarrow> (case log_once (ls_counter ls) of (b, c) \<Rightarrow> (b, ls\<lparr>ls_counter := c\<rparr>)))"

definition log_throttled ::
  "int \<Rightarrow> log_level \<Rightarrow> throttle \<Rightarrow> int \<times> 'm \<Rightarrow> log_statics \<times> 'm Logger \<Rightarrow> log_statics \<times> 'm Logger" where
  "log_throttled active level th e st =
     (case throttle_pass th (fst e) (fst st) of
        (pass, ls) \<Rightarrow> (ls, if pass then log_message active level (snd e) (snd st) else snd st))"

text \<open>The evaluations of one call site, each with the clock and its message.\<close>

definition log_site :: "int \<Rightarrow> log_level \<Rightarrow> throttle \<Rightarrow> (int \<times> 'm) list \<Rightarrow> 'm Logger \<Rightarrow> 'm Logger" where
  "log_site active level th evals lo =
     snd (fold (log_throttled active level th) evals (\<lparr>ls_counter = 0, ls_last = 0\<rparr>, lo))"

subsection \<open>What is written\<close>

definition enabled :: "int \<Rightarrow> log_level \<Rightarrow> 'm Logger \<Rightarrow> bool" where
  "enabled active level lo \<longleftrightarrow> active \<le> level_number level \<and> lo_level lo \<le> level_number level"

definition write_all :: "log_level \<Rightarrow> 'm list \<Rightarrow> 'm Logger \<Rightarrow> 'm Logger" where
  "write_all level msgs lo =
     (if msgs = [] then lo
      else
        let lo1 = lo\<lparr>lo_written := lo_written lo @ map (Pair level) msgs\<rparr>
        in if lo_flush_on lo \<le> level_number level then lo1\<lparr>lo_flushed := length (lo_written lo1)\<rparr> else lo1)"

lemma log_message_enabled: "log_message active level msg lo = (if enabled active level lo then write_all level [msg] lo else lo)"
  by (auto simp: log_message_def enabled_def write_all_def Let_def)

lemma write_all_append: "write_all level msgs' (write_all level msgs lo) = write_all level (msgs @ msgs') lo"
  by (auto simp: write_all_def Let_def)

lemma enabled_write_all [simp]: "enabled active level (write_all level msgs lo) = enabled active level lo"
  by (simp add: enabled_def write_all_def Let_def)

text \<open>A site whose throttle only uses the counter writes the messages that the throttle lets through.\<close>

lemma counting_site:
  assumes pass: "\<And>now ls. throttle_pass th now ls = (fst (f (ls_counter ls)), ls\<lparr>ls_counter := snd (f (ls_counter ls))\<rparr>)"
  shows "snd (fold (log_throttled active level th) evals (\<lparr>ls_counter = c, ls_last = t\<rparr>, lo)) =
    (if enabled active level lo
     then write_all level (map snd (filter fst (zip (log_calls f (length evals) c) (map snd evals)))) lo else lo)"
proof (induction evals arbitrary: c lo)
  case (Cons e evals)
  obtain b c' where f: "f c = (b, c')" by fastforce
  show ?case
    using f Cons.IH [of c']
    by (simp add: log_throttled_def pass log_message_enabled write_all_append)
qed (simp add: write_all_def)

lemma selected:
  assumes "length evals = k"
  shows "map snd (filter fst (zip (map P [0 ..< k]) (map snd evals))) = map (\<lambda>i. snd (evals ! i)) (filter P [0 ..< k])"
proof -
  have "map snd evals = map (\<lambda>i. snd (evals ! i)) [0 ..< k]"
    using assms by (intro nth_equalityI) simp_all
  then show ?thesis by (simp add: zip_map_map zip_same_conv_map filter_map comp_def)
qed

lemma log_site_counting:
  assumes "length evals \<le> 2 ^ 63"
  shows "log_site active level (EVERY_N (int n)) evals lo =
      (if enabled active level lo then write_all level (map (\<lambda>i. snd (evals ! i)) (filter (\<lambda>i. n dvd i) [0 ..< length evals])) lo else lo)"
    and "log_site active level (FIRST_N (int n)) evals lo =
      (if enabled active level lo then write_all level (map (\<lambda>i. snd (evals ! i)) (filter (\<lambda>i. i < n) [0 ..< length evals])) lo else lo)"
    and "log_site active level ONCE evals lo =
      (if enabled active level lo then write_all level (map (\<lambda>i. snd (evals ! i)) (filter (\<lambda>i. i = 0) [0 ..< length evals])) lo else lo)"
  using counting_site [of "EVERY_N (int n)" "log_every_n (int n)" active level evals 0 0 lo]
    counting_site [of "FIRST_N (int n)" "log_first_n (int n)" active level evals 0 0 lo]
    counting_site [of ONCE log_once active level evals 0 0 lo]
    log_every_n_calls [OF assms, of n] log_first_n_calls [OF assms, of n] log_once_calls [OF assms]
  by (simp_all add: log_site_def throttle_pass_def case_prod_unfold selected)

section \<open>Properties\<close>

text \<open>C40: Logging macros. After \<open>InitLogging\<close> a call site evaluated at most \<open>2 ^ 63\<close> times writes exactly the
  messages with index 0, \<open>n\<close>, \<open>2 n\<close> and so on (\<open>EVERY_N\<close>), the first \<open>n\<close> (\<open>FIRST_N\<close>), the first (\<open>ONCE\<close>), in
  order, when its level is compiled in and not below the configured one, and otherwise none; what is
  written at the flush level or above is flushed. However the threads at an \<open>EVERY_MS\<close> site interleave between load and
  exchange, the clock values of its messages are at least \<open>ms\<close> apart, the first at least \<open>ms\<close> after the epoch.\<close>

theorem log_macros_write:
  assumes "lo = InitLogging_logger from_str name flush" and "0 < n" and "length evals \<le> 2 ^ 63" and "throttle_reachable ms s"
  shows "let k = length evals; on = (active \<le> level_number level \<and> from_str name \<le> level_number level);
         written = (\<lambda>th. lo_written (log_site active level th evals lo));
         chosen = (\<lambda>P. if on then map (\<lambda>i. (level, snd (evals ! i))) (filter P [0 ..< k]) else [])
     in written (EVERY_N (int n)) = chosen (\<lambda>i. n dvd i) \<and> written (FIRST_N (int n)) = chosen (\<lambda>i. i < n) \<and>
        written ONCE = chosen (\<lambda>i. i = 0) \<and>
        (from_str flush \<le> level_number level \<longrightarrow>
           lo_flushed (log_site active level (EVERY_N (int n)) evals lo) = length (written (EVERY_N (int n)))) \<and>
        spaced ms 0 (ts_logged s)"
  using assms(1) log_site_counting [OF assms(3), where active = active and level = level and lo = lo] throttle_inv [OF assms(4)]
  by (simp add: Let_def InitLogging_logger_def enabled_def write_all_def comp_def)

theorem log_macros_write_witness:
  "lo_written (log_site 2 WARN (EVERY_N (int 2)) [(0, ''a''), (1, ''b''), (2, ''c'')] (InitLogging_logger (\<lambda>_. 2) ''info'' ''info'')) =
      [(WARN, ''a''), (WARN, ''c'')] \<and>
    lo_written (log_site 2 DEBUG ONCE [(0, ''a''), (1, ''b''), (2, ''c'')] (InitLogging_logger (\<lambda>_. 2) ''info'' ''info'')) = []"
proof -
  have "throttle_reachable 10 throttle_new" by (rule throttle_reachable.start)
  note all = log_macros_write [OF refl _ _ this, of 2 "[(0 :: int, ''a''), (1, ''b''), (2, ''c'')]" 2 _ "\<lambda>_. 2" "''info''" "''info''", unfolded Let_def]
  show ?thesis
    using all [of WARN] all [of DEBUG] by (simp add: upt_rec)
qed

end
