(* ===== verification/Singleton.thy ===== *)
theory Singleton
  imports Threads
begin

section \<open>Singletons on threads\<close>

text \<open>
  \<open>common/singleton.h\<close>: every manager of the program is reached through \<open>Instance()\<close>, which runs
  \<open>instance_.reset(new T)\<close> under \<open>std::call_once\<close> and returns \<open>instance_.get()\<close>. A \<open>once_flag\<close> is unset,
  running (the other callers wait) or set; when the constructor throws, the flag is unset again, that
  caller gets the exception and the next caller tries again. \<open>NonCopyable\<close> forbids every other way to
  make a second object. An object is the number of the \<open>new\<close> that made it.
\<close>

datatype once_flag = Once_unset | Once_running | Once_set

record Singleton_state =
  sg_flag :: once_flag
  sg_instance :: "nat option"
  sg_made :: nat
  sg_results :: "nat option option list"

text \<open>A result is the returned pointer, or nothing when \<open>Instance()\<close> threw.\<close>

definition Singleton_start :: Singleton_state where
  "Singleton_start = \<lparr>sg_flag = Once_unset, sg_instance = None, sg_made = 0, sg_results = []\<rparr>"

datatype singleton_pc = Call_once | New_T | Leave_once | Get_instance

fun singleton_exec ::
  "bool \<Rightarrow> singleton_pc \<Rightarrow> Singleton_state \<Rightarrow> (Singleton_state \<times> singleton_pc option) option" where
  "singleton_exec throws Call_once s =
     (case sg_flag s of
        Once_unset \<Rightarrow> Some (s\<lparr>sg_flag := Once_running\<rparr>, Some New_T)
      | Once_running \<Rightarrow> None
      | Once_set \<Rightarrow> Some (s, Some Get_instance))"
| "singleton_exec throws New_T s =
     (if throws then Some (s\<lparr>sg_flag := Once_unset, sg_results := sg_results s @ [None]\<rparr>, None)
      else Some (s\<lparr>sg_instance := Some (sg_made s), sg_made := sg_made s + 1\<rparr>, Some Leave_once))"
| "singleton_exec throws Leave_once s = Some (s\<lparr>sg_flag := Once_set\<rparr>, Some Get_instance)"
| "singleton_exec throws Get_instance s = Some (s\<lparr>sg_results := sg_results s @ [Some (sg_instance s)]\<rparr>, None)"

inductive singleton_step ::
  "Singleton_state \<times> singleton_pc list \<Rightarrow> Singleton_state \<times> singleton_pc list \<Rightarrow> bool" where
  "singleton_exec throws pc s = Some (s', t) \<Longrightarrow>
     singleton_step (s, before @ pc # after) (s', moved before t after)"

text \<open>\<open>n\<close> calls of \<open>Instance()\<close>.\<close>

definition singleton_reachable :: "nat \<Rightarrow> Singleton_state \<Rightarrow> singleton_pc list \<Rightarrow> bool" where
  "singleton_reachable n s ths \<longleftrightarrow> singleton_step\<^sup>*\<^sup>* (Singleton_start, replicate n Call_once) (s, ths)"

subsection \<open>The invariant\<close>

text \<open>
  The running flag stands for exactly one thread inside \<open>call_once\<close>; the object exists once that thread
  has made it, and a thread that reads the pointer does so after the flag was set.
\<close>

definition singleton_made :: "Singleton_state \<Rightarrow> bool" where
  "singleton_made s \<longleftrightarrow> sg_made s = 1 \<and> sg_instance s = Some 0"

definition singleton_unmade :: "Singleton_state \<Rightarrow> bool" where
  "singleton_unmade s \<longleftrightarrow> sg_made s = 0 \<and> sg_instance s = None"

definition singleton_ok :: "nat \<Rightarrow> Singleton_state \<times> singleton_pc list \<Rightarrow> bool" where
  "singleton_ok n sth \<longleftrightarrow>
     (let (s, ths) = sth; new = count_if (\<lambda>pc. pc = New_T) ths; leave = count_if (\<lambda>pc. pc = Leave_once) ths;
          got = count_if (\<lambda>pc. pc = Get_instance) ths
      in length (sg_results s) + length ths = n \<and>
         (\<forall>r \<in> set (sg_results s). r = None \<or> r = Some (Some 0) \<and> sg_flag s = Once_set) \<and>
         (case sg_flag s of
            Once_unset \<Rightarrow> singleton_unmade s \<and> new = 0 \<and> leave = 0 \<and> got = 0
          | Once_running \<Rightarrow>
              (singleton_unmade s \<and> new = 1 \<and> leave = 0 \<or> singleton_made s \<and> new = 0 \<and> leave = 1) \<and> got = 0
          | Once_set \<Rightarrow> singleton_made s \<and> new = 0 \<and> leave = 0))"

lemmas singleton_defs = singleton_ok_def singleton_made_def singleton_unmade_def Let_def

lemma singleton_ok_start: "singleton_ok n (Singleton_start, replicate n Call_once)"
  by (simp add: singleton_defs Singleton_start_def count_if_def)

lemma singleton_ok_step:
  assumes "singleton_ok n sth" and "singleton_step sth sth'"
  shows "singleton_ok n sth'"
  using assms(2,1)
proof cases
  case (1 throws pc s s' t before after)
  then show ?thesis
    using assms(1)
    by (cases pc) (auto simp: singleton_defs split: once_flag.splits if_splits)
qed

definition singleton_work :: "Singleton_state \<times> singleton_pc list \<Rightarrow> nat" where
  "singleton_work sth =
     (\<Sum>pc \<leftarrow> snd sth. case pc of Call_once \<Rightarrow> 4 | New_T \<Rightarrow> 3 | Leave_once \<Rightarrow> 2 | Get_instance \<Rightarrow> 1)"

lemma singleton_step_work:
  assumes "singleton_step sth sth'"
  shows "singleton_work sth' < singleton_work sth"
  using assms
proof cases
  case (1 throws pc s s' t before after)
  then show ?thesis
    by (cases pc) (auto simp: singleton_work_def split: once_flag.splits if_splits)
qed

lemma singleton_not_stuck:
  assumes "singleton_ok n sth" and "snd sth \<noteq> []"
  shows "\<exists>sth'. singleton_step sth sth'"
proof -
  obtain s ths where sth: "sth = (s, ths)" by fastforce
  have "\<exists>pc \<in> set ths. singleton_exec False pc s \<noteq> None"
  proof (cases "\<forall>pc \<in> set ths. pc = Call_once")
    case True
    then have "count_if (\<lambda>pc. pc = New_T) ths = 0" "count_if (\<lambda>pc. pc = Leave_once) ths = 0"
      by (auto simp: count_if_0)
    then have "sg_flag s \<noteq> Once_running" using assms(1) sth by (auto simp: singleton_defs)
    then show ?thesis using True assms(2) sth by (cases ths) (auto split: once_flag.split)
  next
    case False
    then obtain pc where "pc \<in> set ths" "pc \<noteq> Call_once" by blast
    moreover from this(2) have "singleton_exec False pc s \<noteq> None" by (cases pc) simp_all
    ultimately show ?thesis by blast
  qed
  then obtain pc s' t before after where "ths = before @ pc # after" "singleton_exec False pc s = Some (s', t)"
    by (metis in_set_conv_decomp not_None_eq surj_pair)
  then show ?thesis using singleton_step.intros [of False pc s s' t before after] sth by blast
qed

interpretation singleton_calls: progress singleton_step "singleton_ok n" singleton_work "\<lambda>sth. snd sth = []" for n
  by unfold_locales (blast intro: singleton_ok_step singleton_step_work singleton_not_stuck)+

lemma singleton_ok_reachable:
  assumes "singleton_reachable n s ths"
  shows "singleton_ok n (s, ths)"
proof -
  have "singleton_step\<^sup>*\<^sup>* sth sth' \<Longrightarrow> singleton_ok n sth \<Longrightarrow> singleton_ok n sth'" for sth sth'
    by (induction rule: rtranclp_induct) (auto intro: singleton_ok_step)
  then show ?thesis using assms singleton_ok_start by (simp add: singleton_reachable_def)
qed

text \<open>Three calls, the first of which throws while the others wait.\<close>

lemma singleton_move:
  assumes "singleton_reachable n s (before @ pc # after)" and "singleton_exec throws pc s = Some (s', t)"
  shows "singleton_reachable n s' (moved before t after)"
  using assms(1) singleton_step.intros [OF assms(2), of before after]
  unfolding singleton_reachable_def by (rule rtranclp.rtrancl_into_rtrancl)

lemma three_calls: "\<exists>s. singleton_reachable 3 s [] \<and> sg_results s = [None, Some (Some 0), Some (Some 0)]"
proof -
  have start: "singleton_reachable 3 Singleton_start ([] @ Call_once # [Call_once, Call_once])"
    by (simp add: singleton_reachable_def numeral_3_eq_3)
  define s1 where "s1 = Singleton_start\<lparr>sg_results := [None]\<rparr>"
  have r1: "singleton_reachable 3 s1 [Call_once, Call_once]"
    using singleton_move [OF start, of False] singleton_move [of 3 _ "[]" New_T "[Call_once, Call_once]" True]
    by (simp add: Singleton_start_def s1_def)
  define s2 where "s2 = s1\<lparr>sg_flag := Once_set, sg_instance := Some 0, sg_made := 1\<rparr>"
  have r2: "singleton_reachable 3 s2 [Get_instance, Call_once]"
    using singleton_move [of 3 s1 "[]" Call_once "[Call_once]" False]
      singleton_move [of 3 "s1\<lparr>sg_flag := Once_running\<rparr>" "[]" New_T "[Call_once]" False]
      singleton_move [of 3 "s1\<lparr>sg_flag := Once_running, sg_instance := Some 0, sg_made := 1\<rparr>" "[]" Leave_once "[Call_once]" False] r1
    by (simp add: Singleton_start_def s1_def s2_def)
  have r3: "singleton_reachable 3 (s2\<lparr>sg_results := [None, Some (Some 0)]\<rparr>) [Call_once]"
    using singleton_move [of 3 s2 "[]" Get_instance "[Call_once]" False] r2
    by (simp add: Singleton_start_def s1_def s2_def)
  have r4: "singleton_reachable 3 (s2\<lparr>sg_results := [None, Some (Some 0)]\<rparr>) [Get_instance]"
    using singleton_move [of 3 "s2\<lparr>sg_results := [None, Some (Some 0)]\<rparr>" "[]" Call_once "[]" False] r3
    by (simp add: Singleton_start_def s1_def s2_def)
  have "singleton_reachable 3 (s2\<lparr>sg_results := [None, Some (Some 0), Some (Some 0)]\<rparr>) []"
    using singleton_move [of 3 "s2\<lparr>sg_results := [None, Some (Some 0)]\<rparr>" "[]" Get_instance "[]" False] r4
    by (simp add: Singleton_start_def s1_def s2_def)
  then show ?thesis by (intro exI [of _ "s2\<lparr>sg_results := [None, Some (Some 0), Some (Some 0)]\<rparr>"]) simp
qed

section \<open>Properties\<close>

text \<open>C39: Singletons. However many threads call \<open>Instance()\<close>, in whatever interleaving and whichever constructor
  calls throw: at most one object is ever made; every call that returned normally gave a pointer to it,
  never a null pointer; and every schedule ends after a bounded number of steps, with all calls done.\<close>

theorem singleton_one_instance:
  assumes "singleton_reachable n s ths"
  shows "sg_made s \<le> 1 \<and> set (sg_results s) \<subseteq> {None, Some (Some 0)} \<and>
      (Some (Some 0) \<in> set (sg_results s) \<longrightarrow> sg_made s = 1 \<and> sg_instance s = Some 0) \<and>
      (\<exists>bound. \<forall>k sth. (singleton_step ^^ k) (s, ths) sth \<longrightarrow>
         k \<le> bound \<and> ((\<nexists>sth'. singleton_step sth sth') \<longrightarrow> length (sg_results (fst sth)) = n))"
proof -
  note ok = singleton_ok_reachable [OF assms]
  have "k \<le> singleton_work (s, ths) \<and> ((\<nexists>sth'. singleton_step sth sth') \<longrightarrow> length (sg_results (fst sth)) = n)"
    if "(singleton_step ^^ k) (s, ths) sth" for k sth
    using singleton_calls.bounded [OF that ok] singleton_calls.maximal_finished [OF ok relpowp_imp_rtranclp [OF that]]
    by (auto simp: singleton_ok_def Let_def split: prod.splits)
  then show ?thesis
    using ok by (intro conjI exI [of _ "singleton_work (s, ths)"])
      (auto simp: singleton_defs split: once_flag.splits)
qed

theorem singleton_one_instance_witness:
  "\<exists>s. singleton_reachable 3 s [] \<and> sg_results s = [None, Some (Some 0), Some (Some 0)] \<and> sg_made s \<le> 1"
proof -
  obtain s where "singleton_reachable 3 s []" "sg_results s = [None, Some (Some 0), Some (Some 0)]"
    using three_calls by blast
  then show ?thesis using singleton_one_instance by blast
qed

end
