(* ===== verification/Spec2Isabelle.thy ===== *)
theory Spec2Isabelle
  imports Wasmedge_Execution Room_System Session_Race Storage_Locking Registry_Locking Server_Main Logging Log_Levels Singleton
begin

text \<open>
  WasmHot is a game server in C++ whose logic runs in WebAssembly modules that can be replaced while
  the server runs. This development models the server's own code under \<open>src/src/\<close> and proves what
  makes its parts correct.

  The program. \<open>main.cpp\<close> reads a configuration, sets up logging, gives the module manager a plugin
  factory, starts the gateway and then drives one io context from several threads: a timer ticks the
  actor runtime, SIGHUP reloads all modules, and asio completes network operations. Clients talk to
  the \<open>Gateway\<close>, which frames messages and calls the handler of their type. An actor has a mailbox
  and a strand; an actor with an object owns clones of plugins and runs them on a temporary
  \<open>GameObject\<close> view from the \<open>ObjectRegistry\<close>. A plugin is a WasmEdge virtual machine with a host module
  through which the guest reads and writes \<open>ComponentStorage\<close>. The \<open>SchemaManager\<close> describes component
  layouts and the \<open>MigrationEngine\<close> moves an object between schema versions.

  Theories, in the order of their imports, with the files they model:
  \<^item> \<open>Prelude\<close>: byte and word types, little-endian encoding, named collections, list lemmas.
  \<^item> \<open>Threads\<close>: counting holders of a \<open>std::shared_mutex\<close>, and the locale \<open>progress\<close> (an invariant, a
    measure and no stuck state give termination), interpreted for the storage, the registry, the
    actor system and the singletons.
  \<^item> \<open>Unordered_Map\<close>: \<open>std::unordered_map\<close> as a locale of laws, interpreted on association lists. The
    iteration order is the list's order, so a theorem for every map holds for every order.
  \<^item> \<open>Schema_Manager\<close> (\<open>core/schema_manager\<close>): lookups return the schema registered last, and the
    latest version is the largest one above 0.
  \<^item> \<open>Component_Storage\<close> (\<open>core/component_storage\<close>): the sequential operations refine a flat map from
    object and type to bytes; the locale \<open>component_store\<close> holds the laws its clients use.
  \<^item> \<open>Storage_Locking\<close> (the same file): the map lock and the object locks as steps of any number of
    threads, with linearizability, absence of deadlock, freedom from use after free when no entry is
    created while one is erased, and the run that breaks it otherwise.
  \<^item> \<open>Game_Object\<close> (\<open>core/object\<close>), \<open>Migration_Engine\<close> (\<open>core/migration_engine\<close>) and
    \<open>Object_Registry\<close> (\<open>core/object_registry\<close>): the view and the output delta, the version walk, and
    the registry with its invariant, the partial migration and the stale view.
  \<^item> \<open>Registry_Locking\<close> (\<open>core/object_registry\<close>): its map lock and entry mutexes as steps of any number
    of threads, a migration advancing one version per step, beside threads that write components:
    linearizability of headers, memory safety, termination, and the gap between the erasure of an
    entry and the removal of its components.
  \<^item> \<open>Plugin_Interface\<close> (\<open>core/plugin_interface.h\<close>): the interface as a record of operations and the
    locale \<open>plugin_backend\<close> of what its clients rely on. \<open>Plugin_Heap\<close> models \<open>shared_ptr<IPlugin>\<close> with
    reference counts, \<open>Module_Manager\<close> and \<open>Module_Resources\<close> (\<open>core/module_manager\<close>) the manager's
    operations and, inside the locale, its ownership invariant. \<open>Module_Threads\<close>: the same calls from any
    number of threads, each locked section a step and the creation of a plugin, which takes no lock,
    another one; the ownership invariant holds with the plugins that threads have created and not
    installed, and an \<open>Unload\<close> between the copy and the reloads of \<open>HotReloadAll\<close> is undone.
    \<open>Module_Versions\<close> is the contract without pointers, a table of names with atomic changes, and the proof that the
    threads refine it (the locale \<open>plugin_origin\<close> over \<open>plugin_backend\<close>).
    \<open>Plugin_Lifecycle\<close> adds the actors: constructors that borrow a module with \<open>Get\<close>, clone it and drop
    the reference, invocations and destructions, interleaved with the manager's calls. The invariant counts
    the references to every shared plugin and the owners of every handle.
  \<^item> \<open>Wasmedge_Plugin\<close>, \<open>Wasmedge_Resources\<close> and \<open>Wasmedge_Execution\<close> (\<open>plugin/wasmedge_plugin\<close>): the
    plugin over a trace of WasmEdge calls, the proof that no handle is used or deleted twice and none
    leaks (an interpretation of \<open>plugin_backend\<close>), and what an execution of a guest can change.
  \<^item> \<open>Actor_Mailbox\<close> and \<open>Actor_Runtime\<close> (\<open>actor/actor\<close>, \<open>actor/actor_runtime\<close>): messages are handled
    once and in order on the strand, interleaved with senders; ticks and sends reach exactly the
    actors they name. \<open>Room_Actor\<close> (\<open>actor/room_actor\<close>, \<open>ActorWithObject\<close>): construction and calls of
    the module. \<open>Room_Confinement\<close> composes all of it: module manager, WasmEdge plugin, strand,
    registry, storage and output deltas.
  \<^item> \<open>Actor_System\<close>: the calls of \<open>ActorRuntime\<close> on any number of threads interleaved with the strands of
    all actors; each actor is a lone actor when the state is forgotten, every schedule ends, and then every
    message has been handled by the actor that its lookup found, also when that actor was killed meanwhile.
    \<open>Room_System\<close>: many room actors on it; a room changes the components of its own object only.
  \<^item> \<open>Gateway_Session\<close>, \<open>Session_Writer\<close>, \<open>Session_Race\<close>, \<open>Gateway\<close> and \<open>Gateway_Invariant\<close>
    (\<open>core/gateway\<close>): the read loop and framing, the write chain on one thread, the same chain on
    several threads, the session and handler tables, and the invariant of the whole gateway.
  \<^item> \<open>Logging\<close> and \<open>Log_Macros\<close> (\<open>core/logging\<close>): the rotating file sink over abstract file operations
    and the throttled and checking macros, the time stamp also under threads; \<open>Log_Levels\<close>: which messages
    reach the logger under the configured levels. \<open>Server_Main\<close> (\<open>main.cpp\<close>): configuration,
    start-up with its ways to fail, event loop and heap dumps.
  \<^item> \<open>Singleton\<close> (\<open>common/singleton.h\<close>): \<open>Instance()\<close> on any number of threads, with constructors that throw.

  State is passed explicitly: a class is a record with the fields of the class, an operation is a
  definition named after the class and the method, and pointers to shared objects are addresses into
  a heap. Integers keep their width as words. A failing branch is a value: \<open>False\<close>, \<open>None\<close>, an error
  constructor or a negative return code, as the code has it.

  Loops. The version loop of \<open>Migrate\<close> is a total function whose measure is the distance between the
  two versions; 32-bit wrap-around cannot occur because the target is never passed. The read loop of
  a session is run with as many turns as there are unread bytes, and every turn that is not blocked
  consumes a byte. The strand and the write chain are step relations; their work measures decrease
  with every step of their own. In the
  registry a migration of at most \<open>2 ^ 32\<close> versions bounds the rank of a thread. Loops over containers are structural recursion.

  Parameters. What is not under \<open>src/\<close> is an argument of the definitions: the answers of WasmEdge and
  the behaviour of the guest (\<open>wasm_env\<close>), the results of socket calls, the YAML parser (\<open>yaml_env\<close>),
  the file system (\<open>file_ops\<close>), the date, the creation of threads (\<open>start_env\<close>), jemalloc (\<open>heap_env\<close>). The hypotheses on file operations are those of the locale
  \<open>log_files\<close>, which a file table satisfies.

  Not modelled: the CLI parser, the formatting of log records and dates, the table of level names in spdlog, log messages of the modelled code, exceptions such as failed allocation outside start-up and
  \<open>Instance()\<close>, and the memory model below the interleaving of the modelled steps (a data race is shown
  as a reachable state, its C++ meaning is undefined behaviour). In \<open>Module_Threads\<close> and
  \<open>Plugin_Lifecycle\<close> the WasmEdge calls that create, clone or execute one plugin are not interleaved with those of another thread; they share no handle.

  Each theory ends with its properties, numbered C1 to C40 in order of importance, each with a
  witness where it has hypotheses.
\<close>

section \<open>The module manager alone\<close>

text \<open>Any sequence of calls from a fresh manager.\<close>

lemma module_manager_run_safe:
  assumes "world_good w"
  shows "\<exists>mm h. mm_run (WasmEdgePlugin_ops env) xs
        (ModuleManager_Initialize WasmEdgePluginFactory_Create ModuleManager_new, plugin_heap_new w) = Inr (mm, h) \<and>
      no_misuse (ww_trace (ph_backend h)) \<and>
      (\<forall>n a. um_find (mm_modules mm) n = Some a \<longrightarrow> (\<exists>c. cell h a = Some c \<and> wp_initialized (so_obj c))) \<and>
      ((\<forall>n. um_find (mm_modules mm) n = None) \<longrightarrow> world_live (ph_backend h) = world_live w)"
proof -
  obtain mm h where run: "mm_run (WasmEdgePlugin_ops env) xs
        (ModuleManager_Initialize WasmEdgePluginFactory_Create ModuleManager_new, plugin_heap_new w) = Inr (mm, h)"
    and ok: "wasmedge.manager_ok (world_live w) (mm, h)"
    using wasmedge.manager_ok_run [OF wasmedge.manager_ok_start [OF assms refl], of env xs] by auto
  then show ?thesis
    using wasmedge.manager_ok_good [OF ok] wasmedge.manager_ok_loaded [OF ok] wasmedge.manager_ok_empty [OF ok]
    by (fastforce simp: world_good_def)
qed

text \<open>The calls on any number of threads, without actors.\<close>

lemma module_manager_threads_safe:
  assumes "world_good w"
  shows "\<exists>r. manager_schedule (WasmEdgePlugin_ops env) ns
        (manager_start xs (ModuleManager_Initialize WasmEdgePluginFactory_Create ModuleManager_new, plugin_heap_new w)) = Inr r \<and>
      no_misuse (ww_trace (ph_backend (snd (mr_state r)))) \<and>
      (\<forall>n a. um_find (mm_modules (fst (mr_state r))) n = Some a \<longrightarrow>
         (\<exists>c. cell (snd (mr_state r)) a = Some c \<and> wp_initialized (so_obj c))) \<and>
      (mr_threads r = [] \<and> (\<forall>n. um_find (mm_modules (fst (mr_state r))) n = None) \<longrightarrow>
         world_live (ph_backend (snd (mr_state r))) = world_live w)"
proof -
  obtain r where run: "manager_schedule (WasmEdgePlugin_ops env) ns
        (manager_start xs (ModuleManager_Initialize WasmEdgePluginFactory_Create ModuleManager_new, plugin_heap_new w)) = Inr r"
    and ok: "wasmedge.run_ok (world_live w) r"
    using wasmedge.run_ok_schedule [OF wasmedge.run_ok_start [OF wasmedge.manager_ok_start [OF assms refl]]] by blast
  obtain mm h where st: "mr_state r = (mm, h)" by fastforce
  have held: "wasmedge.manager_with (world_live w) (set (prepared_all (mr_threads r))) {#} (mm, h)"
    using ok st by (simp add: wasmedge.run_ok_def)
  then have "wasmedge.manager_ok (world_live w) (mm, h)" if "mr_threads r = []"
    using that by (simp add: wasmedge.manager_ok_with)
  then show ?thesis
    using run st wasmedge.with_good [OF held] wasmedge.with_loaded [OF held] wasmedge.manager_ok_empty
    by (fastforce simp: world_good_def)
qed

text \<open>A new room actor leaves the manager as it was and owns new handles.\<close>

lemma room_actor_clone_isolated:
  assumes "world_good w"
    and "mm_run (WasmEdgePlugin_ops env) xs
        (ModuleManager_Initialize WasmEdgePluginFactory_Create ModuleManager_new, plugin_heap_new w) = Inr (mm, h)"
    and "RoomActor_new (WasmEdgePlugin_ops env) i object_id (mm, h) = (ra, mm', h')"
  shows "mm' = mm \<and> ao_object_id (ra_object ra) = object_id \<and> no_misuse (ww_trace (ph_backend h')) \<and>
      (\<forall>q. um_find (ao_plugins (ra_object ra)) ''room'' = Some (Some q) \<longrightarrow>
         wp_initialized q \<and> plugin_owns q \<inter> world_live (ph_backend h) = {})"
proof -
  have ok: "wasmedge.manager_ok (world_live w) (mm, h)"
    using wasmedge.manager_ok_run [OF wasmedge.manager_ok_start [OF assms(1) refl], of env xs] assms(2) by auto
  have new: "ActorWithObject_new (WasmEdgePlugin_ops env) object_id [''room''] (mm, h) = (ra_object ra, (mm', h'))"
    using assms(3) by (auto simp: RoomActor_new_def split: prod.splits)
  note facts = wasmedge.new_actor_one_module [OF ok new]
  have "no_misuse (ww_trace (ph_backend h'))"
    using facts wasmedge.manager_ok_good by (auto simp: world_good_def)
  then show ?thesis using facts by (auto simp: wasmedge.plugins_owns_def)
qed

section \<open>Properties\<close>

text \<open>C1: Plugins over WasmEdge, all threads. Let any number of threads call \<open>Load\<close>, \<open>HotReload\<close>, \<open>HotReloadAll\<close>,
  \<open>Rollback\<close> and \<open>Unload\<close> on a fresh module manager and construct actors from its modules, while actors invoke
  modules and are destroyed, the registry and the storage change in any way, and the run stops anywhere. Then no
  step followed a pointer to a freed plugin, whatever the runtime answers, and none used or deleted a virtual machine or
  module instance that was not alive; every loaded module and every plugin that an actor owns is initialized, also
  one cloned from a module that was unloaded meanwhile; no handle belongs to plugins of two actors; the pending calls can run to their end; and when no
  call is pending, no actor exists and nothing is loaded, every handle that was created has been deleted.\<close>

theorem plugin_lifecycle_safe:
  assumes "world_good w"
  shows "\<exists>s. life_run (WasmEdgePlugin_ops env) es (life_start calls
        (ModuleManager_Initialize WasmEdgePluginFactory_Create ModuleManager_new, plugin_heap_new w) reg cs) = Inr s \<and>
      no_misuse (ww_trace (ph_backend (snd (lf_manager s)))) \<and>
      (\<forall>n a. um_find (mm_modules (fst (lf_manager s))) n = Some a \<longrightarrow>
         (\<exists>c. cell (snd (lf_manager s)) a = Some c \<and> wp_initialized (so_obj c))) \<and>
      (\<forall>k n q. k < length (lf_actors s) \<longrightarrow> um_find (ao_plugins (lf_actors s ! k)) n = Some (Some q) \<longrightarrow> wp_initialized q) \<and>
      (\<forall>k l n m q p. k < length (lf_actors s) \<longrightarrow> l < length (lf_actors s) \<longrightarrow> k \<noteq> l \<longrightarrow>
         um_find (ao_plugins (lf_actors s ! k)) n = Some (Some q) \<longrightarrow> um_find (ao_plugins (lf_actors s ! l)) m = Some (Some p) \<longrightarrow>
         plugin_owns q \<inter> plugin_owns p = {}) \<and>
      (\<exists>m s'. life_run (WasmEdgePlugin_ops env) (replicate m (LThread 0)) s = Inr s' \<and> lf_threads s' = []) \<and>
      (lf_threads s = [] \<and> lf_actors s = [] \<and> (\<forall>n. um_find (mm_modules (fst (lf_manager s))) n = None) \<longrightarrow>
         world_live (ph_backend (snd (lf_manager s))) = world_live w)"
proof -
  let ?start = "life_start calls (ModuleManager_Initialize WasmEdgePluginFactory_Create ModuleManager_new, plugin_heap_new w) reg cs"
  have "wasmedge.life_ok (world_live w) ?start"
    by (rule wasmedge.life_ok_start [OF wasmedge.manager_ok_start [OF assms refl]])
  from wasmedge.life_ok_run [OF this] obtain s where run: "life_run (WasmEdgePlugin_ops env) es ?start = Inr s"
    and ok: "wasmedge.life_ok (world_live w) s" by blast
  have "no_misuse (ww_trace (ph_backend (snd (lf_manager s))))"
    using wasmedge.life_ok_good [OF ok] by (simp add: world_good_def)
  moreover have "\<exists>m s'. life_run (WasmEdgePlugin_ops env) (replicate m (LThread 0)) s = Inr s' \<and> lf_threads s' = []"
    using wasmedge.threads_return [OF ok] by blast
  ultimately show ?thesis
    using run wasmedge.life_ok_modules [OF ok] wasmedge.life_ok_clone [OF ok] wasmedge.life_ok_apart [OF ok] wasmedge.life_ok_end [OF ok]
    by (intro exI [of _ s] conjI) blast+
qed

theorem plugin_lifecycle_safe_witness:
  "\<exists>s. life_run (WasmEdgePlugin_ops (accepting_env (GReturn 0)))
        [LThread 0, LThread 0, LThread 0, LThread 1, LThread 0, LThread 0, LThread 0, LInvoke 0 ''room'' ''tick'' [], LDestroy 0]
        (life_start [Manage (MLoad \<lparr>mc_name = ''room'', mc_path = ''room.wasm'', mc_schema_version = 1\<rparr>),
            NewActor 5 [''room''], Manage (MUnload ''room'')]
          (ModuleManager_Initialize WasmEdgePluginFactory_Create ModuleManager_new, plugin_heap_new empty_world)
          ObjectRegistry_new ComponentStorage_new) = Inr s \<and>
      no_misuse (ww_trace (ph_backend (snd (lf_manager s)))) \<and>
      (\<exists>m s'. life_run (WasmEdgePlugin_ops (accepting_env (GReturn 0))) (replicate m (LThread 0)) s = Inr s' \<and> lf_threads s' = [])"
  using plugin_lifecycle_safe [OF world_good_empty, where env = "accepting_env (GReturn 0)" and reg = ObjectRegistry_new and cs = ComponentStorage_new and
      es = "[LThread 0, LThread 0, LThread 0, LThread 1, LThread 0, LThread 0, LThread 0, LInvoke 0 ''room'' ''tick'' [], LDestroy 0]" and
      calls = "[Manage (MLoad \<lparr>mc_name = ''room'', mc_path = ''room.wasm'', mc_schema_version = 1\<rparr>),
        NewActor 5 [''room''], Manage (MUnload ''room'')]"]
  by (elim exE conjE) (intro exI conjI, assumption+)

text \<open>C3: Module manager, its contract. Whatever the interleaving of calls on a fresh manager over WasmEdge, for every name
  the file and schema version of the loaded plugin and of the one \<open>Rollback\<close> restores, the configuration and the
  reported version are those of a table that \<open>Load\<close>, \<open>HotReload\<close>, \<open>Rollback\<close> and \<open>Unload\<close> change atomically, in the
  order of their locked sections. Each returned call other than \<open>HotReloadAll\<close> made exactly the change its result
  says, a failed one none, in the order in which the calls returned; \<open>HotReloadAll\<close> makes only reloads.\<close>

theorem module_manager_refines:
  assumes "world_good w"
    and "start = manager_start xs (ModuleManager_Initialize WasmEdgePluginFactory_Create ModuleManager_new, plugin_heap_new w)"
    and "manager_schedule (WasmEdgePlugin_ops env) ns start = Inr r"
  shows "let log = manager_log (WasmEdgePlugin_ops env) ns start
     in module_views plugin_source (mr_state r) = fold change (map snd log) (\<lambda>_. module_view_new) \<and>
        filter (\<lambda>y. fst y \<noteq> MHotReloadAll) log = concat (map returned_changes (mr_returned r)) \<and>
        (\<forall>y. (MHotReloadAll, y) \<in> set log \<longrightarrow> (\<exists>c. y = Replace c))"
proof -
  let ?fresh = "(ModuleManager_Initialize WasmEdgePluginFactory_Create ModuleManager_new, plugin_heap_new w)"
  have "module_views plugin_source ?fresh = (\<lambda>_. module_view_new)"
    by (rule views_eqI) (simp_all add: ModuleManager_Initialize_def ModuleManager_new_def module_view_new_def ModuleManager_GetLoadedSchemaVersion_def)
  moreover have "wasmedge.run_ok (world_live w) start"
    unfolding assms(2) by (rule wasmedge.run_ok_start [OF wasmedge.manager_ok_start [OF assms(1) refl]])
  moreover have "mr_state start = ?fresh" "mr_returned start = []" by (simp_all add: assms(2) manager_start_def)
  ultimately show ?thesis
    using wasmedge_source.schedule_refines [OF _ wasmedge_source.run_made_start assms(3) [unfolded assms(2)]]
      log_returned [OF assms(3) start_calls [of xs ?fresh, folded assms(2)]]
    by (simp add: assms(2) Let_def)
qed

theorem module_manager_refines_witness:
  "\<exists>r. manager_schedule (WasmEdgePlugin_ops (accepting_env (GReturn 0))) [0, 1, 1, 0, 0]
        (manager_start [MLoad room_config, MHotReload (room_config\<lparr>mc_schema_version := 2\<rparr>), MRollback ''room'']
          (ModuleManager_Initialize WasmEdgePluginFactory_Create ModuleManager_new, plugin_heap_new empty_world)) = Inr r \<and>
      module_views plugin_source (mr_state r) =
        fold change (map snd (manager_log (WasmEdgePlugin_ops (accepting_env (GReturn 0))) [0, 1, 1, 0, 0]
          (manager_start [MLoad room_config, MHotReload (room_config\<lparr>mc_schema_version := 2\<rparr>), MRollback ''room'']
            (ModuleManager_Initialize WasmEdgePluginFactory_Create ModuleManager_new, plugin_heap_new empty_world)))) (\<lambda>_. module_view_new)"
proof -
  let ?start = "manager_start [MLoad room_config, MHotReload (room_config\<lparr>mc_schema_version := 2\<rparr>), MRollback ''room'']
    (ModuleManager_Initialize WasmEdgePluginFactory_Create ModuleManager_new, plugin_heap_new empty_world)"
  obtain r where run: "manager_schedule (WasmEdgePlugin_ops (accepting_env (GReturn 0))) [0, 1, 1, 0, 0] ?start = Inr r"
    using wasmedge.run_ok_schedule [OF wasmedge.run_ok_start [OF wasmedge.manager_ok_start [OF world_good_empty refl]]] by blast
  show ?thesis using run module_manager_refines [OF world_good_empty refl run] by (simp add: Let_def)
qed

end
